(* ===== verification/Prelude.thy ===== *)
theory Prelude
  imports
    Main
    "HOL-Library.Word"
    "HOL-Library.Signed_Division"
begin

unbundle bit_operations_syntax

text \<open>
  Shared vocabulary of the development: machine integers, the checked and saturating
  operations of Rust's standard library, decimal and hexadecimal formatting, and the
  calculus for fallible stateful code.

  A method that takes a mutable receiver and returns \<^verbatim>\<open>Result<T>\<close> is a function
  from the state to \<open>None\<close> (the call never returns) or \<open>Some\<close> of the result
  (\<open>Inl\<close> the error, \<open>Inr\<close> the value) and the state it leaves behind. The state is
  returned on the error path too: an early return keeps the updates made before it.
\<close>

section \<open>Machine integers\<close>

type_synonym u8 = "8 word"
type_synonym u16 = "16 word"
type_synonym u32 = "32 word"
type_synonym u64 = "64 word"

named_theorems word_arith \<open>unsigned readings of the checked and saturating operations\<close>

definition sat_add8 :: "u8 \<Rightarrow> u8 \<Rightarrow> u8" where
  "sat_add8 a b = (if unat a + unat b < 2 ^ 8 then a + b else 0xFF)"

definition sat_add32 :: "u32 \<Rightarrow> u32 \<Rightarrow> u32" where
  "sat_add32 a b = (if unat a + unat b < 2 ^ 32 then a + b else 0xFFFFFFFF)"

definition sat_add64 :: "u64 \<Rightarrow> u64 \<Rightarrow> u64" where
  "sat_add64 a b = (if unat a + unat b < 2 ^ 64 then a + b else 0xFFFFFFFFFFFFFFFF)"

definition sat_mul32 :: "u32 \<Rightarrow> u32 \<Rightarrow> u32" where
  "sat_mul32 a b = (if unat a * unat b < 2 ^ 32 then a * b else 0xFFFFFFFF)"

definition sat_sub32 :: "u32 \<Rightarrow> u32 \<Rightarrow> u32" where
  "sat_sub32 a b = (if b \<le> a then a - b else 0)"

definition sat_sub8 :: "u8 \<Rightarrow> u8 \<Rightarrow> u8" where
  "sat_sub8 a b = (if b \<le> a then a - b else 0)"

definition checked_add32 :: "u32 \<Rightarrow> u32 \<Rightarrow> u32 option" where
  "checked_add32 a b = (if unat a + unat b < 2 ^ 32 then Some (a + b) else None)"

definition checked_mul32 :: "u32 \<Rightarrow> u32 \<Rightarrow> u32 option" where
  "checked_mul32 a b = (if unat a * unat b < 2 ^ 32 then Some (a * b) else None)"

text \<open>Conversions that fail when the value does not fit (\<^verbatim>\<open>u32::try_from\<close>).\<close>

definition try_u8 :: "nat \<Rightarrow> u8 option" where
  "try_u8 n = (if n < 2 ^ 8 then Some (of_nat n) else None)"

definition try_u16 :: "nat \<Rightarrow> u16 option" where
  "try_u16 n = (if n < 2 ^ 16 then Some (of_nat n) else None)"

definition try_u32 :: "nat \<Rightarrow> u32 option" where
  "try_u32 n = (if n < 2 ^ 32 then Some (of_nat n) else None)"

definition sat_i64 :: "int \<Rightarrow> int" where
  "sat_i64 x = max (- (2 ^ 63)) (min (2 ^ 63 - 1) x)"

lemma unat_bound: "unat (w :: 'a::len word) < 2 ^ LENGTH('a)"
  by (rule unsigned_less)

lemma unat_sat_add8 [word_arith]: "unat (sat_add8 a b) = min (unat a + unat b) (2 ^ 8 - 1)"
  by (auto simp: sat_add8_def unat_word_ariths min_def)

lemma unat_sat_add32 [word_arith]: "unat (sat_add32 a b) = min (unat a + unat b) (2 ^ 32 - 1)"
  by (auto simp: sat_add32_def unat_word_ariths min_def)

lemma unat_sat_add64 [word_arith]: "unat (sat_add64 a b) = min (unat a + unat b) (2 ^ 64 - 1)"
  by (auto simp: sat_add64_def unat_word_ariths min_def)

lemma unat_sat_mul32 [word_arith]: "unat (sat_mul32 a b) = min (unat a * unat b) (2 ^ 32 - 1)"
  by (auto simp: sat_mul32_def unat_word_ariths min_def)

lemma unat_sat_sub32 [word_arith]: "unat (sat_sub32 a b) = unat a - unat b"
  by (auto simp: sat_sub32_def unat_sub word_le_nat_alt)

lemma unat_sat_sub8 [word_arith]: "unat (sat_sub8 a b) = unat a - unat b"
  by (auto simp: sat_sub8_def unat_sub word_le_nat_alt)

lemma checked_add32_Some:
  "checked_add32 a b = Some c \<longleftrightarrow> unat c = unat a + unat b"
proof -
  have "unat a + unat b < 2 ^ 32 \<longleftrightarrow> unat (a + b) = unat a + unat b"
    using unat_bound [of "a + b"] by (auto simp: unat_word_ariths)
  then show ?thesis
    using unat_bound [of c] by (auto simp: checked_add32_def word_unat_eq_iff)
qed

lemma checked_mul32_Some:
  "checked_mul32 a b = Some c \<longleftrightarrow> unat c = unat a * unat b"
proof -
  have "unat a * unat b < 2 ^ 32 \<longleftrightarrow> unat (a * b) = unat a * unat b"
    using unat_bound [of "a * b"] by (auto simp: unat_word_ariths)
  then show ?thesis
    using unat_bound [of c] by (auto simp: checked_mul32_def word_unat_eq_iff)
qed

lemma try_u32_Some: "try_u32 n = Some w \<longleftrightarrow> unat w = n"
  using unat_bound [of w] by (auto simp: try_u32_def unat_of_nat)

lemma try_u16_Some: "try_u16 n = Some w \<longleftrightarrow> unat w = n"
  using unat_bound [of w] by (auto simp: try_u16_def unat_of_nat)

lemma try_u8_Some: "try_u8 n = Some w \<longleftrightarrow> unat w = n"
  using unat_bound [of w] by (auto simp: try_u8_def unat_of_nat)

text \<open>A single-bit mask test reads one bit.\<close>

lemma mask_test_bit:
  fixes w :: "'a::len word"
  assumes "n < LENGTH('a)"
  shows "w AND push_bit n 1 \<noteq> 0 \<longleftrightarrow> bit w n"
proof -
  have "w AND push_bit n 1 = (if bit w n then push_bit n 1 else 0)"
    by (rule bit_word_eqI) (auto simp: bit_simps)
  moreover have "bit (push_bit n (1 :: 'a word)) n"
    using assms by (simp only: bit_push_bit_iff bit_1_iff possible_bit_word) simp
  then have "push_bit n (1 :: 'a word) \<noteq> 0" by (metis bit_0_eq bot_apply bot_bool_def)
  ultimately show ?thesis by simp
qed

text \<open>Setting one bit. The simplifier writes a shifted one as a power of two.\<close>

lemma bit_or_single:
  fixes w :: "'a::len word"
  assumes "n < LENGTH('a)"
  shows "bit (w OR 2 ^ n) m \<longleftrightarrow> bit w m \<or> m = n"
proof -
  have "bit (2 ^ n :: 'a word) m \<longleftrightarrow> m = n"
    using assms by (auto simp: bit_exp_iff possible_bit_word)
  then show ?thesis by (simp add: bit_or_iff)
qed

lemma length_filter_all_iff: "length (filter P xs) = length xs \<longleftrightarrow> (\<forall>x \<in> set xs. P x)"
  by (metis filter_True length_filter_less less_irrefl)

section \<open>Formatting\<close>

text \<open>\<^verbatim>\<open>{}\<close> of an unsigned integer.\<close>

fun dec_string :: "nat \<Rightarrow> string" where
  "dec_string n =
     (if n < 10 then [char_of (48 + n)] else dec_string (n div 10) @ [char_of (48 + n mod 10)])"

declare dec_string.simps [simp del]

definition hex_digit :: "nat \<Rightarrow> char" where
  "hex_digit n = (if n < 10 then char_of (48 + n) else char_of (87 + n))"

text \<open>\<^verbatim>\<open>{:#04x}\<close> of a byte: two digits after the prefix.\<close>

definition hex_byte :: "u8 \<Rightarrow> string" where
  "hex_byte b = ''0x'' @ [hex_digit (unat b div 16), hex_digit (unat b mod 16)]"

text \<open>\<^verbatim>\<open>{:04x}\<close> of a 16-bit number, and the parsers that read such text back.\<close>

definition hex4 :: "u16 \<Rightarrow> string" where
  "hex4 w = map hex_digit [unat w div 4096, unat w div 256 mod 16, unat w div 16 mod 16, unat w mod 16]"

definition digit_value :: "nat \<Rightarrow> char \<Rightarrow> nat option" where
  "digit_value radix c =
     (let n = (of_char c :: nat);
          d = (if 48 \<le> n \<and> n \<le> 57 then n - 48
               else if 97 \<le> n \<and> n \<le> 122 then n - 87
               else if 65 \<le> n \<and> n \<le> 90 then n - 55 else radix)
      in if d < radix then Some d else None)"

fun parse_digits :: "nat \<Rightarrow> nat \<Rightarrow> nat \<Rightarrow> string \<Rightarrow> nat option" where
  "parse_digits radix limit acc [] = Some acc"
| "parse_digits radix limit acc (c # cs) =
     (case digit_value radix c of
        None \<Rightarrow> None
      | Some d \<Rightarrow> if acc * radix + d < limit then parse_digits radix limit (acc * radix + d) cs
                  else None)"

text \<open>
  \<^verbatim>\<open>from_str_radix\<close> of an unsigned type with the given number of values: a leading plus
  sign is allowed when digits follow it.
\<close>

definition parse_unsigned :: "nat \<Rightarrow> nat \<Rightarrow> string \<Rightarrow> nat option" where
  "parse_unsigned radix limit s =
     (case s of
        [] \<Rightarrow> None
      | c # cs \<Rightarrow> if c = CHR ''+'' \<and> cs \<noteq> [] then parse_digits radix limit 0 cs
                  else parse_digits radix limit 0 s)"

lemma digit_value_hex: "n < 16 \<Longrightarrow> digit_value 16 (hex_digit n) = Some n"
  by (simp add: digit_value_def hex_digit_def Let_def)

lemma digit_value_dec: "n < 10 \<Longrightarrow> digit_value 10 (char_of (48 + n)) = Some n"
  by (simp add: digit_value_def Let_def)

lemma parse_four_hex:
  assumes "a < 16" "b < 16" "c < 16" "d < 16"
  shows "parse_digits 16 65536 0 (map hex_digit [a, b, c, d]) = Some (((a * 16 + b) * 16 + c) * 16 + d)"
  using assms by (simp add: digit_value_hex)

lemma four_hex_digits:
  "((n div 4096 * 16 + n div 256 mod 16) * 16 + n div 16 mod 16) * 16 + n mod 16 = (n :: nat)"
proof -
  have "n div 256 = n div 16 div 16" "n div 4096 = n div 16 div 16 div 16"
    by (simp_all flip: div_mult2_eq)
  then show ?thesis by (simp only: div_mult_mod_eq)
qed

lemma parse_hex4: "parse_unsigned 16 65536 (hex4 w) = Some (unat w)"
proof -
  have "unat w < 65536" using unat_bound [of w] by simp
  then have d: "unat w div 4096 < 16" "unat w div 256 mod 16 < 16" "unat w div 16 mod 16 < 16"
    "unat w mod 16 < 16" by simp_all
  have "hex_digit (unat w div 4096) \<noteq> CHR ''+''"
    using digit_value_hex [OF d(1)] by (auto simp: digit_value_def Let_def)
  then have "parse_unsigned 16 65536 (hex4 w) = parse_digits 16 65536 0 (hex4 w)"
    by (simp only: parse_unsigned_def hex4_def list.map list.case) simp
  also have "\<dots> = Some (unat w)"
    unfolding hex4_def parse_four_hex [OF d] four_hex_digits ..
  finally show ?thesis .
qed

lemma parse_digits_append:
  "parse_digits radix limit acc (xs @ ys) =
     (case parse_digits radix limit acc xs of
        None \<Rightarrow> None | Some acc' \<Rightarrow> parse_digits radix limit acc' ys)"
  by (induction xs arbitrary: acc) (auto split: option.split)

lemma parse_dec_string: "n < limit \<Longrightarrow> parse_unsigned 10 limit (dec_string n) = Some n"
proof -
  have all: "n < limit \<Longrightarrow> parse_digits 10 limit 0 (dec_string n) = Some n" for n
  proof (induction n rule: less_induct)
    case (less n)
    show ?case
    proof (cases "n < 10")
      case True
      then show ?thesis
        using less.prems digit_value_dec [OF True] by (simp add: dec_string.simps [of n])
    next
      case False
      have "n div 10 < n" "n div 10 < limit" using False less.prems by linarith+
      from less.IH [OF this] have "parse_digits 10 limit 0 (dec_string (n div 10)) = Some (n div 10)" .
      moreover have "n mod 10 < 10" by simp
      ultimately show ?thesis
        using False less.prems digit_value_dec [of "n mod 10"]
        by (simp add: dec_string.simps [of n] parse_digits_append mult.commute)
    qed
  qed
  have head: "\<exists>c cs. dec_string n = c # cs \<and> digit_value 10 c \<noteq> None" for n
  proof (induction n rule: less_induct)
    case (less n)
    show ?case
    proof (cases "n < 10")
      case True
      then show ?thesis using digit_value_dec [OF True] by (simp add: dec_string.simps [of n])
    next
      case False
      then have "n div 10 < n" by linarith
      from less [OF this] show ?thesis using False by (auto simp: dec_string.simps [of n])
    qed
  qed
  assume "n < limit"
  obtain c cs where c: "dec_string n = c # cs" "digit_value 10 c \<noteq> None" using head [of n] by auto
  then have "c \<noteq> CHR ''+''" by (auto simp: digit_value_def Let_def)
  then show ?thesis using all [OF \<open>n < limit\<close>] c(1) by (simp add: parse_unsigned_def)
qed

section \<open>Fallible stateful code\<close>

text \<open>\<open>'e\<close> is the error type; \<open>Types\<close> fixes it to the crate's own.\<close>

type_synonym ('e, 's, 'a) eio = "'s \<Rightarrow> (('e + 'a) \<times> 's) option"

definition io_return :: "'a \<Rightarrow> ('e, 's, 'a) eio" where
  "io_return a s = Some (Inr a, s)"

definition io_throw :: "'e \<Rightarrow> ('e, 's, 'a) eio" where
  "io_throw e s = Some (Inl e, s)"

text \<open>\<^verbatim>\<open>r?\<close> for a plain result.\<close>

definition io_result :: "'e + 'a \<Rightarrow> ('e, 's, 'a) eio" where
  "io_result r s = Some (r, s)"

text \<open>A panic: the call does not return.\<close>

definition io_panic :: "('e, 's, 'a) eio" where
  "io_panic s = None"

text \<open>\<^verbatim>\<open>Option::expect\<close>.\<close>

definition io_expect :: "'a option \<Rightarrow> ('e, 's, 'a) eio" where
  "io_expect x = (case x of None \<Rightarrow> io_panic | Some a \<Rightarrow> io_return a)"

definition io_gets :: "('s \<Rightarrow> 'a) \<Rightarrow> ('e, 's, 'a) eio" where
  "io_gets f s = Some (Inr (f s), s)"

definition io_modify :: "('s \<Rightarrow> 's) \<Rightarrow> ('e, 's, unit) eio" where
  "io_modify f s = Some (Inr (), f s)"

text \<open>Sequencing with the \<^verbatim>\<open>?\<close> operator: the first error ends the call.\<close>

definition io_bind :: "('e, 's, 'a) eio \<Rightarrow> ('a \<Rightarrow> ('e, 's, 'b) eio) \<Rightarrow> ('e, 's, 'b) eio" where
  "io_bind m f s =
     (case m s of
        None \<Rightarrow> None
      | Some (Inl e, s') \<Rightarrow> Some (Inl e, s')
      | Some (Inr a, s') \<Rightarrow> f a s')"

abbreviation io_then :: "('e, 's, unit) eio \<Rightarrow> ('e, 's, 'b) eio \<Rightarrow> ('e, 's, 'b) eio" where
  "io_then m n \<equiv> io_bind m (\<lambda>_. n)"

definition io_when :: "bool \<Rightarrow> ('e, 's, unit) eio \<Rightarrow> ('e, 's, unit) eio" where
  "io_when b m = (if b then m else io_return ())"

text \<open>\<^verbatim>\<open>let _ = m\<close>: the result, error or not, is dropped.\<close>

definition io_ignore :: "('e, 's, 'a) eio \<Rightarrow> ('e, 's, unit) eio" where
  "io_ignore m s = (case m s of None \<Rightarrow> None | Some (r, s') \<Rightarrow> Some (Inr (), s'))"

text \<open>\<^verbatim>\<open>m.or_else(|_| n)\<close>.\<close>

definition io_or_else :: "('e, 's, 'a) eio \<Rightarrow> ('e, 's, 'a) eio \<Rightarrow> ('e, 's, 'a) eio" where
  "io_or_else m n s =
     (case m s of
        None \<Rightarrow> None
      | Some (Inl e, s') \<Rightarrow> n s'
      | Some (Inr a, s') \<Rightarrow> Some (Inr a, s'))"

text \<open>\<^verbatim>\<open>m.map_err(f)\<close>, and the conversion \<^verbatim>\<open>?\<close> applies to a foreign error.\<close>

definition io_map_err :: "('e \<Rightarrow> 'f) \<Rightarrow> ('e, 's, 'a) eio \<Rightarrow> ('f, 's, 'a) eio" where
  "io_map_err f m s =
     (case m s of
        None \<Rightarrow> None
      | Some (Inl e, s') \<Rightarrow> Some (Inl (f e), s')
      | Some (Inr a, s') \<Rightarrow> Some (Inr a, s'))"

text \<open>A call on one field of the receiver.\<close>

definition io_zoom :: "('s \<Rightarrow> 'w) \<Rightarrow> ('w \<Rightarrow> 's \<Rightarrow> 's) \<Rightarrow> ('e, 'w, 'a) eio \<Rightarrow> ('e, 's, 'a) eio" where
  "io_zoom get put m s =
     (case m (get s) of None \<Rightarrow> None | Some (r, w) \<Rightarrow> Some (r, put w s))"

named_theorems io_run \<open>running a program from a state\<close>

lemma io_run_basic [io_run]:
  "io_return a s = Some (Inr a, s)"
  "io_throw e s = Some (Inl e, s)"
  "io_result r s = Some (r, s)"
  "io_gets f s = Some (Inr (f s), s)"
  "io_modify g s = Some (Inr (), g s)"
  by (simp_all add: io_return_def io_throw_def io_result_def io_gets_def io_modify_def)

lemma io_when_simps [simp]: "io_when True m = m" "io_when False m = io_return ()"
  by (simp_all add: io_when_def)

lemma io_bind_Some [io_run]:
  "m s = Some (Inr a, s') \<Longrightarrow> io_bind m f s = f a s'"
  "m s = Some (Inl e, s') \<Longrightarrow> io_bind m f s = Some (Inl e, s')"
  by (simp_all add: io_bind_def)

lemma io_bind_return: "io_bind m io_return = m"
  by (rule ext) (auto simp: io_bind_def io_run split: option.split sum.split prod.split)

lemma io_bind_result:
  "io_bind (io_result (Inr a)) f = f a" "io_bind (io_result (Inl e)) f = io_throw e"
  by (rule ext, simp add: io_bind_def io_run)+

lemma io_bind_ok_iff:
  "io_bind m f s = Some (Inr b, t) \<longleftrightarrow>
     (\<exists>a s'. m s = Some (Inr a, s') \<and> f a s' = Some (Inr b, t))"
  by (auto simp: io_bind_def split: option.splits sum.splits prod.splits)

lemma io_bind_returns_iff:
  "io_bind m f s = Some (r, t) \<longleftrightarrow>
     (\<exists>e. m s = Some (Inl e, t) \<and> r = Inl e) \<or>
     (\<exists>a s'. m s = Some (Inr a, s') \<and> f a s' = Some (r, t))"
  by (auto simp: io_bind_def split: option.splits sum.splits prod.splits)

lemma io_bind_okE:
  assumes "io_bind m f s = Some (Inr b, t)"
  obtains a s' where "m s = Some (Inr a, s')" and "f a s' = Some (Inr b, t)"
  using assms by (auto simp: io_bind_ok_iff)

lemma io_zoom_returns_iff:
  "io_zoom get put m s = Some (r, t) \<longleftrightarrow> (\<exists>w. m (get s) = Some (r, w) \<and> t = put w s)"
  by (auto simp: io_zoom_def split: option.splits prod.splits)

subsection \<open>What every run relates: frames\<close>

text \<open>
  \<open>io_rel R m\<close>: whenever \<open>m\<close> returns, error or not, \<open>R\<close> relates the state before
  to the state after. With \<open>R\<close> reflexive and transitive it composes through a program, which
  is how frame conditions and monotone counters are carried.
\<close>

definition io_rel :: "('s \<Rightarrow> 's \<Rightarrow> bool) \<Rightarrow> ('e, 's, 'a) eio \<Rightarrow> bool" where
  "io_rel R m \<longleftrightarrow> (\<forall>s r t. m s = Some (r, t) \<longrightarrow> R s t)"

named_theorems io_rel_intros \<open>composition of frame conditions\<close>

lemma io_relD: "io_rel R m \<Longrightarrow> m s = Some (r, t) \<Longrightarrow> R s t"
  by (auto simp: io_rel_def)

lemma io_rel_pure [io_rel_intros]:
  assumes "reflp R"
  shows "io_rel R (io_return a)" "io_rel R (io_throw e)" "io_rel R (io_result r)"
    "io_rel R (io_gets f)"
  using assms by (auto simp: io_rel_def io_run dest: reflpD)

lemma io_rel_modify: "(\<And>s. R s (g s)) \<Longrightarrow> io_rel R (io_modify g)"
  by (auto simp: io_rel_def io_run)

lemma io_rel_bind:
  assumes "transp R" and "io_rel R m" and "\<And>a. io_rel R (f a)"
  shows "io_rel R (io_bind m f)"
  using assms unfolding io_rel_def io_bind_returns_iff by (metis transpD)

lemma io_rel_when: "reflp R \<Longrightarrow> (b \<Longrightarrow> io_rel R m) \<Longrightarrow> io_rel R (io_when b m)"
  by (cases b) (auto intro: io_rel_pure)

lemma io_rel_ignore: "io_rel R m \<Longrightarrow> io_rel R (io_ignore m)"
  by (auto simp: io_rel_def io_ignore_def split: option.splits)

lemma io_rel_or_else:
  assumes "transp R" and "io_rel R m" and "io_rel R n"
  shows "io_rel R (io_or_else m n)"
  using assms unfolding io_rel_def io_or_else_def
  by (auto split: option.splits sum.splits dest: transpD) (metis transpD)

lemma io_rel_zoom:
  assumes "io_rel Q m" and "\<And>s w. Q (get s) w \<Longrightarrow> R s (put w s)"
  shows "io_rel R (io_zoom get put m)"
  using assms by (auto simp: io_rel_def io_zoom_returns_iff)

lemma io_rel_mono: "io_rel Q m \<Longrightarrow> (\<And>s t. Q s t \<Longrightarrow> R s t) \<Longrightarrow> io_rel R m"
  by (auto simp: io_rel_def)

subsection \<open>Programs that always return\<close>

definition io_halts :: "('e, 's, 'a) eio \<Rightarrow> bool" where
  "io_halts m \<longleftrightarrow> (\<forall>s. m s \<noteq> None)"

named_theorems io_halts_intros \<open>composition of total programs\<close>

lemma io_haltsD: "io_halts m \<Longrightarrow> \<exists>r t. m s = Some (r, t)"
  unfolding io_halts_def by (metis option.exhaust prod.exhaust)

lemma io_halts_basic [io_halts_intros]:
  "io_halts (io_return a)" "io_halts (io_throw e)" "io_halts (io_result r)"
  "io_halts (io_gets f)" "io_halts (io_modify g)"
  by (simp_all add: io_halts_def io_run)

lemma io_halts_bind [io_halts_intros]:
  "io_halts m \<Longrightarrow> (\<And>a. io_halts (f a)) \<Longrightarrow> io_halts (io_bind m f)"
  by (auto simp: io_halts_def io_bind_def split: option.splits sum.splits)

lemma io_halts_when [io_halts_intros]: "(b \<Longrightarrow> io_halts m) \<Longrightarrow> io_halts (io_when b m)"
  by (cases b) (auto intro: io_halts_basic)

lemma io_halts_ignore [io_halts_intros]: "io_halts m \<Longrightarrow> io_halts (io_ignore m)"
  by (auto simp: io_halts_def io_ignore_def split: option.splits)

lemma io_halts_or_else [io_halts_intros]:
  "io_halts m \<Longrightarrow> io_halts n \<Longrightarrow> io_halts (io_or_else m n)"
  by (auto simp: io_halts_def io_or_else_def split: option.splits sum.splits)

lemma io_halts_zoom [io_halts_intros]: "io_halts m \<Longrightarrow> io_halts (io_zoom get put m)"
  by (auto simp: io_halts_def io_zoom_def split: option.splits)

lemma io_halts_if [io_halts_intros]:
  "(b \<Longrightarrow> io_halts m) \<Longrightarrow> (\<not> b \<Longrightarrow> io_halts n) \<Longrightarrow> io_halts (if b then m else n)"
  by simp

subsection \<open>Total correctness\<close>

text \<open>
  \<open>io_wp m Q s\<close>: run from \<open>s\<close>, \<open>m\<close> returns, and its result and final state
  satisfy \<open>Q\<close>. The rules rewrite a program into conditions on its parts.
\<close>

definition io_wp :: "('e, 's, 'a) eio \<Rightarrow> ('e + 'a \<Rightarrow> 's \<Rightarrow> bool) \<Rightarrow> 's \<Rightarrow> bool" where
  "io_wp m Q s \<longleftrightarrow> (\<exists>r t. m s = Some (r, t) \<and> Q r t)"

named_theorems wp_simps \<open>weakest preconditions\<close>

lemma wp_basic [wp_simps]:
  "io_wp (io_return a) Q s \<longleftrightarrow> Q (Inr a) s"
  "io_wp (io_throw e) Q s \<longleftrightarrow> Q (Inl e) s"
  "io_wp (io_result r) Q s \<longleftrightarrow> Q r s"
  "io_wp (io_gets f) Q s \<longleftrightarrow> Q (Inr (f s)) s"
  "io_wp (io_modify g) P s \<longleftrightarrow> P (Inr ()) (g s)"
  by (simp_all add: io_wp_def io_run)

lemma io_cases:
  assumes "m s = None \<Longrightarrow> P" and "\<And>e t. m s = Some (Inl e, t) \<Longrightarrow> P"
    and "\<And>a t. m s = Some (Inr a, t) \<Longrightarrow> P"
  shows P
  using assms by (metis option.exhaust prod.exhaust sum.exhaust)

lemma wp_panic [wp_simps]: "io_wp io_panic Q s \<longleftrightarrow> False"
  by (simp add: io_wp_def io_panic_def)

lemma wp_expect [wp_simps]: "io_wp (io_expect x) Q s \<longleftrightarrow> (\<exists>a. x = Some a \<and> Q (Inr a) s)"
  by (cases x) (simp_all add: io_expect_def wp_panic wp_basic)

lemma wp_bind [wp_simps]:
  "io_wp (io_bind m f) Q s \<longleftrightarrow>
     io_wp m (\<lambda>r t. case r of Inl e \<Rightarrow> Q (Inl e) t | Inr a \<Rightarrow> io_wp (f a) Q t) s"
  by (rule io_cases [of m s]) (auto simp: io_wp_def io_bind_def)

lemma wp_when [wp_simps]:
  "io_wp (io_when b m) Q s \<longleftrightarrow> (if b then io_wp m Q s else Q (Inr ()) s)"
  by (cases b) (simp_all add: wp_basic)

lemma wp_ignore [wp_simps]: "io_wp (io_ignore m) Q s \<longleftrightarrow> io_wp m (\<lambda>r t. Q (Inr ()) t) s"
  by (auto simp: io_wp_def io_ignore_def split: option.splits)

lemma wp_or_else [wp_simps]:
  "io_wp (io_or_else m n) Q s \<longleftrightarrow>
     io_wp m (\<lambda>r t. case r of Inl e \<Rightarrow> io_wp n Q t | Inr a \<Rightarrow> Q (Inr a) t) s"
  by (rule io_cases [of m s]) (auto simp: io_wp_def io_or_else_def)

lemma wp_map_err [wp_simps]:
  "io_wp (io_map_err f m) Q s \<longleftrightarrow>
     io_wp m (\<lambda>r t. case r of Inl e \<Rightarrow> Q (Inl (f e)) t | Inr a \<Rightarrow> Q (Inr a) t) s"
  by (rule io_cases [of m s]) (auto simp: io_wp_def io_map_err_def)

lemma wp_zoom [wp_simps]:
  "io_wp (io_zoom get put m) Q s \<longleftrightarrow> io_wp m (\<lambda>r w. Q r (put w s)) (get s)"
  by (auto simp: io_wp_def io_zoom_returns_iff)

lemma wp_conseq: "io_wp m P s \<Longrightarrow> (\<And>r t. P r t \<Longrightarrow> Q r t) \<Longrightarrow> io_wp m Q s"
  by (auto simp: io_wp_def)

lemma wp_conj: "io_wp m P s \<Longrightarrow> io_wp m Q s \<Longrightarrow> io_wp m (\<lambda>r t. P r t \<and> Q r t) s"
  by (auto simp: io_wp_def)

lemma wp_halts: "io_halts m \<longleftrightarrow> (\<forall>s. io_wp m (\<lambda>_ _. True) s)"
  unfolding io_halts_def io_wp_def by (metis option.exhaust option.simps(3) prod.exhaust)

lemma wp_returns: "io_wp m Q s \<Longrightarrow> m s = Some (r, t) \<Longrightarrow> Q r t"
  by (auto simp: io_wp_def)

lemma case_sum_fun:
  "(\<lambda>r s. case r of Inl e \<Rightarrow> f s | Inr a \<Rightarrow> g a s) = (\<lambda>r. case r of Inl e \<Rightarrow> f | Inr a \<Rightarrow> g a)"
  by (intro ext) (simp split: sum.split)

lemma io_bind_assoc: "io_bind (io_bind m f) g = io_bind m (\<lambda>a. io_bind (f a) g)"
  by (rule ext) (auto simp: io_bind_def split: option.splits sum.splits)

lemma io_halts_prod [io_halts_intros]:
  "(\<And>a b. io_halts (f a b)) \<Longrightarrow> io_halts (case p of (a, b) \<Rightarrow> f a b)"
  by (cases p) simp

lemma io_halts_expect: "\<exists>a. x = Some a \<Longrightarrow> io_halts (io_expect x)"
  by (auto simp: io_expect_def io_halts_basic)

lemma io_panic_bind: "io_bind io_panic f = io_panic"
  by (rule ext) (simp add: io_bind_def io_panic_def)

lemma wp_expect_bind: "io_wp (io_bind (io_expect (Some a)) f) Q s \<longleftrightarrow> io_wp (f a) Q s"
  by (simp add: wp_bind wp_expect)

end
