(* ===== verification/Types.thy ===== *)
theory Types
  imports
    Prelude
    "HOL-Library.Char_ord"
    "HOL-Library.List_Lexorder"
begin

text \<open>
  The public value types (\<^verbatim>\<open>src/types.rs\<close>) and the error type
  (\<^verbatim>\<open>src/error.rs\<close>): enumerations as datatypes, structs as records, the compiled
  driver table as a function of the cargo features, port identifiers with their order, and the
  validation of a configuration. Strings are lists of 8-bit characters; the text handled here
  (port names, driver tokens) is ASCII.
\<close>

section \<open>Errors\<close>

text \<open>
  \<^verbatim>\<open>std::io::ErrorKind\<close>, with the kinds the crate does not tell apart under one
  constructor.
\<close>

datatype io_kind =
    IoPermissionDenied | IoNotFound | IoTimedOut | IoWouldBlock | IoBrokenPipe
  | IoConnectionReset | IoUnexpectedEof | IoOther

datatype io_error = IoError (io_error_kind: io_kind) (io_message: string)

datatype error_kind =
    KInvalidConfig | KPortNotFound | KPortInUse | KPermissionDenied | KUnsupportedFirmware
  | KProtocol | KTimeout | KDisconnected | KWriteProtected | KUnplaceablePartialWrite
  | KTrackTooLarge | KWorkerStopped

datatype error =
    InvalidConfig string
  | PortNotFound string
  | PortInUse string
  | PermissionDenied string
  | UnsupportedFirmware string
  | Protocol string
  | Timeout string
  | Disconnected
  | WriteProtected
  | UnplaceablePartialWrite nat nat
  | TrackTooLarge nat nat
  | WorkerStopped
  | Io io_error

type_synonym 'a result = "error + 'a"
type_synonym ('s, 'a) io = "(error, 's, 'a) eio"

fun error_kind_of :: "error \<Rightarrow> error_kind" where
  "error_kind_of (InvalidConfig _) = KInvalidConfig"
| "error_kind_of (PortNotFound _) = KPortNotFound"
| "error_kind_of (PortInUse _) = KPortInUse"
| "error_kind_of (PermissionDenied _) = KPermissionDenied"
| "error_kind_of (UnsupportedFirmware _) = KUnsupportedFirmware"
| "error_kind_of (Protocol _) = KProtocol"
| "error_kind_of (Timeout _) = KTimeout"
| "error_kind_of Disconnected = KDisconnected"
| "error_kind_of WriteProtected = KWriteProtected"
| "error_kind_of (UnplaceablePartialWrite _ _) = KUnplaceablePartialWrite"
| "error_kind_of (TrackTooLarge _ _) = KTrackTooLarge"
| "error_kind_of WorkerStopped = KWorkerStopped"
| "error_kind_of (Io e) =
     (case io_error_kind e of
        IoPermissionDenied \<Rightarrow> KPermissionDenied
      | IoNotFound \<Rightarrow> KPortNotFound
      | IoTimedOut \<Rightarrow> KTimeout
      | IoWouldBlock \<Rightarrow> KTimeout
      | IoBrokenPipe \<Rightarrow> KDisconnected
      | IoConnectionReset \<Rightarrow> KDisconnected
      | IoUnexpectedEof \<Rightarrow> KDisconnected
      | IoOther \<Rightarrow> KProtocol)"

section \<open>Drivers\<close>

type_synonym capabilities = u32

definition AUTO_DETECT_PORT :: capabilities where "AUTO_DETECT_PORT = push_bit 1 1"
definition PC_DRIVE_SELECT :: capabilities where "PC_DRIVE_SELECT = push_bit 2 1"
definition SHUGART_DRIVE_SELECT :: capabilities where "SHUGART_DRIVE_SELECT = push_bit 3 1"
definition HIGH_DENSITY :: capabilities where "HIGH_DENSITY = push_bit 4 1"
definition DIRECT_FTDI :: capabilities where "DIRECT_FTDI = push_bit 5 1"

lemmas capability_defs =
  AUTO_DETECT_PORT_def PC_DRIVE_SELECT_def SHUGART_DRIVE_SELECT_def HIGH_DENSITY_def
  DIRECT_FTDI_def

definition caps_contains :: "capabilities \<Rightarrow> capabilities \<Rightarrow> bool" where
  "caps_contains c needed \<longleftrightarrow> c AND needed = needed"

datatype driver_kind = DrawBridge | Greaseweazle | SuperCardPro

fun driver_str :: "driver_kind \<Rightarrow> string" where
  "driver_str DrawBridge = ''drawbridge''"
| "driver_str Greaseweazle = ''greaseweazle''"
| "driver_str SuperCardPro = ''supercardpro''"

text \<open>\<^verbatim>\<open>char::to_lowercase\<close> on ASCII.\<close>

definition to_lower :: "char \<Rightarrow> char" where
  "to_lower c = (if 65 \<le> (of_char c :: nat) \<and> (of_char c :: nat) \<le> 90
                 then char_of ((of_char c :: nat) + 32) else c)"

text \<open>\<^verbatim>\<open>{:?}\<close> of a string: quoted, with the escapes of printable ASCII text.\<close>

definition debug_char :: "char \<Rightarrow> string" where
  "debug_char c = (if c = CHR 0x22 then [CHR 0x5C, CHR 0x22]
                   else if c = CHR 0x5C then [CHR 0x5C, CHR 0x5C] else [c])"

definition debug_string :: "string \<Rightarrow> string" where
  "debug_string s = CHR 0x22 # concat (map debug_char s) @ [CHR 0x22]"

definition driver_from_str :: "string \<Rightarrow> driver_kind result" where
  "driver_from_str value =
     (let normalized = map to_lower (filter (\<lambda>c. c \<notin> {CHR '' '', CHR ''-'', CHR ''_''}) value)
      in if normalized = ''drawbridge'' \<or> normalized = ''arduino'' then Inr DrawBridge
         else if normalized = ''greaseweazle'' then Inr Greaseweazle
         else if normalized = ''supercardpro'' \<or> normalized = ''scp'' then Inr SuperCardPro
         else Inl (InvalidConfig (''unknown driver kind '' @ debug_string value)))"

record driver_info =
  di_kind :: driver_kind
  di_name :: string
  di_manufacturer :: string
  di_url :: string
  di_capabilities :: capabilities

text \<open>
  The cargo features that select the compiled drivers and transports, and whether the target is
  macOS.
\<close>

record features =
  feat_greaseweazle :: bool
  feat_drawbridge :: bool
  feat_supercard_pro :: bool
  feat_direct_ftdi :: bool
  target_macos :: bool

definition DRIVERS :: "features \<Rightarrow> driver_info list" where
  "DRIVERS feats =
     (if feat_greaseweazle feats then
        [\<lparr>di_kind = Greaseweazle, di_name = ''Greaseweazle'', di_manufacturer = ''Keir Fraser'',
          di_url = ''https://github.com/keirf/greaseweazle'',
          di_capabilities =
            AUTO_DETECT_PORT OR PC_DRIVE_SELECT OR SHUGART_DRIVE_SELECT OR HIGH_DENSITY\<rparr>]
      else []) @
     (if feat_drawbridge feats then
        [\<lparr>di_kind = DrawBridge, di_name = ''DrawBridge'', di_manufacturer = ''RobSmithDev'',
          di_url = ''https://amiga.robsmithdev.co.uk/'',
          di_capabilities = AUTO_DETECT_PORT OR HIGH_DENSITY OR DIRECT_FTDI\<rparr>]
      else []) @
     (if feat_supercard_pro feats then
        [\<lparr>di_kind = SuperCardPro, di_name = ''SuperCard Pro'', di_manufacturer = ''CBMSTUFF.COM'',
          di_url = ''https://www.cbmstuff.com/'',
          di_capabilities = AUTO_DETECT_PORT OR PC_DRIVE_SELECT OR HIGH_DENSITY\<rparr>]
      else [])"

section \<open>Ports\<close>

datatype port_id = PortId (port_str: string)

instantiation port_id :: linorder
begin

definition less_eq_port_id :: "port_id \<Rightarrow> port_id \<Rightarrow> bool" where
  "less_eq_port_id p q \<longleftrightarrow> port_str p \<le> port_str q"

definition less_port_id :: "port_id \<Rightarrow> port_id \<Rightarrow> bool" where
  "less_port_id p q \<longleftrightarrow> port_str p < port_str q"

instance
  by standard (auto simp: less_eq_port_id_def less_port_id_def port_id.expand)

end

text \<open>\<^verbatim>\<open>str::trim\<close> removes white space; the test is that nothing is left.\<close>

definition is_whitespace :: "char \<Rightarrow> bool" where
  "is_whitespace c \<longleftrightarrow> c = CHR '' '' \<or> (9 \<le> (of_char c :: nat) \<and> (of_char c :: nat) \<le> 13)"

definition port_id_new :: "string \<Rightarrow> port_id result" where
  "port_id_new value =
     (if list_all is_whitespace value \<or> CHR 0x00 \<in> set value
      then Inl (InvalidConfig ''a port identifier must be non-empty and contain no NUL'')
      else Inr (PortId value))"

definition is_direct_ftdi :: "port_id \<Rightarrow> bool" where
  "is_direct_ftdi p \<longleftrightarrow> take 5 (port_str p) = ''ftdi:''"

record port_info =
  pi_id :: port_id
  pi_display_name :: string
  pi_vid :: "u16 option"
  pi_pid :: "u16 option"
  pi_serial_number :: "string option"
  pi_product :: "string option"

datatype port_selection = Auto | Exact port_id

section \<open>Configuration\<close>

datatype read_mode = Normal | Compatible | Stalling
datatype density_mode = DensityAuto | DensityDouble | DensityHigh
datatype drive_select = PcA | PcB | Shugart0 | Shugart1 | Shugart2 | Shugart3
datatype side = Lower | Upper
datatype drive_type = Dd35 | Hd35 | Sd525

fun drive_select_debug :: "drive_select \<Rightarrow> string" where
  "drive_select_debug PcA = ''PcA''"
| "drive_select_debug PcB = ''PcB''"
| "drive_select_debug Shugart0 = ''Shugart0''"
| "drive_select_debug Shugart1 = ''Shugart1''"
| "drive_select_debug Shugart2 = ''Shugart2''"
| "drive_select_debug Shugart3 = ''Shugart3''"

fun side_number :: "side \<Rightarrow> u8" where
  "side_number Lower = 0"
| "side_number Upper = 1"

definition side_of_bool :: "bool \<Rightarrow> side" where
  "side_of_bool value = (if value then Upper else Lower)"

definition bool_of_side :: "side \<Rightarrow> bool" where
  "bool_of_side value \<longleftrightarrow> value = Upper"

record track_address =
  ta_cylinder :: u8
  ta_side :: side

definition track_default :: track_address where
  "track_default = \<lparr>ta_cylinder = 0, ta_side = Lower\<rparr>"

text \<open>Durations are nanoseconds.\<close>

record bridge_config =
  cfg_driver :: driver_kind
  cfg_mode :: read_mode
  cfg_density :: density_mode
  cfg_drive :: drive_select
  cfg_port :: port_selection
  cfg_stall_timeout :: nat

definition config_default :: "features \<Rightarrow> bridge_config" where
  "config_default feats =
     \<lparr>cfg_driver = (case DRIVERS feats of [] \<Rightarrow> Greaseweazle | d # _ \<Rightarrow> di_kind d),
      cfg_mode = Compatible, cfg_density = DensityAuto, cfg_drive = PcA, cfg_port = Auto,
      cfg_stall_timeout = 450 * 10 ^ 6\<rparr>"

fun needed_capability :: "drive_select \<Rightarrow> capabilities option" where
  "needed_capability PcA = None"
| "needed_capability PcB = Some PC_DRIVE_SELECT"
| "needed_capability Shugart0 = Some SHUGART_DRIVE_SELECT"
| "needed_capability Shugart1 = Some SHUGART_DRIVE_SELECT"
| "needed_capability Shugart2 = Some SHUGART_DRIVE_SELECT"
| "needed_capability Shugart3 = Some SHUGART_DRIVE_SELECT"

definition validate_config :: "features \<Rightarrow> bridge_config \<Rightarrow> unit result" where
  "validate_config feats cfg =
     (case find (\<lambda>d. di_kind d = cfg_driver cfg) (DRIVERS feats) of
        None \<Rightarrow> Inl (InvalidConfig (driver_str (cfg_driver cfg) @ '' support is not compiled in''))
      | Some driver \<Rightarrow>
          if (case needed_capability (cfg_drive cfg) of
                None \<Rightarrow> False
              | Some needed \<Rightarrow> \<not> caps_contains (di_capabilities driver) needed)
          then Inl (InvalidConfig (driver_str (cfg_driver cfg) @ '' does not support '' @
                      drive_select_debug (cfg_drive cfg)))
          else if cfg_density cfg = DensityHigh \<and>
                  \<not> caps_contains (di_capabilities driver) HIGH_DENSITY
          then Inl (InvalidConfig (driver_str (cfg_driver cfg) @
                      '' does not support high-density media''))
          else if cfg_stall_timeout cfg = 0
          then Inl (InvalidConfig ''stall timeout must be greater than zero'')
          else Inr ())"

section \<open>Captures, status, writes and events\<close>

datatype capture_quality = IndexAligned | VerifiedAmigaDos u8 | Unverified

definition reusable :: "capture_quality \<Rightarrow> bool" where
  "reusable q \<longleftrightarrow> q \<noteq> Unverified"

record track_capture =
  tc_words :: "u16 list"
  tc_bit_len :: nat
  tc_quality :: capture_quality
  tc_generation :: u64

record drive_status =
  ds_working :: bool
  ds_ready :: bool
  ds_disk_present :: bool
  ds_write_protected :: bool
  ds_motor_running :: bool
  ds_cylinder :: u8
  ds_side :: side
  ds_drive_type :: drive_type
  ds_max_cylinders :: u8

definition drive_status_default :: drive_status where
  "drive_status_default =
     \<lparr>ds_working = True, ds_ready = False, ds_disk_present = False, ds_write_protected = True,
      ds_motor_running = False, ds_cylinder = 0, ds_side = Lower, ds_drive_type = Dd35,
      ds_max_cylinders = 84\<rparr>"

datatype write_id = WriteId (write_id_get: u64)

text \<open>
  \<open>wr_start_bit\<close> comes from the caller unchecked, so it keeps the width of a 64-bit
  \<^verbatim>\<open>usize\<close>; lengths the crate bounds itself are natural numbers.
\<close>

record write_request =
  wr_track :: track_address
  wr_words :: "u16 list"
  wr_bit_len :: nat
  wr_start_bit :: u64

datatype bridge_event =
    DiskChanged bool
  | WriteCompleted write_id track_address nat
  | WriteFailed write_id track_address error
  | BridgeDisconnected error

section \<open>Lemmas\<close>

lemma side_bool_roundtrip: "side_of_bool (bool_of_side s) = s" "bool_of_side (side_of_bool b) = b"
  by (cases s; simp add: side_of_bool_def bool_of_side_def)
     (simp add: side_of_bool_def bool_of_side_def)

lemma DRIVERS_kind_distinct: "distinct (map di_kind (DRIVERS feats))"
  by (simp add: DRIVERS_def)

lemma port_id_new_Inr: "port_id_new s = Inr p \<longleftrightarrow>
    p = PortId s \<and> \<not> list_all is_whitespace s \<and> CHR 0x00 \<notin> set s"
  by (auto simp: port_id_new_def)

section \<open>Properties\<close>

text \<open>
  C28: A configuration is accepted exactly when its driver is compiled in, the drive line it
  selects is one that driver has (only Greaseweazle has the Shugart lines, DrawBridge only the
  first PC drive), and the stall timeout is positive.
\<close>

theorem validate_config_characterised:
  "validate_config feats cfg = Inr () \<longleftrightarrow>
     0 < cfg_stall_timeout cfg \<and>
     (case cfg_driver cfg of
        Greaseweazle \<Rightarrow> feat_greaseweazle feats
      | DrawBridge \<Rightarrow> feat_drawbridge feats \<and> cfg_drive cfg = PcA
      | SuperCardPro \<Rightarrow> feat_supercard_pro feats \<and> cfg_drive cfg \<in> {PcA, PcB})"
proof -
  have gw: "AUTO_DETECT_PORT OR PC_DRIVE_SELECT OR SHUGART_DRIVE_SELECT OR HIGH_DENSITY = 0x1E"
    and db: "AUTO_DETECT_PORT OR HIGH_DENSITY OR DIRECT_FTDI = 0x32"
    and scp: "AUTO_DETECT_PORT OR PC_DRIVE_SELECT OR HIGH_DENSITY = 0x16"
    by code_simp+
  have caps: "caps_contains 0x1E PC_DRIVE_SELECT" "caps_contains 0x1E SHUGART_DRIVE_SELECT"
    "caps_contains 0x1E HIGH_DENSITY"
    "\<not> caps_contains 0x32 PC_DRIVE_SELECT" "\<not> caps_contains 0x32 SHUGART_DRIVE_SELECT"
    "caps_contains 0x32 HIGH_DENSITY"
    "caps_contains 0x16 PC_DRIVE_SELECT" "\<not> caps_contains 0x16 SHUGART_DRIVE_SELECT"
    "caps_contains 0x16 HIGH_DENSITY"
    by code_simp+
  show ?thesis
    unfolding validate_config_def DRIVERS_def gw db scp
    by (cases "cfg_driver cfg"; cases "cfg_drive cfg"; cases "feat_greaseweazle feats";
        cases "feat_drawbridge feats"; cases "feat_supercard_pro feats") (simp_all add: caps)
qed

text \<open>
  C29: The textual form of a driver kind parses back to it, however it is capitalised and
  wherever spaces, hyphens or underscores are inserted into it.
\<close>

theorem driver_str_roundtrip:
  assumes "map to_lower (filter (\<lambda>c. c \<notin> {CHR '' '', CHR ''-'', CHR ''_''}) value) = driver_str kind"
  shows "driver_from_str value = Inr kind"
  unfolding driver_from_str_def assms by (cases kind) simp_all

theorem driver_str_roundtrip_witness:
  "driver_from_str ''SuperCard_Pro'' = Inr SuperCardPro \<and> driver_from_str ''Draw-Bridge'' = Inr DrawBridge"
proof
  show "driver_from_str ''SuperCard_Pro'' = Inr SuperCardPro"
    by (rule driver_str_roundtrip) code_simp
  show "driver_from_str ''Draw-Bridge'' = Inr DrawBridge"
    by (rule driver_str_roundtrip) code_simp
qed

end
