(* ===== verification/Flux_Pll.thy ===== *)
theory Flux_Pll
  imports Types
begin

text \<open>
  The dynamic software PLL (\<^verbatim>\<open>src/flux/pll.rs\<close>). The decoder's two
  \<^verbatim>\<open>i64\<close> fields are integers; division truncates (\<open>sdiv\<close>), as Rust's does, and the
  one saturating addition is written out. The lemmas show the clock and phase window the decoder
  never leaves, which is also why no operation on them can overflow, that a delay yields either
  nothing or a run of zeros closed by one transition, and that ideal intervals decode exactly.
\<close>

definition CLOCK_CENTRE_NS :: int where "CLOCK_CENTRE_NS = 2000"
definition CLOCK_MIN_NS :: int where "CLOCK_MIN_NS = 1800"
definition CLOCK_MAX_NS :: int where "CLOCK_MAX_NS = 2200"

lemmas clock_defs = CLOCK_CENTRE_NS_def CLOCK_MIN_NS_def CLOCK_MAX_NS_def

record flux_event =
  fe_nanoseconds :: u32
  fe_index :: bool

record pll_decoder =
  clock_ns :: int
  pending_ns :: int

definition pll_new :: pll_decoder where
  "pll_new = \<lparr>clock_ns = CLOCK_CENTRE_NS, pending_ns = 0\<rparr>"

definition pll_reset :: "pll_decoder \<Rightarrow> pll_decoder" where
  "pll_reset p = pll_new"

definition pll_submit :: "u32 \<Rightarrow> pll_decoder \<times> bool list \<Rightarrow> pll_decoder \<times> bool list" where
  "pll_submit nanoseconds = (\<lambda>(p, output).
     let pending = sat_i64 (pending_ns p + uint nanoseconds);
         clock = clock_ns p
     in if pending < clock sdiv 2 then (p\<lparr>pending_ns := pending\<rparr>, output)
        else
          let zeros = max 0 ((pending - clock sdiv 2) sdiv clock);
              rest = pending - (zeros + 1) * clock;
              adjusted = (if 1 \<le> zeros \<and> zeros \<le> 3
                          then clock + (rest sdiv (zeros + 1)) sdiv 10
                          else clock + (CLOCK_CENTRE_NS - clock) sdiv 10);
              clock' = max CLOCK_MIN_NS (min CLOCK_MAX_NS adjusted)
          in (p\<lparr>clock_ns := clock', pending_ns := rest sdiv 2\<rparr>,
              output @ replicate (nat zeros) False @ [True]))"

definition clock_nanoseconds :: "pll_decoder \<Rightarrow> int" where
  "clock_nanoseconds p = clock_ns p"

text \<open>The loop every backend runs: one \<^verbatim>\<open>submit\<close> per event.\<close>

fun pll_events :: "flux_event list \<Rightarrow> pll_decoder \<times> bool list \<Rightarrow> pll_decoder \<times> bool list" where
  "pll_events [] s = s"
| "pll_events (e # es) s = pll_events es (pll_submit (fe_nanoseconds e) s)"

section \<open>Truncating division\<close>

lemma sdiv_nonneg: "0 \<le> a \<Longrightarrow> 0 < b \<Longrightarrow> (a :: int) sdiv b = a div b"
  by (cases "a = 0") (auto simp: signed_divide_int_def sgn_if)

lemma div_lower_bound:
  assumes "0 < b" and "b * m \<le> a"
  shows "m \<le> (a :: int) div b"
proof -
  have "b * m div b \<le> a div b" using assms by (intro zdiv_mono1) simp_all
  moreover have "b * m div b = m" using assms(1) by (simp only: nonzero_mult_div_cancel_left)
  ultimately show ?thesis by simp
qed

lemma div_upper_bound:
  assumes "0 < b" and "a \<le> b * m"
  shows "(a :: int) div b \<le> m"
proof -
  have "a div b \<le> b * m div b" using assms by (intro zdiv_mono1) simp_all
  moreover have "b * m div b = m" using assms(1) by (simp only: nonzero_mult_div_cancel_left)
  ultimately show ?thesis by simp
qed

lemma sdiv_bounds:
  fixes a b :: int
  assumes "0 < b" and "- (b * n) \<le> a" and "a \<le> b * m" and "0 \<le> n" and "0 \<le> m"
  shows "- n \<le> a sdiv b \<and> a sdiv b \<le> m"
proof (cases "0 \<le> a")
  case True
  then have "a sdiv b = a div b" "0 \<le> a div b"
    using assms(1) by (simp_all add: sdiv_nonneg pos_imp_zdiv_nonneg_iff)
  then show ?thesis using div_upper_bound [OF assms(1,3)] assms(4) by simp
next
  case False
  then have "a sdiv b = - ((- a) div b)" "0 \<le> (- a) div b"
    using assms(1) by (simp_all add: signed_divide_int_def sgn_if pos_imp_zdiv_nonneg_iff)
  moreover have "(- a) div b \<le> n"
    using assms(1,2) by (intro div_upper_bound) simp_all
  ultimately show ?thesis using assms(5) by simp
qed

section \<open>The window the decoder stays in\<close>

definition pll_inv :: "pll_decoder \<Rightarrow> bool" where
  "pll_inv p \<longleftrightarrow> CLOCK_MIN_NS \<le> clock_ns p \<and> clock_ns p \<le> CLOCK_MAX_NS \<and>
                 - 550 \<le> pending_ns p \<and> pending_ns p < 1100"

lemma pll_inv_new [simp]: "pll_inv pll_new"
  by (simp add: pll_inv_def pll_new_def clock_defs)

lemma uint32_range: "0 \<le> uint (w :: u32)" "uint (w :: u32) < 2 ^ 32"
  by (simp_all add: unsigned_less [of w, simplified] uint_bounded)

lemma sat_i64_id: "- (2 ^ 63) \<le> x \<Longrightarrow> x < 2 ^ 63 \<Longrightarrow> sat_i64 x = x"
  by (simp add: sat_i64_def)

text \<open>The saturating addition never saturates.\<close>

lemma pll_pending_exact:
  assumes "pll_inv p"
  shows "sat_i64 (pending_ns p + uint (n :: u32)) = pending_ns p + uint n"
proof (rule sat_i64_id)
  have "- (2 ^ 63) \<le> (- 550 :: int)" by simp
  then show "- (2 ^ 63) \<le> pending_ns p + uint n"
    using assms uint32_range(1) [of n] unfolding pll_inv_def by linarith
  show "pending_ns p + uint n < 2 ^ 63"
    using assms uint32_range(2) [of n] unfolding pll_inv_def by simp
qed

text \<open>
  One step without the machinery: the number of zeros is fixed by where the accumulated delay
  falls relative to the half-cell points, and the remainder lies within half a cell.
\<close>

lemma pll_submit_short:
  assumes inv: "pll_inv p" and short: "pending_ns p + uint n < clock_ns p div 2"
  shows "pll_submit n (p, out) = (p\<lparr>pending_ns := pending_ns p + uint n\<rparr>, out)"
proof -
  have "clock_ns p sdiv 2 = clock_ns p div 2"
    using inv by (simp add: pll_inv_def clock_defs sdiv_nonneg)
  with short show ?thesis by (simp add: pll_submit_def Let_def pll_pending_exact [OF inv])
qed

definition next_clock :: "int \<Rightarrow> int \<Rightarrow> int \<Rightarrow> int" where
  "next_clock c z r = max CLOCK_MIN_NS (min CLOCK_MAX_NS
     (if 1 \<le> z \<and> z \<le> 3 then c + (r sdiv (z + 1)) sdiv 10
      else c + (CLOCK_CENTRE_NS - c) sdiv 10))"

lemma pll_submit_cell:
  fixes n :: u32
  assumes inv: "pll_inv p" and long: "\<not> pending_ns p + uint n < clock_ns p div 2"
  obtains z where "0 \<le> z"
    and "z * clock_ns p \<le> pending_ns p + uint n - clock_ns p div 2"
    and "pending_ns p + uint n - clock_ns p div 2 < (z + 1) * clock_ns p"
    and "pll_submit n (p, out) =
      (p\<lparr>clock_ns := next_clock (clock_ns p) z (pending_ns p + uint n - (z + 1) * clock_ns p),
         pending_ns := (pending_ns p + uint n - (z + 1) * clock_ns p) sdiv 2\<rparr>,
       out @ replicate (nat z) False @ [True])"
proof -
  define t c where "t = pending_ns p + uint n" and "c = clock_ns p"
  have c: "0 < c" "c sdiv 2 = c div 2"
    using inv by (simp_all add: c_def pll_inv_def clock_defs sdiv_nonneg)
  define z where "z = (t - c div 2) div c"
  have z0: "0 \<le> z"
    using long c(1) by (simp add: z_def pos_imp_zdiv_nonneg_iff t_def c_def)
  have zs: "max 0 ((t - c sdiv 2) sdiv c) = z"
    using long c z0 by (simp add: z_def sdiv_nonneg t_def c_def)
  have dm: "z * c + (t - c div 2) mod c = t - c div 2"
    by (simp add: z_def)
  have m: "0 \<le> (t - c div 2) mod c" "(t - c div 2) mod c < c"
    using c(1) by simp_all
  have "z * c \<le> t - c div 2" "t - c div 2 < (z + 1) * c"
    using dm m by (simp_all add: distrib_right)
  moreover have "pll_submit n (p, out) =
      (p\<lparr>clock_ns := next_clock c z (t - (z + 1) * c), pending_ns := (t - (z + 1) * c) sdiv 2\<rparr>,
       out @ replicate (nat z) False @ [True])"
  proof -
    have "\<not> t < c sdiv 2" using long c(2) by (simp only: t_def c_def not_False_eq_True)
    moreover have "sat_i64 t = t" using pll_pending_exact [OF inv, of n] by (simp only: t_def)
    ultimately
    show ?thesis
      unfolding pll_submit_def split Let_def t_def [symmetric] c_def [symmetric] next_clock_def
      by (simp only: zs if_False)
  qed
  ultimately show ?thesis
    using z0 that [of z] by (simp add: t_def c_def)
qed

lemma pll_submit_inv:
  assumes "pll_inv p" and "pll_submit n (p, out) = (p', out')"
  shows "pll_inv p'"
proof -
  have b: "1800 \<le> clock_ns p" "clock_ns p \<le> 2200" "- 550 \<le> pending_ns p" "pending_ns p < 1100"
    using assms(1) by (auto simp: pll_inv_def clock_defs)
  show ?thesis
  proof (cases "pending_ns p + uint n < clock_ns p div 2")
    case True
    moreover have "- 550 \<le> pending_ns p + uint n"
      using b(3) uint32_range(1) [of n] by linarith
    ultimately show ?thesis
      using assms(2) b by (auto simp: pll_submit_short assms(1) pll_inv_def clock_defs)
  next
    case False
    obtain z where z: "z * clock_ns p \<le> pending_ns p + uint n - clock_ns p div 2"
      "pending_ns p + uint n - clock_ns p div 2 < (z + 1) * clock_ns p"
      "p' = p\<lparr>clock_ns := next_clock (clock_ns p) z (pending_ns p + uint n - (z + 1) * clock_ns p),
         pending_ns := (pending_ns p + uint n - (z + 1) * clock_ns p) sdiv 2\<rparr>"
      using pll_submit_cell [OF assms(1) False, of out] assms(2) by (metis Pair_inject)
    let ?r = "pending_ns p + uint n - (z + 1) * clock_ns p"
    have "- 1100 \<le> ?r" "?r < 1100"
      using z(1,2) b unfolding distrib_right by linarith+
    then have "- 550 \<le> ?r sdiv 2 \<and> ?r sdiv 2 \<le> 550"
      by (intro sdiv_bounds) simp_all
    then show ?thesis
      using z(3) by (auto simp: pll_inv_def clock_defs next_clock_def)
  qed
qed

lemma pll_events_inv: "pll_inv (fst s) \<Longrightarrow> pll_inv (fst (pll_events es s))"
proof (induction es arbitrary: s)
  case (Cons e es)
  have "pll_inv (fst (pll_submit (fe_nanoseconds e) s))"
    using Cons.prems by (cases s; cases "pll_submit (fe_nanoseconds e) s")
      (auto dest: pll_submit_inv)
  then show ?case by (simp add: Cons.IH)
qed simp

section \<open>Output is only appended\<close>

lemma pll_submit_append:
  "pll_submit n (p, out @ out') = (let (q, o') = pll_submit n (p, out') in (q, out @ o'))"
  by (simp add: pll_submit_def Let_def)

lemma pll_events_append:
  "pll_events es (p, out) = (let (q, o') = pll_events es (p, []) in (q, out @ o'))"
proof (induction es arbitrary: p out)
  case (Cons e es)
  obtain q o1 where q: "pll_submit (fe_nanoseconds e) (p, []) = (q, o1)" by fastforce
  have "pll_submit (fe_nanoseconds e) (p, out) = (q, out @ o1)"
    using pll_submit_append [of "fe_nanoseconds e" p out "[]"] q by simp
  then show ?case
    using Cons.IH [of q "out @ o1"] Cons.IH [of q o1] q
    by (simp add: Let_def split: prod.splits)
qed simp

lemma pll_events_Cons:
  assumes "pll_submit (fe_nanoseconds e) (p, []) = (q, o1)"
  shows "snd (pll_events (e # es) (p, out)) = out @ o1 @ snd (pll_events es (q, []))"
  using assms pll_events_append [of es q "out @ o1"]
    pll_submit_append [of "fe_nanoseconds e" p out "[]"]
  by (simp add: Let_def split: prod.splits)

lemma pll_events_concat: "pll_events (es @ fs) s = pll_events fs (pll_events es s)"
  by (induction es arbitrary: s) auto

section \<open>Ideal intervals\<close>

text \<open>The cells of a transition \<open>k\<close> cells after the last one.\<close>

definition cells_of :: "nat \<Rightarrow> bool list" where
  "cells_of k = replicate (k - 1) False @ [True]"

lemma length_cells_of [simp]: "0 < k \<Longrightarrow> length (cells_of k) = k"
  by (simp add: cells_of_def)

lemma pll_ideal_submit:
  assumes "0 < k" and "unat n = 2000 * k"
  shows "pll_submit n (pll_new, out) = (pll_new, out @ cells_of k)"
proof -
  have u: "uint n = 2000 * int k" using assms(2) by (simp flip: uint_nat add: uint_nat)
  have long: "\<not> pending_ns pll_new + uint n < clock_ns pll_new div 2"
    using assms(1) u by (simp add: pll_new_def clock_defs)
  obtain z where z: "z * clock_ns pll_new \<le> pending_ns pll_new + uint n - clock_ns pll_new div 2"
    "pending_ns pll_new + uint n - clock_ns pll_new div 2 < (z + 1) * clock_ns pll_new"
    "pll_submit n (pll_new, out) =
      (pll_new\<lparr>clock_ns := next_clock (clock_ns pll_new) z
           (pending_ns pll_new + uint n - (z + 1) * clock_ns pll_new),
         pending_ns := (pending_ns pll_new + uint n - (z + 1) * clock_ns pll_new) sdiv 2\<rparr>,
       out @ replicate (nat z) False @ [True])"
    using pll_submit_cell [OF pll_inv_new long, of out] by metis
  have k: "z = int k - 1"
    using z(1,2) u by (simp add: pll_new_def clock_defs)
  then show ?thesis
    using z(3) u assms(1)
    by (simp add: pll_new_def clock_defs next_clock_def cells_of_def nat_diff_distrib)
qed

lemma pll_ideal_events:
  assumes "\<And>e. e \<in> set es \<Longrightarrow> \<exists>k > 0. unat (fe_nanoseconds e) = 2000 * k"
  shows "pll_events es (pll_new, out) =
    (pll_new, out @ concat (map (\<lambda>e. cells_of (unat (fe_nanoseconds e) div 2000)) es))"
  using assms
proof (induction es arbitrary: out)
  case (Cons e es)
  obtain k where "0 < k" "unat (fe_nanoseconds e) = 2000 * k" using Cons.prems by force
  then show ?case using Cons by (simp add: pll_ideal_submit)
qed simp

section \<open>Every output is a sequence of runs\<close>

lemma pll_submit_shape:
  assumes "pll_inv p"
  obtains "snd (pll_submit n (p, out)) = out"
  | k where "0 < k" and "snd (pll_submit n (p, out)) = out @ cells_of k"
proof (cases "pending_ns p + uint n < clock_ns p div 2")
  case True
  then show ?thesis using that(1) by (simp add: pll_submit_short [OF assms])
next
  case False
  obtain z where "0 \<le> z"
    and "pll_submit n (p, out) =
      (p\<lparr>clock_ns := next_clock (clock_ns p) z (pending_ns p + uint n - (z + 1) * clock_ns p),
         pending_ns := (pending_ns p + uint n - (z + 1) * clock_ns p) sdiv 2\<rparr>,
       out @ replicate (nat z) False @ [True])"
    using pll_submit_cell [OF assms False, of out] by metis
  then have "snd (pll_submit n (p, out)) = out @ cells_of (Suc (nat z))"
    by (simp add: cells_of_def)
  then show ?thesis by (intro that(2)) simp_all
qed

lemma pll_events_shape:
  assumes "pll_inv p"
  shows "\<exists>ks. snd (pll_events es (p, out)) = out @ concat (map cells_of ks) \<and>
    (\<forall>k \<in> set ks. 0 < k) \<and> length ks \<le> length es"
  using assms
proof (induction es arbitrary: p out)
  case Nil
  show ?case by (intro exI [of _ "[]"]) simp
next
  case (Cons e es)
  obtain q o1 where q: "pll_submit (fe_nanoseconds e) (p, out) = (q, o1)" by fastforce
  obtain ks where ks: "snd (pll_events es (q, o1)) = o1 @ concat (map cells_of ks)"
    "\<forall>k \<in> set ks. 0 < k" "length ks \<le> length es"
    using Cons.IH [OF pll_submit_inv [OF Cons.prems q], of o1] by auto
  show ?case
  proof (rule pll_submit_shape [OF Cons.prems, of "fe_nanoseconds e" out])
    assume "snd (pll_submit (fe_nanoseconds e) (p, out)) = out"
    then show ?case using q ks by (intro exI [of _ ks]) simp
  next
    fix k assume "0 < k" "snd (pll_submit (fe_nanoseconds e) (p, out)) = out @ cells_of k"
    then show ?case using q ks by (intro exI [of _ "k # ks"]) simp
  qed
qed

section \<open>Properties\<close>

text \<open>
  C24: Whatever delays it is fed after a reset, the PLL's clock stays within ten percent of the
  2000 ns cell and its phase within 1100 ns, so its 64-bit arithmetic never saturates on the next
  delay.
\<close>

theorem pll_clock_window:
  fixes n :: u32 and es :: "flux_event list" and p0 :: pll_decoder
  defines "p \<equiv> fst (pll_events es (pll_reset p0, []))"
  shows "1800 \<le> clock_nanoseconds p \<and> clock_nanoseconds p \<le> 2200 \<and>
    - 550 \<le> pending_ns p \<and> pending_ns p < 1100 \<and>
    sat_i64 (pending_ns p + uint n) = pending_ns p + uint n"
proof -
  have "pll_inv p"
    unfolding p_def by (rule pll_events_inv) (simp add: pll_reset_def)
  then show ?thesis
    using pll_pending_exact [of p n] by (simp add: pll_inv_def clock_defs clock_nanoseconds_def)
qed

text \<open>
  C23: What the PLL decodes from a stream of transitions is a sequence of non-empty runs of zero
  cells, each closed by a transition, with at most one transition for every transition received;
  an interval of an exact number of cells becomes a run of exactly that length.
\<close>

theorem pll_decodes_runs:
  "\<exists>ks. snd (pll_events es (pll_new, [])) = concat (map cells_of ks) \<and>
     (\<forall>k \<in> set ks. 0 < k) \<and> length ks \<le> length es \<and>
     ((\<forall>e \<in> set es. \<exists>k > 0. unat (fe_nanoseconds e) = 2000 * k) \<longrightarrow>
        ks = map (\<lambda>e. unat (fe_nanoseconds e) div 2000) es)"
proof (cases "\<forall>e \<in> set es. \<exists>k > 0. unat (fe_nanoseconds e) = 2000 * k")
  case True
  then have "0 < unat (fe_nanoseconds e) div 2000" if "e \<in> set es" for e
    using that by fastforce
  moreover have "pll_events es (pll_new, []) =
      (pll_new, concat (map cells_of (map (\<lambda>e. unat (fe_nanoseconds e) div 2000) es)))"
    using pll_ideal_events [of es "[]"] True by (simp add: comp_def)
  ultimately show ?thesis
    by (intro exI [of _ "map (\<lambda>e. unat (fe_nanoseconds e) div 2000) es"]) auto
next
  case False
  moreover obtain ks where "snd (pll_events es (pll_new, [])) = concat (map cells_of ks)"
    "\<forall>k \<in> set ks. 0 < k" "length ks \<le> length es"
    using pll_events_shape [OF pll_inv_new, of es "[]"] by auto
  ultimately show ?thesis by blast
qed

theorem pll_decodes_runs_witness:
  "snd (pll_events [\<lparr>fe_nanoseconds = 4000, fe_index = False\<rparr>,
                    \<lparr>fe_nanoseconds = 6000, fe_index = False\<rparr>] (pll_new, [])) =
     [False, True, False, False, True]"
proof -
  define es where "es = [\<lparr>fe_nanoseconds = 4000, fe_index = False\<rparr>,
                    \<lparr>fe_nanoseconds = 6000, fe_index = False\<rparr>]"
  have "\<exists>k > 0. unat (4000 :: u32) = 2000 * k" by (intro exI [of _ 2]) simp
  moreover have "\<exists>k > 0. unat (6000 :: u32) = 2000 * k" by (intro exI [of _ 3]) simp
  ultimately have "\<forall>e \<in> set es. \<exists>k > 0. unat (fe_nanoseconds e) = 2000 * k"
    by (simp only: es_def list.set ball_simps flux_event.simps)
  then have "snd (pll_events es (pll_new, [])) = concat (map cells_of [2, 3])"
    using pll_decodes_runs [of es] by (auto simp: es_def)
  then show ?thesis by (simp only: es_def) (simp add: cells_of_def numeral_eq_Suc)
qed

end
