(* ===== verification/Flux_Rotation.thy ===== *)
theory Flux_Rotation
  imports Flux_Pll
begin

text \<open>
  Revolution extraction and MFM/flux conversion (\<^verbatim>\<open>src/flux/rotation.rs\<close>): packing,
  rotation, the index-to-index cut, and the conversion of packed cells to transition delays. The
  search for the join of an index-less capture is in \<open>Flux_Join\<close>. \<open>packed_bit\<close> is the expression
  \<^verbatim>\<open>words[p / 16] & (1 << (15 - p % 16)) != 0\<close>, which the source repeats wherever it
  reads a cell; each use below carries the bound that keeps the index in range.
\<close>

definition MAX_TRACK_BITS :: nat where "MAX_TRACK_BITS = 0x3a00 * 2 * 8"

definition packed_bit :: "u16 list \<Rightarrow> nat \<Rightarrow> bool" where
  "packed_bit words position \<longleftrightarrow>
     (words ! (position div 16)) AND push_bit (15 - position mod 16) 1 \<noteq> 0"

section \<open>Operations\<close>

fun pack_loop :: "nat \<Rightarrow> bool list \<Rightarrow> u16 list \<Rightarrow> u16 list" where
  "pack_loop position [] words = words"
| "pack_loop position (b # bs) words =
     pack_loop (Suc position) bs
       (if b then words[position div 16 :=
                    words ! (position div 16) OR push_bit (15 - position mod 16) 1]
        else words)"

definition pack_bits :: "bool list \<Rightarrow> u16 list" where
  "pack_bits bits = pack_loop 0 bits (replicate ((length bits + 15) div 16) 0)"

definition rotate_revolution :: "u16 list \<Rightarrow> nat \<Rightarrow> nat \<Rightarrow> u16 list result" where
  "rotate_revolution words bit_len start_bit =
     (if bit_len = 0 \<or> bit_len > length words * 16
      then Inl (Protocol ''invalid packed revolution length'')
      else
        let start_bit = start_bit mod bit_len;
            bits = map (\<lambda>offset. packed_bit words ((start_bit + offset) mod bit_len)) [0..<bit_len]
        in Inr (pack_bits bits))"

text \<open>
  The loop of \<^verbatim>\<open>flux_to_revolution\<close>; its state is the PLL, the warm-up cells, the
  captured cells and the two flags.
\<close>

fun revolution_loop ::
  "flux_event list \<Rightarrow> pll_decoder \<Rightarrow> bool list \<Rightarrow> bool list \<Rightarrow> bool \<Rightarrow> bool \<Rightarrow> (bool list \<times> bool) result"
where
  "revolution_loop [] pll warmup bits capturing saw_start = Inr (bits, saw_start)"
| "revolution_loop (event # events) pll warmup bits capturing saw_start =
     (if fe_index event \<and> saw_start then Inr (bits, saw_start)
      else
        let saw_start = (saw_start \<or> fe_index event);
            capturing = (capturing \<or> fe_index event);
            bits = (if fe_index event then [] else bits);
            (pll, warmup, bits) =
              (if capturing
               then let (q, out) = pll_submit (fe_nanoseconds event) (pll, bits) in (q, warmup, out)
               else let (q, out) = pll_submit (fe_nanoseconds event) (pll, warmup) in (q, out, bits))
        in if length bits > MAX_TRACK_BITS
           then Inl (TrackTooLarge (length bits) MAX_TRACK_BITS)
           else revolution_loop events pll warmup bits capturing saw_start)"

definition flux_to_revolution :: "flux_event list \<Rightarrow> (u16 list \<times> nat \<times> bool) result" where
  "flux_to_revolution events =
     (let has_index = list_ex fe_index events in
      case revolution_loop events pll_new [] [] (\<not> has_index) False of
        Inl e \<Rightarrow> Inl e
      | Inr (bits, saw_start) \<Rightarrow>
          if length bits < 64
          then Inl (Protocol ''flux stream did not contain a complete revolution'')
          else Inr (pack_bits bits, length bits, saw_start))"

fun mfm_flux_loop :: "u16 list \<Rightarrow> u32 \<Rightarrow> nat list \<Rightarrow> u32 \<Rightarrow> u32 list \<Rightarrow> (u32 \<times> u32 list) result" where
  "mfm_flux_loop words cell_nanoseconds [] cells flux = Inr (cells, flux)"
| "mfm_flux_loop words cell_nanoseconds (position # ps) cells flux =
     (case checked_add32 cells 1 of
        None \<Rightarrow> Inl (InvalidConfig ''flux interval overflow'')
      | Some cells \<Rightarrow>
          if packed_bit words position
          then (case checked_mul32 cells cell_nanoseconds of
                  None \<Rightarrow> Inl (InvalidConfig ''flux interval nanoseconds overflow'')
                | Some delay \<Rightarrow>
                    mfm_flux_loop words cell_nanoseconds ps 0 (flux @ [delay]))
          else mfm_flux_loop words cell_nanoseconds ps cells flux)"

definition mfm_to_flux :: "u16 list \<Rightarrow> nat \<Rightarrow> u32 \<Rightarrow> u32 list result" where
  "mfm_to_flux words bit_len cell_nanoseconds =
     (if bit_len = 0 \<or> bit_len > length words * 16
      then Inl (InvalidConfig (''bit length '' @ dec_string bit_len @ '' does not fit '' @
                  dec_string (length words) @ '' MFM words''))
      else if bit_len > MAX_TRACK_BITS then Inl (TrackTooLarge bit_len MAX_TRACK_BITS)
      else
        (case mfm_flux_loop words cell_nanoseconds [0..<bit_len] 0 [] of
           Inl e \<Rightarrow> Inl e
         | Inr (cells, flux) \<Rightarrow>
             if cells \<noteq> 0
             then (case checked_mul32 cells cell_nanoseconds of
                     None \<Rightarrow> Inl (InvalidConfig ''trailing flux interval overflow'')
                   | Some delay \<Rightarrow> Inr (flux @ [delay]))
             else Inr flux))"

section \<open>Packing\<close>

text \<open>The cells a packed revolution of \<open>n\<close> bits stands for.\<close>

definition unpack :: "u16 list \<Rightarrow> nat \<Rightarrow> bool list" where
  "unpack words n = map (packed_bit words) [0..<n]"

lemma length_unpack [simp]: "length (unpack words n) = n"
  by (simp add: unpack_def)

lemma nth_unpack [simp]: "i < n \<Longrightarrow> unpack words n ! i = packed_bit words i"
  by (simp add: unpack_def)

lemma packed_bit_iff: "packed_bit words p \<longleftrightarrow> bit (words ! (p div 16)) (15 - p mod 16)"
  unfolding packed_bit_def by (rule mask_test_bit) simp

lemma same_word_bit: "p div 16 = i div 16 \<Longrightarrow> 15 - p mod 16 = 15 - i mod 16 \<Longrightarrow> p = (i :: nat)"
proof -
  assume "p div 16 = i div 16" "15 - p mod 16 = 15 - i mod 16"
  moreover have "p mod 16 < 16" "i mod 16 < 16" by simp_all
  ultimately have "p div 16 = i div 16" "p mod 16 = i mod 16" by linarith+
  then show "p = i" by (metis div_mult_mod_eq)
qed

lemma packed_bit_set:
  assumes "p div 16 < length words"
  shows "packed_bit (words[p div 16 := words ! (p div 16) OR 2 ^ (15 - p mod 16)]) i \<longleftrightarrow>
         packed_bit words i \<or> i = p"
  using assms same_word_bit [of p i]
  by (cases "i div 16 = p div 16") (auto simp: packed_bit_iff bit_or_single)

lemma length_pack_loop [simp]: "length (pack_loop p bs words) = length words"
  by (induction p bs words rule: pack_loop.induct) simp_all

lemma packed_bit_pack_loop:
  assumes "p + length bs \<le> 16 * length words"
  shows "packed_bit (pack_loop p bs words) i \<longleftrightarrow>
         packed_bit words i \<or> p \<le> i \<and> i < p + length bs \<and> bs ! (i - p)"
  using assms
proof (induction p bs words rule: pack_loop.induct)
  case (2 p b bs words)
  have "p div 16 < length words" using "2.prems" by (simp add: div_less_iff_less_mult)
  moreover have "\<And>i. Suc p \<le> i \<Longrightarrow> i - p = Suc (i - Suc p)" by simp
  ultimately show ?case
    using 2 by (cases "i = p") (auto simp: packed_bit_set not_less_eq_eq le_eq_less_or_eq)
qed auto

lemma length_pack_bits [simp]: "length (pack_bits bits) = (length bits + 15) div 16"
  by (simp add: pack_bits_def)

lemma pack_bits_fits: "length bits \<le> 16 * length (pack_bits bits)"
  by simp

lemma packed_bit_pack_bits:
  assumes "i < 16 * length (pack_bits bits)"
  shows "packed_bit (pack_bits bits) i \<longleftrightarrow> i < length bits \<and> bits ! i"
proof -
  have "i div 16 < (length bits + 15) div 16" using assms by simp
  then have "\<not> packed_bit (replicate ((length bits + 15) div 16) 0) i"
    by (simp add: packed_bit_iff)
  then show ?thesis
    using pack_bits_fits [of bits] by (simp add: pack_bits_def packed_bit_pack_loop)
qed

lemma unpack_pack_bits [simp]: "unpack (pack_bits bits) (length bits) = bits"
  using pack_bits_fits [of bits]
  by (intro nth_equalityI) (auto simp: packed_bit_pack_bits less_le_trans)

text \<open>Words with the same cells are the same words, so packing is also onto.\<close>

lemma packed_words_eqI:
  assumes "length ws = length vs" and "\<And>i. i < 16 * length ws \<Longrightarrow> packed_bit ws i = packed_bit vs i"
  shows "ws = vs"
proof (rule nth_equalityI [OF assms(1)], rule bit_word_eqI)
  fix k n assume k: "k < length ws" and n: "n < LENGTH(16)"
  have "16 * k + (15 - n) < 16 * length ws" using k n by simp
  then show "bit (ws ! k) n = bit (vs ! k) n"
    using assms(2) [of "16 * k + (15 - n)"] n by (simp add: packed_bit_iff)
qed

lemma pack_bits_unpack: "pack_bits (unpack ws (16 * length ws)) = ws"
proof (rule packed_words_eqI)
  fix i assume "i < 16 * length (pack_bits (unpack ws (16 * length ws)))"
  then show "packed_bit (pack_bits (unpack ws (16 * length ws))) i = packed_bit ws i"
    by (subst packed_bit_pack_bits) auto
qed simp

section \<open>Rotation\<close>

lemma rotate_revolution_bits:
  assumes "0 < n"
  shows "map (\<lambda>offset. packed_bit words ((s mod n + offset) mod n)) [0..<n] =
         rotate s (unpack words n)"
proof (rule nth_equalityI)
  fix i assume "i < length (map (\<lambda>offset. packed_bit words ((s mod n + offset) mod n)) [0..<n])"
  then have i: "i < n" by simp
  have "(s mod n + i) mod n = (s + i) mod n" by (simp add: mod_add_left_eq)
  then show "map (\<lambda>offset. packed_bit words ((s mod n + offset) mod n)) [0..<n] ! i =
      rotate s (unpack words n) ! i"
    using i assms by (simp add: nth_rotate)
qed simp

lemma rotate_revolution_Inr:
  "rotate_revolution words n s = Inr r \<longleftrightarrow>
     0 < n \<and> n \<le> length words * 16 \<and> r = pack_bits (rotate s (unpack words n))"
  by (auto simp: rotate_revolution_def Let_def rotate_revolution_bits)

lemma unpack_rotate: "unpack (pack_bits (rotate s (unpack words n))) n = rotate s (unpack words n)"
  using unpack_pack_bits [of "rotate s (unpack words n)"] by simp

section \<open>Conversion to transition delays\<close>

text \<open>The distances, in cells, between transitions; a run without one closes the list.\<close>

fun cell_runs :: "nat \<Rightarrow> bool list \<Rightarrow> nat list" where
  "cell_runs c [] = (if c \<noteq> 0 then [c] else [])"
| "cell_runs c (b # bs) = (if b then Suc c # cell_runs 0 bs else cell_runs (Suc c) bs)"

lemma cell_runs_pos: "k \<in> set (cell_runs c bs) \<Longrightarrow> 0 < k"
  by (induction c bs rule: cell_runs.induct) (auto split: if_splits)

lemma cell_runs_bound: "k \<in> set (cell_runs c bs) \<Longrightarrow> k \<le> c + length bs"
  by (induction c bs rule: cell_runs.induct) (fastforce split: if_splits)+

lemma sum_cell_runs: "sum_list (cell_runs c bs) = c + length bs"
  by (induction c bs rule: cell_runs.induct) auto

lemma mfm_flux_loop_runs:
  assumes "unat cells + length ps < 2 ^ 32"
    and "(unat cells + length ps) * unat cell < 2 ^ 32"
  shows "\<exists>flux' cells'.
    mfm_flux_loop words cell ps cells flux = Inr (cells', flux @ flux') \<and>
    map unat (flux' @ (if cells' = 0 then [] else [cells' * cell])) =
      map (\<lambda>k. k * unat cell) (cell_runs (unat cells) (map (packed_bit words) ps)) \<and>
    (cells' \<noteq> 0 \<longrightarrow> unat cells' * unat cell < 2 ^ 32)"
  using assms
proof (induction ps arbitrary: cells flux)
  case Nil
  have "unat (cells * cell) = unat cells * unat cell"
    using Nil.prems by (simp add: unat_word_ariths)
  then show ?case using Nil.prems by (auto simp: unat_eq_zero)
next
  case (Cons p ps)
  obtain c1 where c1: "checked_add32 cells 1 = Some c1" "unat c1 = Suc (unat cells)"
    using Cons.prems(1) by (simp add: checked_add32_def unat_word_ariths)
  show ?case
  proof (cases "packed_bit words p")
    case True
    have "unat c1 * unat cell < 2 ^ 32"
    proof (rule le_less_trans [OF _ Cons.prems(2)])
      show "unat c1 * unat cell \<le> (unat cells + length (p # ps)) * unat cell"
        by (rule mult_le_mono1) (simp add: c1)
    qed
    then obtain d where d: "checked_mul32 c1 cell = Some d" "unat d = unat c1 * unat cell"
      by (metis checked_mul32_Some checked_mul32_def)
    have "(unat (0::u32) + length ps) * unat cell < 2 ^ 32"
    proof (rule le_less_trans [OF _ Cons.prems(2)])
      show "(unat (0::u32) + length ps) * unat cell \<le> (unat cells + length (p # ps)) * unat cell"
        by (rule mult_le_mono1) simp
    qed
    then obtain f c where fc:
      "mfm_flux_loop words cell ps 0 (flux @ [d]) = Inr (c, (flux @ [d]) @ f)"
      "map unat (f @ (if c = 0 then [] else [c * cell])) =
        map (\<lambda>k. k * unat cell) (cell_runs 0 (map (packed_bit words) ps))"
      "c \<noteq> 0 \<longrightarrow> unat c * unat cell < 2 ^ 32"
      using Cons.IH [of 0 "flux @ [d]"] Cons.prems(1) by auto
    show ?thesis
      using True c1 d fc by (intro exI [of _ "d # f"] exI [of _ c]) auto
  next
    case False
    then show ?thesis
      using Cons.IH [of c1 flux] Cons.prems c1 by simp
  qed
qed

lemma mfm_to_flux_runs:
  assumes "0 < n" and "n \<le> length words * 16" and "n \<le> MAX_TRACK_BITS"
    and fits: "n * unat cell < 2 ^ 32"
  shows "\<exists>flux. mfm_to_flux words n cell = Inr flux \<and>
    map unat flux = map (\<lambda>k. k * unat cell) (cell_runs 0 (unpack words n))"
proof -
  have "n < 2 ^ 32" using assms(3) by (simp add: MAX_TRACK_BITS_def)
  then obtain f c where
    fc: "mfm_flux_loop words cell [0..<n] 0 [] = Inr (c, f)"
      "map unat (f @ (if c = 0 then [] else [c * cell])) =
        map (\<lambda>k. k * unat cell) (cell_runs 0 (unpack words n))"
      "c \<noteq> 0 \<longrightarrow> unat c * unat cell < 2 ^ 32"
    using mfm_flux_loop_runs [of 0 "[0..<n]" cell words "[]"] fits by (auto simp: unpack_def)
  then show ?thesis
    using assms(1-3) by (cases "c = 0") (simp_all add: mfm_to_flux_def checked_mul32_def)
qed

text \<open>
  Reading the runs back gives the cells, except that the run-out after the last transition
  comes back closed by a transition of its own.
\<close>

lemma cells_of_runs:
  "replicate c False @ bs \<noteq> [] \<Longrightarrow>
   concat (map cells_of (cell_runs c bs)) =
     (replicate c False @ bs)[c + length bs - 1 := True]"
proof (induction c bs rule: cell_runs.induct)
  case (1 c)
  then obtain k where "c = Suc k" by (cases c) auto
  then show ?case
    by (simp add: cells_of_def replicate_append_same [symmetric] list_update_append)
next
  case (2 c b bs)
  show ?case
  proof (cases "b")
    case True
    then show ?thesis
      using 2 by (cases "bs = []")
        (auto simp: cells_of_def list_update_append nth_Cons' list_update_code(2)
           split: nat.split)
  next
    case False
    then show ?thesis
      using 2 by (simp add: replicate_app_Cons_same)
  qed
qed

section \<open>The index-to-index cut\<close>

definition pll_cells :: "pll_decoder \<Rightarrow> flux_event list \<Rightarrow> bool list" where
  "pll_cells p es = snd (pll_events es (p, []))"

definition pll_after :: "pll_decoder \<Rightarrow> flux_event list \<Rightarrow> pll_decoder" where
  "pll_after p es = fst (pll_events es (p, []))"

lemma pll_events_eq: "pll_events es (p, out) = (pll_after p es, out @ pll_cells p es)"
  using pll_events_append [of es p out]
  by (simp add: pll_cells_def pll_after_def Let_def split: prod.splits)

lemma pll_cells_simps:
  "pll_cells p [] = []" "pll_after p [] = p"
  "pll_cells p (es @ fs) = pll_cells p es @ pll_cells (pll_after p es) fs"
  "pll_after p (es @ fs) = pll_after (pll_after p es) fs"
  by (simp_all add: pll_cells_def pll_after_def pll_events_concat)
     (metis pll_events_eq pll_after_def pll_cells_def prod.collapse snd_conv fst_conv)+

lemma pll_cells_Cons:
  "pll_cells p (e # es) = pll_cells p [e] @ pll_cells (pll_after p [e]) es"
  "pll_after p (e # es) = pll_after (pll_after p [e]) es"
  using pll_cells_simps(3,4) [of p "[e]" es] by simp_all

lemma pll_submit_single: "pll_submit (fe_nanoseconds e) (p, out) = (pll_after p [e], out @ pll_cells p [e])"
  using pll_events_eq [of "[e]" p out] by simp

lemma revolution_loop_warmup:
  assumes "\<forall>e \<in> set pre. \<not> fe_index e"
  shows "revolution_loop (pre @ rest) p warmup [] False False =
         revolution_loop rest (pll_after p pre) (warmup @ pll_cells p pre) [] False False"
  using assms
proof (induction pre arbitrary: p warmup)
  case (Cons e pre)
  then show ?case
    using pll_cells_Cons [of p e pre] by (simp add: pll_submit_single)
qed (simp add: pll_cells_simps)

lemma revolution_loop_capture:
  assumes "\<forall>e \<in> set mid. \<not> fe_index e"
    and "length (bits @ pll_cells p mid) \<le> MAX_TRACK_BITS"
  shows "revolution_loop (mid @ rest) p warmup bits True saw =
         revolution_loop rest (pll_after p mid) warmup (bits @ pll_cells p mid) True saw"
  using assms
proof (induction mid arbitrary: p bits)
  case (Cons e mid)
  then show ?case
    using pll_cells_Cons [of p e mid] by (simp add: pll_submit_single)
qed (simp add: pll_cells_simps)

lemma revolution_loop_first_index:
  assumes "fe_index i1" and "\<forall>e \<in> set mid. \<not> fe_index e"
    and "length (pll_cells p (i1 # mid)) \<le> MAX_TRACK_BITS"
  shows "revolution_loop (i1 # mid @ rest) p warmup bits capturing False =
         revolution_loop rest (pll_after p (i1 # mid)) warmup (pll_cells p (i1 # mid)) True True"
  using assms pll_cells_Cons [of p i1 mid]
    revolution_loop_capture [of mid "pll_cells p [i1]" "pll_after p [i1]" rest warmup True]
  by (simp add: pll_submit_single)

lemma revolution_indexed:
  assumes "\<forall>e \<in> set pre. \<not> fe_index e" and "fe_index i1"
    and "\<forall>e \<in> set mid. \<not> fe_index e" and "fe_index i2"
    and "cells = pll_cells (pll_after pll_new pre) (i1 # mid)"
    and "64 \<le> length cells" and "length cells \<le> MAX_TRACK_BITS"
  shows "flux_to_revolution (pre @ i1 # mid @ i2 # post) = Inr (pack_bits cells, length cells, True)"
proof -
  have "list_ex fe_index (pre @ i1 # mid @ i2 # post)" using assms(2) by simp
  then show ?thesis
    using assms revolution_loop_warmup [OF assms(1), of "i1 # mid @ i2 # post" pll_new "[]"]
      revolution_loop_first_index [OF assms(2,3), of "pll_after pll_new pre" "i2 # post"]
    by (simp add: flux_to_revolution_def)
qed

section \<open>Properties\<close>

text \<open>
  C26: Packing is lossless both ways: the packed words read back whole are the cells followed by
  zeros up to the next multiple of sixteen, and packing all the cells of a word vector gives the
  vector.
\<close>

theorem pack_roundtrip:
  "length (pack_bits bits) = (length bits + 15) div 16 \<and>
   unpack (pack_bits bits) (length bits) = bits \<and>
   unpack (pack_bits bits) (16 * length (pack_bits bits)) =
     bits @ replicate (16 * length (pack_bits bits) - length bits) False \<and>
   pack_bits (unpack ws (16 * length ws)) = ws"
proof -
  have "unpack (pack_bits bits) (16 * length (pack_bits bits)) =
      bits @ replicate (16 * length (pack_bits bits) - length bits) False"
    using pack_bits_fits [of bits]
    by (intro nth_equalityI) (simp_all add: packed_bit_pack_bits nth_append del: length_pack_bits)
  then show ?thesis by (simp add: pack_bits_unpack)
qed

text \<open>
  C25: Rotating a packed revolution is rotating its cells, and two rotations are one by the sum
  of the two start bits, whatever their size.
\<close>

theorem rotate_revolution_composes:
  assumes "rotate_revolution ws n a = Inr r"
  shows "unpack r n = rotate a (unpack ws n) \<and>
         rotate_revolution r n b = rotate_revolution ws n (a + b)"
proof -
  have n: "0 < n" "n \<le> length ws * 16" and r: "r = pack_bits (rotate a (unpack ws n))"
    using assms by (simp_all add: rotate_revolution_Inr)
  have u: "unpack r n = rotate a (unpack ws n)"
    unfolding r by (rule unpack_rotate)
  have "n \<le> length r * 16"
    using pack_bits_fits [of "rotate a (unpack ws n)"] r by (simp add: mult.commute)
  then have "rotate_revolution r n b = Inr (pack_bits (rotate b (unpack r n)))"
    using n(1) by (simp add: rotate_revolution_Inr)
  also have "rotate b (unpack r n) = rotate (a + b) (unpack ws n)"
    unfolding u by (simp add: rotate_rotate add.commute)
  also have "Inr (pack_bits \<dots>) = rotate_revolution ws n (a + b)"
    using n rotate_revolution_Inr [of ws n "a + b"] by metis
  finally show ?thesis using u by simp
qed

theorem rotate_revolution_composes_witness:
  "unpack [0x3000] 4 = rotate 1 (unpack [0x9000] 4)"
proof -
  have "rotate_revolution [0x9000] 4 1 = Inr [0x3000]"
    by code_simp
  then show ?thesis using rotate_revolution_composes by blast
qed

text \<open>
  C9: With an index pulse at both ends, the cut is the cells decoded from the first index event
  up to, and without, the second, by a PLL that the events before the first have settled; what
  comes before and after does not appear in it.
\<close>

theorem flux_to_revolution_indexed:
  assumes "\<forall>e \<in> set pre. \<not> fe_index e" and "fe_index i1"
    and "\<forall>e \<in> set mid. \<not> fe_index e" and "fe_index i2"
  defines "cells \<equiv> pll_cells (pll_after pll_new pre) (i1 # mid)"
  assumes "64 \<le> length cells" and "length cells \<le> MAX_TRACK_BITS"
  shows "flux_to_revolution (pre @ i1 # mid @ i2 # post) = Inr (pack_bits cells, length cells, True)"
  using revolution_indexed [OF assms(1-4) meta_eq_to_obj_eq [OF cells_def] assms(6,7)] .

text \<open>
  C27: A stream with a single index pulse is cut from that pulse to the end of the stream and is
  still reported as index-aligned: the flag says an index was seen, not that a revolution was
  completed.
\<close>

theorem flux_to_revolution_single_index:
  assumes "\<forall>e \<in> set pre. \<not> fe_index e" and "fe_index i1"
    and "\<forall>e \<in> set mid. \<not> fe_index e"
  defines "cells \<equiv> pll_cells (pll_after pll_new pre) (i1 # mid)"
  assumes "64 \<le> length cells" and "length cells \<le> MAX_TRACK_BITS"
  shows "flux_to_revolution (pre @ i1 # mid) = Inr (pack_bits cells, length cells, True)"
proof -
  have "list_ex fe_index (pre @ i1 # mid)" using assms(2) by simp
  then show ?thesis
    using assms revolution_loop_warmup [OF assms(1), of "i1 # mid" pll_new "[]"]
      revolution_loop_first_index [OF assms(2,3), of "pll_after pll_new pre" "[]"]
    by (simp add: flux_to_revolution_def)
qed

lemma pll_cells_ideal:
  assumes "\<And>e. e \<in> set es \<Longrightarrow> \<exists>k > 0. unat (fe_nanoseconds e) = 2000 * k"
  shows "pll_cells pll_new es = concat (map (\<lambda>e. cells_of (unat (fe_nanoseconds e) div 2000)) es)"
    and "pll_after pll_new es = pll_new"
  by (simp_all add: pll_cells_def pll_after_def pll_ideal_events [OF assms])

definition flux_at :: "bool \<Rightarrow> u32 \<Rightarrow> flux_event" where
  "flux_at index nanoseconds = \<lparr>fe_nanoseconds = nanoseconds, fe_index = index\<rparr>"

lemma pll_cells_steady:
  "pll_cells pll_new (flux_at i 4000 # replicate n (flux_at False 4000)) =
   concat (replicate (Suc n) [False, True])"
proof -
  have "pll_cells pll_new (flux_at i 4000 # replicate n (flux_at False 4000)) =
    concat (map (\<lambda>e. cells_of (unat (fe_nanoseconds e) div 2000))
      (flux_at i 4000 # replicate n (flux_at False 4000)))"
    by (rule pll_cells_ideal(1)) (auto simp: flux_at_def)
  then show ?thesis by (simp add: flux_at_def cells_of_def)
qed

theorem flux_to_revolution_indexed_witness:
  "flux_to_revolution ([] @ flux_at True 4000 # replicate 40 (flux_at False 4000) @
       flux_at True 4000 # [flux_at False 9000]) =
   Inr (pack_bits (concat (replicate 41 [False, True])), 82, True)"
proof -
  let ?c = "pll_cells (pll_after pll_new []) (flux_at True 4000 # replicate 40 (flux_at False 4000))"
  have c: "?c = concat (replicate 41 [False, True])"
    by (simp add: pll_cells_steady pll_cells_simps del: replicate_Suc)
  have l: "length ?c = 82" unfolding c by (simp add: length_concat sum_list_replicate)
  show ?thesis
    using flux_to_revolution_indexed [of "[]" "flux_at True 4000" "replicate 40 (flux_at False 4000)"
        "flux_at True 4000" "[flux_at False 9000]"] l
    unfolding c by (simp add: flux_at_def MAX_TRACK_BITS_def)
qed

theorem flux_to_revolution_single_index_witness:
  "flux_to_revolution ([] @ flux_at True 4000 # replicate 40 (flux_at False 4000)) =
   Inr (pack_bits (concat (replicate 41 [False, True])), 82, True)"
proof -
  let ?c = "pll_cells (pll_after pll_new []) (flux_at True 4000 # replicate 40 (flux_at False 4000))"
  have c: "?c = concat (replicate 41 [False, True])"
    by (simp add: pll_cells_steady pll_cells_simps del: replicate_Suc)
  have l: "length ?c = 82" unfolding c by (simp add: length_concat sum_list_replicate)
  show ?thesis
    using flux_to_revolution_single_index [of "[]" "flux_at True 4000" "replicate 40 (flux_at False 4000)"] l
    unfolding c by (simp add: flux_at_def MAX_TRACK_BITS_def)
qed

lemma flux_cells:
  assumes "0 < n" and "n \<le> length words * 16" and "n \<le> MAX_TRACK_BITS"
  shows "\<exists>flux. mfm_to_flux words n 2000 = Inr flux \<and> sum_list (map unat flux) = 2000 * n \<and> flux \<noteq> [] \<and>
    (\<forall>es. map fe_nanoseconds es = flux \<longrightarrow> pll_cells pll_new es = (unpack words n)[n - 1 := True]) \<and>
    (\<forall>es. set (map fe_nanoseconds es) \<subseteq> set flux \<longrightarrow> pll_after pll_new es = pll_new)"
proof -
  let ?runs = "cell_runs 0 (unpack words n)"
  have "n * unat (2000 :: u32) < 2 ^ 32" using assms(3) by (simp add: MAX_TRACK_BITS_def)
  then obtain flux where flux: "mfm_to_flux words n 2000 = Inr flux"
      "map unat flux = map (\<lambda>k. k * unat (2000 :: u32)) ?runs"
    using mfm_to_flux_runs [OF assms] by blast
  have sum: "sum_list (map unat flux) = 2000 * n"
    using sum_cell_runs [of 0 "unpack words n"]
    by (simp add: flux(2) sum_list_mult_const mult.commute)
  have ideal: "\<exists>k > 0. unat ns = 2000 * k" if "ns \<in> set flux" for ns
  proof -
    from that have "unat ns \<in> set (map unat flux)" by simp
    then show ?thesis using cell_runs_pos [of _ 0 "unpack words n"] by (auto simp: flux(2))
  qed
  have cells: "pll_cells pll_new es = (unpack words n)[n - 1 := True]" if "map fe_nanoseconds es = flux" for es
  proof -
    have "\<exists>k > 0. unat (fe_nanoseconds e) = 2000 * k" if "e \<in> set es" for e
      using ideal [of "fe_nanoseconds e"] that \<open>map fe_nanoseconds es = flux\<close> by auto
    note decoded = pll_cells_ideal(1) [OF this]
    have "map (\<lambda>e. unat (fe_nanoseconds e) div 2000) es = map (\<lambda>d. d div 2000) (map unat flux)"
      by (simp add: that [symmetric])
    also have "\<dots> = ?runs" unfolding flux(2) by (simp add: map_idI)
    finally have "map cells_of ?runs = map (\<lambda>e. cells_of (unat (fe_nanoseconds e) div 2000)) es"
      by (metis (no_types, lifting) map_map comp_apply map_eq_conv)
    then have "pll_cells pll_new es = concat (map cells_of ?runs)" using decoded by simp
    also have "\<dots> = (unpack words n)[n - 1 := True]"
    proof -
      have "unpack words n \<noteq> []" using assms(1) by (metis length_unpack list.size(3) not_less_zero)
      then show ?thesis using cells_of_runs [of 0 "unpack words n"] by simp
    qed
    finally show ?thesis .
  qed
  have settled: "pll_after pll_new es = pll_new" if "set (map fe_nanoseconds es) \<subseteq> set flux" for es
    by (rule pll_cells_ideal(2)) (use that ideal in auto)
  have "flux \<noteq> []" using sum assms(1) by auto
  then show ?thesis using flux(1) sum cells settled by blast
qed

text \<open>
  C1: Writing a track and reading it back gives the track: the cells, converted to delays of
  2 microseconds each and turning past the head any number of times before the index and once
  from it to the next index pulse, are cut and decoded to the same number of cells and to the same
  cells, except that the last one is read as a transition, because the conversion closes the last
  delay with one. No checked operation on the way fails, for any track of 64 cells or more that
  the crate accepts.
\<close>

theorem flux_roundtrip:
  assumes "64 \<le> n" and "n \<le> length words * 16" and "n \<le> MAX_TRACK_BITS" and "fe_index pulse"
  shows "\<exists>flux packed. mfm_to_flux words n 2000 = Inr flux \<and> sum_list (map unat flux) = 2000 * n \<and>
    flux_to_revolution (map (flux_at False) (concat (replicate turns flux)) @
      flux_at True (hd flux) # map (flux_at False) (tl flux) @ pulse # rest) = Inr (packed, n, True) \<and>
    unpack packed n = (unpack words n)[n - 1 := True] \<and>
    (unpack words n ! (n - 1) \<longrightarrow> unpack packed n = unpack words n)"
proof -
  let ?cells = "(unpack words n)[n - 1 := True]"
  have "0 < n" using assms(1) by simp
  obtain flux where flux: "mfm_to_flux words n 2000 = Inr flux" "sum_list (map unat flux) = 2000 * n" "flux \<noteq> []"
    "\<forall>es. map fe_nanoseconds es = flux \<longrightarrow> pll_cells pll_new es = ?cells"
    "\<forall>es. set (map fe_nanoseconds es) \<subseteq> set flux \<longrightarrow> pll_after pll_new es = pll_new"
    using flux_cells [OF \<open>0 < n\<close> assms(2,3)] by blast
  let ?pre = "map (flux_at False) (concat (replicate turns flux))"
  let ?turn = "flux_at True (hd flux) # map (flux_at False) (tl flux)"
  have "pll_after pll_new ?pre = pll_new" by (rule flux(5) [rule_format]) (auto simp: flux_at_def)
  moreover have "map fe_nanoseconds ?turn = flux" using flux(3) by (simp add: flux_at_def comp_def)
  ultimately have cells: "?cells = pll_cells (pll_after pll_new ?pre) ?turn" using flux(4) by simp
  have "flux_to_revolution (?pre @ flux_at True (hd flux) # map (flux_at False) (tl flux) @ pulse # rest) =
      Inr (pack_bits ?cells, length ?cells, True)"
    by (rule revolution_indexed [OF _ _ _ assms(4) cells]) (use assms(1,3) in \<open>auto simp: flux_at_def\<close>)
  moreover have "unpack (pack_bits ?cells) n = ?cells"
    using unpack_pack_bits [of ?cells] by simp
  moreover have "?cells = unpack words n" if "unpack words n ! (n - 1)"
    using that by (metis list_update_id)
  ultimately show ?thesis using flux(1,2) by (auto simp del: unpack_pack_bits)
qed

text \<open>A track of 64 cells that ends with a transition.\<close>

theorem flux_roundtrip_witness:
  "\<exists>flux packed. mfm_to_flux [0x4489, 0x2AAA, 0x9254, 0x4489] 64 2000 = Inr flux \<and>
     flux_to_revolution (map (flux_at False) (concat (replicate 2 flux)) @
       flux_at True (hd flux) # map (flux_at False) (tl flux) @ flux_at True 4000 # []) = Inr (packed, 64, True) \<and>
     unpack packed 64 = unpack [0x4489, 0x2AAA, 0x9254, 0x4489] 64"
proof -
  have "unpack [0x4489, 0x2AAA, 0x9254, 0x4489] 64 ! (64 - 1)" by code_simp
  moreover have "fe_index (flux_at True 4000)" by (simp add: flux_at_def)
  ultimately show ?thesis
    using flux_roundtrip [of 64 "[0x4489, 0x2AAA, 0x9254, 0x4489]" "flux_at True 4000" 2 "[]"]
    by (simp add: MAX_TRACK_BITS_def) blast
qed

end
