(* ===== verification/Flux_Join.thy ===== *)
theory Flux_Join
  imports Flux_Rotation
begin

text \<open>
  The search for the revolution boundary of an index-less capture (the second half of
  \<^verbatim>\<open>src/flux/rotation.rs\<close>). Candidate lengths are scored by how many of
  \<open>JOIN_SAMPLE_CELLS\<close> cells repeat after them; the first best candidate of an anchor is
  proved against all anchors. The properties say what a returned join guarantees and that a truly
  periodic capture is cut at its period.
\<close>

section \<open>Operations\<close>

definition JOIN_WARMUP_CELLS :: nat where "JOIN_WARMUP_CELLS = 2000"
definition JOIN_SAMPLE_CELLS :: nat where "JOIN_SAMPLE_CELLS = 1024"
definition JOIN_ANCHORS :: "nat list" where "JOIN_ANCHORS = [0, 2048, 4096]"

lemmas join_defs = JOIN_WARMUP_CELLS_def JOIN_SAMPLE_CELLS_def JOIN_ANCHORS_def

definition join_reach :: nat where
  "join_reach = JOIN_WARMUP_CELLS + JOIN_ANCHORS ! (length JOIN_ANCHORS - 1) + JOIN_SAMPLE_CELLS"

definition join_nominal :: "bool \<Rightarrow> nat" where
  "join_nominal high_density = (if high_density then 200000 else 100000)"

definition join_lower :: "bool \<Rightarrow> nat" where
  "join_lower high_density = join_nominal high_density * 4 div 5"

definition join_upper :: "bool \<Rightarrow> nat \<Rightarrow> nat" where
  "join_upper high_density len = min (join_nominal high_density * 6 div 5) (len - join_reach)"

definition join_convincing :: nat where
  "join_convincing = JOIN_SAMPLE_CELLS * 3 div 4"

definition score_at :: "bool list \<Rightarrow> nat \<Rightarrow> nat \<Rightarrow> nat" where
  "score_at bits anchor candidate =
     (let from = JOIN_WARMUP_CELLS + anchor in
      length (filter (\<lambda>(left, right). left = right)
        (zip (take JOIN_SAMPLE_CELLS (drop from bits))
             (take JOIN_SAMPLE_CELLS (drop (from + candidate) bits)))))"

fun best_candidate :: "bool list \<Rightarrow> nat \<Rightarrow> nat list \<Rightarrow> nat \<times> nat \<Rightarrow> nat \<times> nat" where
  "best_candidate bits leader [] best = best"
| "best_candidate bits leader (candidate # cs) best =
     best_candidate bits leader cs
       (if score_at bits leader candidate > snd best
        then (candidate, score_at bits leader candidate) else best)"

definition agreeing_anchors :: "bool list \<Rightarrow> nat \<Rightarrow> nat" where
  "agreeing_anchors bits candidate =
     length (filter (\<lambda>anchor. score_at bits anchor candidate \<ge> join_convincing) JOIN_ANCHORS)"

fun join_leaders :: "bool list \<Rightarrow> nat \<Rightarrow> nat \<Rightarrow> nat list \<Rightarrow> nat \<Rightarrow> bool list result" where
  "join_leaders bits lower upper [] nearest =
     Inl (Protocol (''could not locate a reliable revolution overlap (best score '' @
            dec_string nearest @ ''/'' @ dec_string JOIN_SAMPLE_CELLS @ '')''))"
| "join_leaders bits lower upper (leader # leaders) nearest =
     (let best = best_candidate bits leader [lower..<Suc upper] (0, 0);
          nearest = max nearest (snd best)
      in if snd best < join_convincing then join_leaders bits lower upper leaders nearest
         else if agreeing_anchors bits (fst best) * 2 > length JOIN_ANCHORS
         then Inr (take (fst best) bits)
         else join_leaders bits lower upper leaders nearest)"

definition bits_to_unaligned_revolution :: "bool list \<Rightarrow> bool \<Rightarrow> bool list result" where
  "bits_to_unaligned_revolution bits high_density =
     (let lower = join_lower high_density;
          upper = join_upper high_density (length bits)
      in if upper \<le> lower \<or> length bits < lower + join_reach
         then Inl (Protocol ''immediate capture is too short to locate a revolution overlap'')
         else join_leaders bits lower upper JOIN_ANCHORS 0)"

fun unaligned_loop :: "flux_event list \<Rightarrow> pll_decoder \<times> bool list \<Rightarrow> bool list result" where
  "unaligned_loop [] s = Inr (snd s)"
| "unaligned_loop (event # events) s =
     (let s' = pll_submit (fe_nanoseconds event) s in
      if length (snd s') > MAX_TRACK_BITS
      then Inl (TrackTooLarge (length (snd s')) MAX_TRACK_BITS)
      else unaligned_loop events s')"

definition flux_to_unaligned_revolution ::
  "flux_event list \<Rightarrow> bool \<Rightarrow> (u16 list \<times> nat) result" where
  "flux_to_unaligned_revolution events high_density =
     (case unaligned_loop events (pll_new, []) of
        Inl e \<Rightarrow> Inl e
      | Inr bits \<Rightarrow>
          (case bits_to_unaligned_revolution bits high_density of
             Inl e \<Rightarrow> Inl e
           | Inr bits \<Rightarrow> Inr (pack_bits bits, length bits)))"

section \<open>The join search\<close>

lemma score_at_le: "score_at bits anchor c \<le> JOIN_SAMPLE_CELLS"
proof -
  have "score_at bits anchor c \<le> length (zip (take JOIN_SAMPLE_CELLS (drop (JOIN_WARMUP_CELLS + anchor) bits))
             (take JOIN_SAMPLE_CELLS (drop (JOIN_WARMUP_CELLS + anchor + c) bits)))"
    unfolding score_at_def Let_def by (rule length_filter_le)
  then show ?thesis by simp
qed

text \<open>
  The source slices the cells directly; a slice out of range would panic. Every comparison the
  search makes is in range.
\<close>

lemma score_window_in_range:
  assumes "candidate \<le> join_upper dens (length bits)" and "0 < candidate" and "anchor \<in> set JOIN_ANCHORS"
  shows "JOIN_WARMUP_CELLS + anchor + candidate + JOIN_SAMPLE_CELLS \<le> length bits"
  using assms by (auto simp: join_upper_def join_reach_def join_defs)

lemma score_at_full:
  assumes "JOIN_WARMUP_CELLS + anchor + c + JOIN_SAMPLE_CELLS \<le> length bits"
  shows "score_at bits anchor c = JOIN_SAMPLE_CELLS \<longleftrightarrow>
    (\<forall>i < JOIN_SAMPLE_CELLS. bits ! (JOIN_WARMUP_CELLS + anchor + i) =
       bits ! (JOIN_WARMUP_CELLS + anchor + c + i))"
proof -
  let ?z = "zip (take JOIN_SAMPLE_CELLS (drop (JOIN_WARMUP_CELLS + anchor) bits))
             (take JOIN_SAMPLE_CELLS (drop (JOIN_WARMUP_CELLS + anchor + c) bits))"
  have len: "length ?z = JOIN_SAMPLE_CELLS" using assms by simp
  have "length (filter (\<lambda>(l, r). l = r) ?z) = length ?z \<longleftrightarrow> (\<forall>x \<in> set ?z. case x of (l, r) \<Rightarrow> l = r)"
    by (rule length_filter_all_iff)
  also have "\<dots> \<longleftrightarrow> (\<forall>i < JOIN_SAMPLE_CELLS. case ?z ! i of (l, r) \<Rightarrow> l = r)"
    using len by (simp only: all_set_conv_all_nth)
  also have "\<dots> \<longleftrightarrow> (\<forall>i < JOIN_SAMPLE_CELLS. bits ! (JOIN_WARMUP_CELLS + anchor + i) =
       bits ! (JOIN_WARMUP_CELLS + anchor + c + i))"
    using assms by (simp add: add.assoc)
  finally show ?thesis using len by (simp only: score_at_def Let_def)
qed

lemma best_candidate_sound:
  assumes "best_candidate bits leader cs (c0, s0) = (c, s)"
  shows "(c, s) = (c0, s0) \<or> c \<in> set cs \<and> s = score_at bits leader c \<and> s0 < s"
  using assms
proof (induction cs arbitrary: c0 s0)
  case (Cons x xs)
  then show ?case by (fastforce split: if_splits)
qed simp

lemma best_candidate_max:
  assumes "best_candidate bits leader cs (c0, s0) = (c, s)" and "x \<in> set cs"
  shows "score_at bits leader x \<le> s"
  using assms
proof (induction cs arbitrary: c0 s0)
  case (Cons y ys)
  show ?case
  proof (cases "x = y")
    case True
    with Cons.prems best_candidate_sound show ?thesis
      by (fastforce split: if_splits dest: best_candidate_sound)
  next
    case False
    with Cons show ?thesis by (auto split: if_splits)
  qed
qed simp

lemma best_candidate_unique:
  assumes "p \<in> set cs" and "0 < score_at bits leader p"
    and "\<And>c. c \<in> set cs \<Longrightarrow> c \<noteq> p \<Longrightarrow> score_at bits leader c < score_at bits leader p"
  shows "best_candidate bits leader cs (0, 0) = (p, score_at bits leader p)"
proof -
  obtain c s where cs: "best_candidate bits leader cs (0, 0) = (c, s)" by fastforce
  have "score_at bits leader p \<le> s" using best_candidate_max [OF cs assms(1)] .
  moreover from this have "c \<in> set cs \<and> s = score_at bits leader c"
    using best_candidate_sound [OF cs] assms(2) by auto
  ultimately show ?thesis using cs assms(3) by (metis linorder_not_less)
qed

lemma join_leaders_sound:
  assumes "join_leaders bits lower upper leaders nearest = Inr r"
  shows "\<exists>c leader. leader \<in> set leaders \<and> lower \<le> c \<and> c \<le> upper \<and> r = take c bits \<and>
     length JOIN_ANCHORS < agreeing_anchors bits c * 2 \<and>
     join_convincing \<le> score_at bits leader c \<and>
     (\<forall>c'. lower \<le> c' \<and> c' \<le> upper \<longrightarrow> score_at bits leader c' \<le> score_at bits leader c)"
  using assms
proof (induction leaders arbitrary: nearest)
  case (Cons l ls)
  obtain c s where b: "best_candidate bits l [lower..<Suc upper] (0, 0) = (c, s)" by fastforce
  show ?case
  proof (cases "s < join_convincing \<or> agreeing_anchors bits c * 2 \<le> length JOIN_ANCHORS")
    case True
    then have "\<exists>n. join_leaders bits lower upper ls n = Inr r"
      using Cons.prems by (auto simp: Let_def b simp del: upt_Suc split: if_splits)
    then show ?thesis using Cons.IH by fastforce
  next
    case False
    then have "0 < s" by (simp add: join_convincing_def join_defs)
    then have "c \<in> set [lower..<Suc upper] \<and> s = score_at bits l c"
      using best_candidate_sound [OF b] by auto
    moreover have "r = take c bits"
      using False Cons.prems by (auto simp: Let_def b simp del: upt_Suc)
    moreover have "score_at bits l c' \<le> s" if "lower \<le> c' \<and> c' \<le> upper" for c'
      using that by (intro best_candidate_max [OF b]) auto
    ultimately show ?thesis
      using False by (intro exI [of _ c] exI [of _ l]) auto
  qed
qed simp

lemma join_leaders_accept:
  assumes "best_candidate bits leader [lower..<Suc upper] (0, 0) = (c, s)"
    and "join_convincing \<le> s" and "length JOIN_ANCHORS < agreeing_anchors bits c * 2"
  shows "join_leaders bits lower upper (leader # leaders) nearest = Inr (take c bits)"
  using assms by (simp add: Let_def del: upt_Suc)

lemma join_leaders_first:
  assumes "lower \<le> p" and "p \<le> upper" and "join_convincing \<le> score_at bits leader p"
    and "\<And>c. lower \<le> c \<Longrightarrow> c \<le> upper \<Longrightarrow> c \<noteq> p \<Longrightarrow> score_at bits leader c < score_at bits leader p"
    and "length JOIN_ANCHORS < agreeing_anchors bits p * 2"
  shows "join_leaders bits lower upper (leader # leaders) nearest = Inr (take p bits)"
proof -
  have "best_candidate bits leader [lower..<Suc upper] (0, 0) = (p, score_at bits leader p)"
    using assms(1-4) by (intro best_candidate_unique) (auto simp: join_convincing_def join_defs)
  then show ?thesis using assms(3,5) by (rule join_leaders_accept)
qed

text \<open>A capture that repeats after \<open>p\<close> cells, past the warm-up.\<close>

definition repeats_after :: "bool list \<Rightarrow> nat \<Rightarrow> bool" where
  "repeats_after bits p \<longleftrightarrow>
     (\<forall>i. JOIN_WARMUP_CELLS \<le> i \<longrightarrow> i + p < length bits \<longrightarrow> bits ! i = bits ! (i + p))"

lemma repeats_after_score:
  assumes "repeats_after bits p"
    and "JOIN_WARMUP_CELLS + anchor + p + JOIN_SAMPLE_CELLS \<le> length bits"
  shows "score_at bits anchor p = JOIN_SAMPLE_CELLS"
  using assms by (subst score_at_full) (auto simp: repeats_after_def add.commute add.left_commute)

lemma repeats_after_agreeing:
  assumes "repeats_after bits p" and "p + join_reach \<le> length bits"
  shows "agreeing_anchors bits p = length JOIN_ANCHORS"
proof -
  have "\<forall>a \<in> set JOIN_ANCHORS. score_at bits a p = JOIN_SAMPLE_CELLS"
    using assms(2) by (auto intro!: repeats_after_score [OF assms(1), unfolded join_defs]
      simp: join_reach_def join_defs)
  then have "filter (\<lambda>a. join_convincing \<le> score_at bits a p) JOIN_ANCHORS = JOIN_ANCHORS"
    by (intro filter_True) (auto simp: join_convincing_def join_defs)
  then show ?thesis by (simp add: agreeing_anchors_def)
qed

section \<open>Properties\<close>

text \<open>
  C3: A join the search returns is a cut of the capture at a length inside the density's
  window, it is the best-scoring length at one of the anchors, three quarters of the cells at a
  majority of the anchors repeat there, and every window it compared lies inside the capture.
\<close>

theorem join_sound:
  assumes "bits_to_unaligned_revolution bits high = Inr r"
  shows "\<exists>c leader. r = take c bits \<and> leader \<in> set JOIN_ANCHORS \<and>
    join_lower high \<le> c \<and> c \<le> join_nominal high * 6 div 5 \<and> c + join_reach \<le> length bits \<and>
    (\<forall>c'. join_lower high \<le> c' \<and> c' \<le> join_upper high (length bits) \<longrightarrow>
       score_at bits leader c' \<le> score_at bits leader c) \<and>
    2 \<le> length (filter (\<lambda>anchor. 768 \<le> score_at bits anchor c) JOIN_ANCHORS) \<and>
    (\<forall>anchor \<in> set JOIN_ANCHORS.
       JOIN_WARMUP_CELLS + anchor + c + JOIN_SAMPLE_CELLS \<le> length bits)"
proof -
  have long: "join_lower high < join_upper high (length bits)"
    using assms by (auto simp: bits_to_unaligned_revolution_def Let_def split: if_splits)
  have "join_leaders bits (join_lower high) (join_upper high (length bits)) JOIN_ANCHORS 0 = Inr r"
    using assms by (auto simp: bits_to_unaligned_revolution_def Let_def split: if_splits)
  then obtain c leader where c: "leader \<in> set JOIN_ANCHORS" "join_lower high \<le> c"
      "c \<le> join_upper high (length bits)" "r = take c bits"
      "length JOIN_ANCHORS < agreeing_anchors bits c * 2"
      "\<forall>c'. join_lower high \<le> c' \<and> c' \<le> join_upper high (length bits) \<longrightarrow>
         score_at bits leader c' \<le> score_at bits leader c"
    using join_leaders_sound by blast
  have "0 < c" using c(2) by (auto simp: join_lower_def join_nominal_def split: if_splits)
  then have "\<forall>anchor \<in> set JOIN_ANCHORS.
       JOIN_WARMUP_CELLS + anchor + c + JOIN_SAMPLE_CELLS \<le> length bits"
    using score_window_in_range [OF c(3)] by blast
  moreover have "c \<le> join_nominal high * 6 div 5" "c + join_reach \<le> length bits"
    using c(3) long by (auto simp: join_upper_def)
  moreover have "2 \<le> length (filter (\<lambda>anchor. 768 \<le> score_at bits anchor c) JOIN_ANCHORS)"
    using c(5) by (simp add: agreeing_anchors_def join_convincing_def JOIN_SAMPLE_CELLS_def
        JOIN_ANCHORS_def)
  ultimately show ?thesis using c by blast
qed

text \<open>
  C10: A capture whose cells repeat after \<open>p\<close>, at a plausible length and with no other length
  at which the first anchor recurs exactly, is cut at exactly \<open>p\<close>.
\<close>

theorem join_finds_period:
  assumes "repeats_after bits p" and "join_lower high \<le> p" and "p \<le> join_nominal high * 6 div 5"
    and "p + join_reach \<le> length bits" and "join_lower high < join_upper high (length bits)"
    and unique: "\<forall>c \<in> {join_lower high..join_upper high (length bits)} - {p}.
      \<exists>i < JOIN_SAMPLE_CELLS. bits ! (JOIN_WARMUP_CELLS + i) \<noteq> bits ! (JOIN_WARMUP_CELLS + c + i)"
  shows "bits_to_unaligned_revolution bits high = Inr (take p bits)"
proof -
  let ?lo = "join_lower high" and ?up = "join_upper high (length bits)"
  have pu: "p \<le> ?up" using assms(3,4) by (simp add: join_upper_def)
  have full: "score_at bits 0 p = JOIN_SAMPLE_CELLS"
    using assms(4) by (intro repeats_after_score [OF assms(1)]) (simp add: join_reach_def join_defs)
  have less: "score_at bits 0 c < JOIN_SAMPLE_CELLS" if "?lo \<le> c" "c \<le> ?up" "c \<noteq> p" for c
  proof -
    have "0 < c" using that(1) by (auto simp: join_lower_def join_nominal_def split: if_splits)
    then have "JOIN_WARMUP_CELLS + 0 + c + JOIN_SAMPLE_CELLS \<le> length bits"
      using score_window_in_range [OF that(2), of 0] by (simp add: join_defs)
    then have "score_at bits 0 c \<noteq> JOIN_SAMPLE_CELLS"
      using unique that by (subst score_at_full) auto
    then show ?thesis using score_at_le [of bits 0 c] by linarith
  qed
  have "\<exists>ls. JOIN_ANCHORS = 0 # ls" by (simp add: JOIN_ANCHORS_def)
  then obtain ls where "JOIN_ANCHORS = 0 # ls" ..
  moreover have "length JOIN_ANCHORS < agreeing_anchors bits p * 2"
    using repeats_after_agreeing [OF assms(1,4)] by (simp add: JOIN_ANCHORS_def)
  moreover have "join_convincing \<le> score_at bits 0 p"
    by (simp add: full join_convincing_def JOIN_SAMPLE_CELLS_def)
  ultimately have "join_leaders bits ?lo ?up JOIN_ANCHORS 0 = Inr (take p bits)"
    by (metis join_leaders_first [OF assms(2) pu] full less)
  then show ?thesis
    using assms(2,4,5) by (simp add: bits_to_unaligned_revolution_def Let_def)
qed

text \<open>A test capture: one transition every \<open>p\<close> cells, the first at cell 2000.\<close>

definition marked_capture :: "nat \<Rightarrow> nat \<Rightarrow> bool list" where
  "marked_capture p n = map (\<lambda>i. i mod p = 2000) [0..<n]"

lemma marked_capture_nth: "i < n \<Longrightarrow> marked_capture p n ! i \<longleftrightarrow> i mod p = 2000"
  by (simp add: marked_capture_def)

theorem join_finds_period_witness:
  "bits_to_unaligned_revolution (marked_capture 100000 130000) False =
   Inr (take 100000 (marked_capture 100000 130000))"
proof (rule join_finds_period)
  have len: "length (marked_capture 100000 130000) = 130000" by (simp add: marked_capture_def)
  show "repeats_after (marked_capture 100000 130000) 100000"
    by (auto simp: repeats_after_def len marked_capture_nth)
  show "join_lower False \<le> 100000" "100000 \<le> join_nominal False * 6 div 5"
    by (simp_all add: join_lower_def join_nominal_def)
  show "100000 + join_reach \<le> length (marked_capture 100000 130000)"
    by (simp add: len join_reach_def join_defs)
  show "join_lower False < join_upper False (length (marked_capture 100000 130000))"
    by (simp add: len join_lower_def join_upper_def join_nominal_def join_reach_def join_defs)
  show "\<forall>c \<in> {join_lower False..join_upper False (length (marked_capture 100000 130000))} - {100000}.
      \<exists>i < JOIN_SAMPLE_CELLS. marked_capture 100000 130000 ! (JOIN_WARMUP_CELLS + i) \<noteq>
        marked_capture 100000 130000 ! (JOIN_WARMUP_CELLS + c + i)"
  proof
    fix c assume c: "c \<in> {join_lower False..join_upper False (length (marked_capture 100000 130000))}
      - {100000}"
    then have r: "80000 \<le> c" "c \<le> 120000" "c \<noteq> 100000"
      by (auto simp: len join_lower_def join_upper_def join_nominal_def join_reach_def join_defs)
    then have "(2000 + c) mod 100000 \<noteq> 2000"
      by (cases "2000 + c < 100000") (auto simp: mod_if le_mod_geq)
    then show "\<exists>i < JOIN_SAMPLE_CELLS. marked_capture 100000 130000 ! (JOIN_WARMUP_CELLS + i) \<noteq>
        marked_capture 100000 130000 ! (JOIN_WARMUP_CELLS + c + i)"
      using r by (intro exI [of _ 0]) (simp add: join_defs marked_capture_nth)
  qed
qed

lemma score_false_stream:
  assumes "JOIN_WARMUP_CELLS + a + c + JOIN_SAMPLE_CELLS \<le> n"
  shows "score_at (replicate n False) a c = JOIN_SAMPLE_CELLS"
  using assms by (subst score_at_full) simp_all

lemma best_false_stream:
  assumes "set cs \<subseteq> {0..120000}" and "130000 \<le> n"
  shows "best_candidate (replicate n False) 0 cs (c0, JOIN_SAMPLE_CELLS) = (c0, JOIN_SAMPLE_CELLS)"
  using assms
proof (induction cs)
  case (Cons c cs)
  have "score_at (replicate n False) 0 c = JOIN_SAMPLE_CELLS"
    using Cons.prems by (intro score_false_stream) (simp add: join_defs)
  then show ?case using Cons by simp
qed simp

lemma join_false_stream:
  assumes "130000 \<le> n"
  shows "bits_to_unaligned_revolution (replicate n False) False = Inr (replicate 80000 False)"
proof -
  let ?b = "replicate n False"
  have up: "join_upper False (length ?b) = 120000"
    using assms by (simp add: join_upper_def join_nominal_def join_reach_def join_defs)
  have lo: "join_lower False = 80000" by (simp add: join_lower_def join_nominal_def)
  have s: "score_at ?b a 80000 = JOIN_SAMPLE_CELLS" if "a \<le> 4096" for a
    using that assms by (intro score_false_stream) (simp add: join_defs)
  have pos: "0 < JOIN_SAMPLE_CELLS" by (simp add: join_defs)
  have cons: "[80000..<Suc 120000] = 80000 # [Suc 80000..<Suc 120000]"
    by (rule upt_conv_Cons) simp
  have best: "best_candidate ?b 0 [80000..<Suc 120000] (0, 0) = (80000, JOIN_SAMPLE_CELLS)"
    unfolding cons best_candidate.simps(2) snd_conv s [OF zero_le] if_P [OF pos]
  proof (rule best_false_stream [OF _ assms])
    show "set [Suc 80000..<Suc 120000] \<subseteq> {0..120000}"
      unfolding set_upt by (intro subsetI) simp
  qed
  have "length JOIN_ANCHORS < agreeing_anchors ?b 80000 * 2"
    using s by (simp add: agreeing_anchors_def join_convincing_def JOIN_ANCHORS_def)
  moreover have "join_convincing \<le> JOIN_SAMPLE_CELLS" by (simp add: join_convincing_def)
  ultimately have "join_leaders ?b 80000 120000 JOIN_ANCHORS 0 = Inr (take 80000 ?b)"
    by (metis JOIN_ANCHORS_def join_leaders_accept [OF best])
  moreover have "\<not> (120000 \<le> (80000::nat) \<or> length ?b < 80000 + join_reach)"
    using assms by (simp add: join_reach_def join_defs)
  moreover have "take 80000 ?b = replicate 80000 False" using assms by (simp add: min_def)
  ultimately show ?thesis
    unfolding bits_to_unaligned_revolution_def Let_def lo up by (simp only: if_False)
qed

theorem join_sound_witness:
  "\<exists>c \<le> 120000. replicate 80000 False = take c (replicate 130000 False) \<and>
     2 \<le> length (filter (\<lambda>anchor. 768 \<le> score_at (replicate 130000 False) anchor c) JOIN_ANCHORS)"
  using join_sound [OF join_false_stream [of 130000, OF order_refl]]
  by (simp add: join_nominal_def) metis

end
