(* ===== verification/Flux_Scan.thy ===== *)
theory Flux_Scan
  imports Flux_Rotation "HOL-Library.Multiset"
begin

text \<open>
  Format-aware verification of an index-less revolution (\<^verbatim>\<open>src/flux/scan.rs\<close>).
  The revolution is read as a ring. The hash set of sync positions is a list without repetition,
  and the order in which the scan visits it is a parameter: the properties hold for every order.
  The central results: the verdict is a function of two sets (the syncs with a valid header, the
  sectors that passed), it does not depend on the visiting order, and it does not depend on where
  the ring was cut.
\<close>

definition MASK :: u32 where "MASK = 0x55555555"
definition DD_SECTORS :: nat where "DD_SECTORS = 11"
definition HD_SECTORS :: nat where "HD_SECTORS = 22"
definition HD_BIT_THRESHOLD :: nat where "HD_BIT_THRESHOLD = 150000"

lemmas scan_defs = DD_SECTORS_def HD_SECTORS_def HD_BIT_THRESHOLD_def

datatype revolution_scan =
    CleanAmigaDos u8
  | DamagedAmigaDos u8 u8
  | Unrecognised

section \<open>Operations\<close>

definition bit_at :: "u16 list \<Rightarrow> nat \<Rightarrow> nat \<Rightarrow> bool" where
  "bit_at words bit_len position =
     (let position = position mod bit_len in packed_bit words position)"

definition long_at :: "u16 list \<Rightarrow> nat \<Rightarrow> nat \<Rightarrow> u32" where
  "long_at words bit_len start =
     foldl (\<lambda>value offset. push_bit 1 value OR of_bool (bit_at words bit_len (start + offset)))
       0 [0..<32]"

definition deinterleave :: "u32 \<Rightarrow> u32 \<Rightarrow> u32" where
  "deinterleave odd_bits even_bits = push_bit 1 (odd_bits AND MASK) OR (even_bits AND MASK)"

text \<open>\<^verbatim>\<open>u32::to_be_bytes\<close>.\<close>

definition be_byte :: "u32 \<Rightarrow> nat \<Rightarrow> u8" where
  "be_byte v i = ucast (drop_bit (24 - 8 * i) v)"

fun sync_loop :: "u16 list \<Rightarrow> nat \<Rightarrow> nat list \<Rightarrow> u16 \<Rightarrow> nat list \<Rightarrow> nat list" where
  "sync_loop words bit_len [] window syncs = syncs"
| "sync_loop words bit_len (position # ps) window syncs =
     (let window = push_bit 1 window OR of_bool (bit_at words bit_len position) in
      sync_loop words bit_len ps window
        (if position \<ge> 15 \<and> window = 0x4489
         then List.insert ((position - 15) mod bit_len) syncs else syncs))"

definition find_syncs :: "u16 list \<Rightarrow> nat \<Rightarrow> nat list" where
  "find_syncs words bit_len = sync_loop words bit_len [0..<bit_len + 15] 0 []"

text \<open>The two checksums, over the longs from \<open>start\<close>.\<close>

definition header_sum :: "u16 list \<Rightarrow> nat \<Rightarrow> nat \<Rightarrow> u32" where
  "header_sum words bit_len body =
     (let info_odd = long_at words bit_len body;
          info_even = long_at words bit_len (body + 32)
      in foldl (\<lambda>checksum offset.
             checksum XOR (long_at words bit_len (body + 64 + offset * 32) AND MASK))
           ((info_odd AND MASK) XOR (info_even AND MASK)) [0..<8])"

definition data_sum :: "u16 list \<Rightarrow> nat \<Rightarrow> nat \<Rightarrow> u32" where
  "data_sum words bit_len data_start =
     foldl (\<lambda>checksum offset.
         checksum XOR (long_at words bit_len (data_start + offset * 32) AND MASK))
       0 [0..<256]"

text \<open>The body of the loop over the syncs; the state is the two accumulators.\<close>

definition scan_sync :: "u16 list \<Rightarrow> nat \<Rightarrow> nat list \<Rightarrow> nat \<Rightarrow> nat \<times> bool list \<Rightarrow> nat \<times> bool list" where
  "scan_sync words bit_len syncs sync = (\<lambda>(headers_valid, good).
     if (sync + 16) mod bit_len \<notin> set syncs \<or> (sync + bit_len - 16) mod bit_len \<in> set syncs
     then (headers_valid, good)
     else
       let body = sync + 32;
           info_odd = long_at words bit_len body;
           info_even = long_at words bit_len (body + 32);
           info = deinterleave info_odd info_even;
           format = be_byte info 0;
           sector = be_byte info 2
       in if format \<noteq> 0xff \<or> unat sector \<ge> HD_SECTORS then (headers_valid, good)
          else
            let header_checksum = header_sum words bit_len body;
                stored_header =
                  deinterleave (long_at words bit_len (body + 320)) (long_at words bit_len (body + 352))
            in if header_checksum \<noteq> stored_header then (headers_valid, good)
               else
                 let headers_valid = headers_valid + 1;
                     data_start = body + 448;
                     data_checksum = data_sum words bit_len data_start;
                     stored_data =
                       deinterleave (long_at words bit_len (body + 384)) (long_at words bit_len (body + 416))
                 in (headers_valid,
                     if data_checksum = stored_data then good[unat sector := True] else good))"

definition as_u8 :: "nat \<Rightarrow> u8" where
  "as_u8 n = (case try_u8 n of None \<Rightarrow> 0 | Some v \<Rightarrow> v)"

text \<open>\<open>order\<close> is the iteration order of the hash set.\<close>

definition scan_revolution :: "(nat list \<Rightarrow> nat list) \<Rightarrow> u16 list \<Rightarrow> nat \<Rightarrow> revolution_scan" where
  "scan_revolution order words bit_len =
     (if bit_len < 64 \<or> words = [] \<or> length words * 16 < bit_len then Unrecognised
      else
        let syncs = find_syncs words bit_len;
            (headers_valid, good) =
              fold (scan_sync words bit_len syncs) (order syncs) (0, replicate HD_SECTORS False);
            expected = (if bit_len > HD_BIT_THRESHOLD then HD_SECTORS else DD_SECTORS);
            good = length (filter (\<lambda>valid. valid) good)
        in if good = expected then CleanAmigaDos (as_u8 expected)
           else if headers_valid + 1 \<ge> expected then DamagedAmigaDos (as_u8 good) (as_u8 expected)
           else Unrecognised)"

section \<open>The sync positions\<close>

lemma window_bits:
  fixes w :: u16
  shows "bit (push_bit 1 w OR of_bool b) i \<longleftrightarrow>
    i < 16 \<and> (if i = 0 then b else bit w (i - 1))"
  unfolding bit_or_iff bit_push_bit_iff bit_of_bool_iff possible_bit_word
  by (cases i) auto

definition window_at :: "u16 list \<Rightarrow> nat \<Rightarrow> nat \<Rightarrow> u16 \<Rightarrow> bool" where
  "window_at words n p window \<longleftrightarrow>
     (\<forall>i < 16. bit window i \<longleftrightarrow> i < p \<and> bit_at words n (p - 1 - i))"

lemma window_at_step:
  assumes "window_at words n p window"
  shows "window_at words n (Suc p) (push_bit 1 window OR of_bool (bit_at words n p))"
  unfolding window_at_def window_bits
proof (intro allI impI)
  fix i :: nat assume "i < 16"
  then show "(i < 16 \<and> (if i = 0 then bit_at words n p else bit window (i - 1))) \<longleftrightarrow>
      i < Suc p \<and> bit_at words n (Suc p - 1 - i)"
    using assms by (cases i) (auto simp: window_at_def)
qed

definition sync_word :: "u16 list \<Rightarrow> nat \<Rightarrow> nat \<Rightarrow> bool" where
  "sync_word words n s \<longleftrightarrow> (\<forall>i < 16. bit_at words n (s + 15 - i) \<longleftrightarrow> bit (0x4489 :: u16) i)"

lemma window_at_sync:
  assumes "window_at words n (Suc p) window" and "15 \<le> p"
  shows "window = 0x4489 \<longleftrightarrow> sync_word words n (p - 15)"
proof -
  have "window = 0x4489 \<longleftrightarrow> (\<forall>i < 16. bit window i \<longleftrightarrow> bit (0x4489 :: u16) i)"
    by (auto intro: bit_word_eqI)
  also have "\<dots> \<longleftrightarrow> sync_word words n (p - 15)"
    using assms by (auto simp: window_at_def sync_word_def)
  finally show ?thesis .
qed

lemma sync_loop_spec:
  assumes "window_at words n p window"
  shows "set (sync_loop words n [p..<p + k] window syncs) =
    set syncs \<union> {(q - 15) mod n | q. p \<le> q \<and> q < p + k \<and> 15 \<le> q \<and> sync_word words n (q - 15)}"
  using assms
proof (induction k arbitrary: p window syncs)
  case (Suc k)
  let ?w = "push_bit 1 window OR of_bool (bit_at words n p)"
  have w: "window_at words n (Suc p) ?w" by (rule window_at_step [OF Suc.prems])
  have "[p..<p + Suc k] = p # [Suc p..<Suc p + k]"
    by (simp add: upt_conv_Cons del: upt_Suc)
  then have "set (sync_loop words n [p..<p + Suc k] window syncs) =
    (if 15 \<le> p \<and> sync_word words n (p - 15) then insert ((p - 15) mod n) (set syncs) else set syncs) \<union>
    {(q - 15) mod n | q. Suc p \<le> q \<and> q < Suc p + k \<and> 15 \<le> q \<and> sync_word words n (q - 15)}"
    using Suc.IH [OF w] window_at_sync [OF w] by (auto simp: Let_def simp del: upt_Suc)
  also have "\<dots> = set syncs \<union>
    {(q - 15) mod n | q. p \<le> q \<and> q < p + Suc k \<and> 15 \<le> q \<and> sync_word words n (q - 15)}"
    by (auto simp: not_less_eq_eq le_eq_less_or_eq Suc_le_eq)
  finally show ?case .
qed auto

lemma distinct_sync_loop: "distinct syncs \<Longrightarrow> distinct (sync_loop words n ps window syncs)"
  by (induction words n ps window syncs rule: sync_loop.induct) (simp_all add: Let_def)

lemma distinct_find_syncs: "distinct (find_syncs words n)"
  by (simp add: find_syncs_def distinct_sync_loop)

lemma set_find_syncs: "0 < n \<Longrightarrow> set (find_syncs words n) = {s. s < n \<and> sync_word words n s}"
proof -
  assume n: "0 < n"
  have "window_at words n 0 0" by (simp add: window_at_def)
  from sync_loop_spec [OF this, of "n + 15" "[]"]
  have "set (find_syncs words n) =
    {(q - 15) mod n | q. q < n + 15 \<and> 15 \<le> q \<and> sync_word words n (q - 15)}"
    by (simp add: find_syncs_def)
  also have "\<dots> = {s. s < n \<and> sync_word words n s}"
  proof (intro equalityI subsetI)
    fix s assume "s \<in> {s. s < n \<and> sync_word words n s}"
    then show "s \<in> {(q - 15) mod n | q. q < n + 15 \<and> 15 \<le> q \<and> sync_word words n (q - 15)}"
      by (intro CollectI exI [of _ "s + 15"]) simp
  qed auto
  finally show ?thesis .
qed

section \<open>One sync\<close>

text \<open>
  What the loop body decides about a sync, as predicates on the ring: it starts a sector (a
  second sync follows, none precedes), its header is of an AmigaDOS sector and checks out, its
  data checks out.
\<close>

definition sector_start :: "u16 list \<Rightarrow> nat \<Rightarrow> nat \<Rightarrow> bool" where
  "sector_start words n s \<longleftrightarrow>
     sync_word words n (s + 16) \<and> \<not> sync_word words n (s + n - 16)"

definition sector_info :: "u16 list \<Rightarrow> nat \<Rightarrow> nat \<Rightarrow> u32" where
  "sector_info words n s = deinterleave (long_at words n (s + 32)) (long_at words n (s + 32 + 32))"

definition sector_id :: "u16 list \<Rightarrow> nat \<Rightarrow> nat \<Rightarrow> nat" where
  "sector_id words n s = unat (be_byte (sector_info words n s) 2)"

definition header_ok :: "u16 list \<Rightarrow> nat \<Rightarrow> nat \<Rightarrow> bool" where
  "header_ok words n s \<longleftrightarrow>
     be_byte (sector_info words n s) 0 = 0xff \<and> sector_id words n s < HD_SECTORS \<and>
     header_sum words n (s + 32) =
     deinterleave (long_at words n (s + 32 + 320)) (long_at words n (s + 32 + 352))"

definition data_ok :: "u16 list \<Rightarrow> nat \<Rightarrow> nat \<Rightarrow> bool" where
  "data_ok words n s \<longleftrightarrow>
     data_sum words n (s + 32 + 448) =
     deinterleave (long_at words n (s + 32 + 384)) (long_at words n (s + 32 + 416))"

definition valid_header :: "u16 list \<Rightarrow> nat \<Rightarrow> nat \<Rightarrow> bool" where
  "valid_header words n s \<longleftrightarrow> sector_start words n s \<and> header_ok words n s"

text \<open>Everything is read through the ring, so only the position modulo its length matters.\<close>

lemma bit_at_mod: "p mod n = q mod n \<Longrightarrow> bit_at words n p = bit_at words n q"
  by (simp add: bit_at_def)

lemma long_at_mod: "p mod n = q mod n \<Longrightarrow> long_at words n p = long_at words n q"
proof -
  assume "p mod n = q mod n"
  then have "bit_at words n (p + i) = bit_at words n (q + i)" for i
    by (intro bit_at_mod) (metis mod_add_left_eq)
  then show ?thesis by (simp only: long_at_def)
qed

lemma sync_word_alt: "sync_word words n s \<longleftrightarrow> (\<forall>j < 16. bit_at words n (s + j) \<longleftrightarrow> bit (0x4489 :: u16) (15 - j))"
  (is "?L \<longleftrightarrow> ?R")
proof
  assume L: ?L
  show ?R
  proof (rule allI, rule impI)
    fix j :: nat assume "j < 16"
    then have "15 - j < 16" "s + 15 - (15 - j) = s + j" by simp_all
    then show "bit_at words n (s + j) \<longleftrightarrow> bit (0x4489 :: u16) (15 - j)"
      using L unfolding sync_word_def by metis
  qed
next
  assume R: ?R
  show ?L
    unfolding sync_word_def
  proof (rule allI, rule impI)
    fix i :: nat assume "i < 16"
    then have "15 - i < 16" "s + 15 - i = s + (15 - i)" "15 - (15 - i) = i" by simp_all
    then show "bit_at words n (s + 15 - i) \<longleftrightarrow> bit (0x4489 :: u16) i"
      using R by metis
  qed
qed

lemma sync_word_mod: "p mod n = q mod n \<Longrightarrow> sync_word words n p = sync_word words n q"
proof -
  assume "p mod n = q mod n"
  then have "bit_at words n (p + i) = bit_at words n (q + i)" for i
    by (intro bit_at_mod) (metis mod_add_left_eq)
  then show ?thesis by (simp only: sync_word_alt)
qed

lemma mem_find_syncs:
  assumes "0 < n"
  shows "p mod n \<in> set (find_syncs words n) \<longleftrightarrow> sync_word words n p"
  using assms sync_word_mod [of "p mod n" n p words] by (simp add: set_find_syncs)

lemma scan_sync_eq:
  assumes "0 < n"
  shows "scan_sync words n (find_syncs words n) s (h, good) =
    (if \<not> valid_header words n s then (h, good)
     else (h + 1, if data_ok words n s then good[sector_id words n s := True] else good))"
  unfolding scan_sync_def split Let_def mem_find_syncs [OF assms] valid_header_def sector_start_def
    header_ok_def data_ok_def sector_id_def sector_info_def
  by (simp add: not_le)

section \<open>The verdict as a function of two sets\<close>

definition valid_syncs :: "u16 list \<Rightarrow> nat \<Rightarrow> nat set" where
  "valid_syncs words n = {s. s < n \<and> sync_word words n s \<and> valid_header words n s}"

definition good_sectors :: "u16 list \<Rightarrow> nat \<Rightarrow> nat set" where
  "good_sectors words n = sector_id words n ` {s \<in> valid_syncs words n. data_ok words n s}"

lemma fold_scan_sync:
  assumes "0 < n" and "length good = HD_SECTORS"
  shows "fold (scan_sync words n (find_syncs words n)) xs (h, good) =
    (h + length (filter (valid_header words n) xs),
     map (\<lambda>i. good ! i \<or> (\<exists>s \<in> set xs. valid_header words n s \<and> data_ok words n s \<and>
             sector_id words n s = i)) [0..<HD_SECTORS])"
  using assms(2)
proof (induction xs arbitrary: h good)
  case Nil
  then show ?case by (simp add: list_eq_iff_nth_eq)
next
  case (Cons x xs)
  moreover have "valid_header words n x \<Longrightarrow> sector_id words n x < length good"
    using Cons.prems by (simp add: valid_header_def header_ok_def)
  ultimately show ?case
    by (cases "valid_header words n x") (auto simp: scan_sync_eq [OF assms(1)] nth_list_update)
qed

text \<open>An iteration order of a set visits each element once.\<close>

definition visits_each_once :: "(nat list \<Rightarrow> nat list) \<Rightarrow> bool" where
  "visits_each_once order \<longleftrightarrow> (\<forall>xs. mset (order xs) = mset xs)"

definition scan_verdict :: "nat \<Rightarrow> nat \<Rightarrow> nat \<Rightarrow> revolution_scan" where
  "scan_verdict bit_len headers good =
     (let expected = (if bit_len > HD_BIT_THRESHOLD then HD_SECTORS else DD_SECTORS)
      in if good = expected then CleanAmigaDos (of_nat expected)
         else if headers + 1 \<ge> expected then DamagedAmigaDos (of_nat good) (of_nat expected)
         else Unrecognised)"

lemma as_u8_small: "n \<le> HD_SECTORS \<Longrightarrow> as_u8 n = of_nat n"
  by (simp add: as_u8_def try_u8_def scan_defs)

lemma good_sectors_less: "good_sectors words n \<subseteq> {..<HD_SECTORS}"
  by (auto simp: good_sectors_def valid_syncs_def valid_header_def header_ok_def)

lemma card_good_sectors: "card (good_sectors words n) \<le> HD_SECTORS"
  using card_mono [OF finite_lessThan good_sectors_less [of words n]] by simp

lemma fold_scan_counts:
  assumes "0 < n" and "mset xs = mset (find_syncs words n)"
  shows "fold (scan_sync words n (find_syncs words n)) xs (0, replicate HD_SECTORS False) =
    (card (valid_syncs words n), map (\<lambda>i. i \<in> good_sectors words n) [0..<HD_SECTORS])"
proof -
  have set: "set xs = {s. s < n \<and> sync_word words n s}"
    using assms(2) set_find_syncs [OF assms(1), of words] by (metis set_mset_mset)
  have "distinct xs"
    using assms(2) distinct_find_syncs [of words n] by (metis mset_eq_imp_distinct_iff)
  then have "length (filter (valid_header words n) xs) = card (set (filter (valid_header words n) xs))"
    by (intro distinct_card [symmetric] distinct_filter)
  also have "set (filter (valid_header words n) xs) = valid_syncs words n"
    by (auto simp: set valid_syncs_def)
  finally have len: "length (filter (valid_header words n) xs) = card (valid_syncs words n)" .
  have "(\<exists>s \<in> set xs. valid_header words n s \<and> data_ok words n s \<and> sector_id words n s = i) \<longleftrightarrow>
      i \<in> good_sectors words n" for i
    by (auto simp: set good_sectors_def valid_syncs_def)
  then show ?thesis
    using fold_scan_sync [OF assms(1), of "replicate HD_SECTORS False" words xs 0] len
    by (auto intro!: map_cong)
qed

lemma scan_revolution_verdict:
  assumes "visits_each_once order" and "64 \<le> n" and "n \<le> length words * 16"
  shows "scan_revolution order words n =
    scan_verdict n (card (valid_syncs words n)) (card (good_sectors words n))"
proof -
  have "length (filter (\<lambda>i. i \<in> good_sectors words n) [0..<HD_SECTORS]) = card (good_sectors words n)"
  proof -
    have "length (filter (\<lambda>i. i \<in> good_sectors words n) [0..<HD_SECTORS]) =
        card (set (filter (\<lambda>i. i \<in> good_sectors words n) [0..<HD_SECTORS]))"
      by (intro distinct_card [symmetric] distinct_filter distinct_upt)
    also have "set (filter (\<lambda>i. i \<in> good_sectors words n) [0..<HD_SECTORS]) = good_sectors words n"
      using good_sectors_less [of words n] by auto
    finally show ?thesis .
  qed
  then have good: "length (filter (\<lambda>v. v) (map (\<lambda>i. i \<in> good_sectors words n) [0..<HD_SECTORS])) =
      card (good_sectors words n)"
    by (simp add: filter_map comp_def)
  have f: "fold (scan_sync words n (find_syncs words n)) (order (find_syncs words n))
        (0, replicate HD_SECTORS False) =
      (card (valid_syncs words n), map (\<lambda>i. i \<in> good_sectors words n) [0..<HD_SECTORS])"
    using assms(1,2) by (intro fold_scan_counts) (simp_all add: visits_each_once_def)
  have "\<not> (n < 64 \<or> words = [] \<or> length words * 16 < n)" using assms(2,3) by auto
  then show ?thesis
    unfolding scan_revolution_def Let_def f split good scan_verdict_def
    using as_u8_small [OF card_good_sectors [of words n]] as_u8_small [of DD_SECTORS]
      as_u8_small [of HD_SECTORS]
    by (simp add: scan_defs(1,2))
qed

section \<open>The cut does not matter\<close>

lemma bit_at_rotated:
  assumes "rotate_revolution ws n r = Inr vs"
  shows "bit_at vs n p = bit_at ws n (p + r)"
proof -
  have n: "0 < n" and vs: "vs = pack_bits (rotate r (unpack ws n))"
    using assms by (simp_all add: rotate_revolution_Inr)
  have "unpack vs n = rotate r (unpack ws n)" unfolding vs by (rule unpack_rotate)
  then have "packed_bit vs (p mod n) = rotate r (unpack ws n) ! (p mod n)"
    using n by (metis nth_unpack mod_less_divisor)
  also have "\<dots> = packed_bit ws ((r + p mod n) mod n)"
    using n by (simp add: nth_rotate)
  finally show ?thesis by (simp add: bit_at_def mod_add_right_eq add.commute)
qed

lemma long_at_rotated:
  assumes "rotate_revolution ws n r = Inr vs"
  shows "long_at vs n p = long_at ws n (p + r)"
  unfolding long_at_def bit_at_rotated [OF assms] by (simp only: add.assoc add.commute add.left_commute)

lemma sync_word_rotated:
  assumes "rotate_revolution ws n r = Inr vs"
  shows "sync_word vs n p = sync_word ws n (p + r)"
  unfolding sync_word_alt bit_at_rotated [OF assms] by (simp only: add.assoc add.commute add.left_commute)

lemma sums_rotated:
  assumes "rotate_revolution ws n r = Inr vs"
  shows "header_sum vs n p = header_sum ws n (p + r)" "data_sum vs n p = data_sum ws n (p + r)"
  unfolding header_sum_def data_sum_def Let_def long_at_rotated [OF assms]
  by (simp_all only: ac_simps)

lemma sector_rotated:
  assumes "rotate_revolution ws n r = Inr vs" and "16 \<le> n"
  shows "valid_header vs n s = valid_header ws n (s + r)" "data_ok vs n s = data_ok ws n (s + r)"
    "sector_id vs n s = sector_id ws n (s + r)"
proof -
  have e: "s + n - 16 + r = s + r + n - 16" using assms(2) by simp
  show "valid_header vs n s = valid_header ws n (s + r)" "data_ok vs n s = data_ok ws n (s + r)"
    "sector_id vs n s = sector_id ws n (s + r)"
    unfolding valid_header_def data_ok_def sector_id_def sector_start_def header_ok_def
      sector_info_def long_at_rotated [OF assms(1)] sync_word_rotated [OF assms(1)]
      sums_rotated [OF assms(1)] e
    by (simp_all only: ac_simps)
qed

lemma shift_mod: "p mod n = q mod n \<Longrightarrow> (p + k) mod n = (q + k) mod (n :: nat)"
  by (metis mod_add_left_eq)

lemma sums_mod:
  assumes "p mod n = q mod n"
  shows "header_sum words n p = header_sum words n q" "data_sum words n p = data_sum words n q"
proof -
  have l: "long_at words n (p + k) = long_at words n (q + k)" for k
    by (rule long_at_mod) (rule shift_mod [OF assms])
  then have "long_at words n p = long_at words n q" using l [of 0] by simp
  with l show "header_sum words n p = header_sum words n q" "data_sum words n p = data_sum words n q"
    unfolding header_sum_def data_sum_def Let_def add.assoc by (simp_all only:)
qed

lemma sector_mod:
  assumes "p mod n = q mod n" and "16 \<le> n"
  shows "valid_header words n p = valid_header words n q" "data_ok words n p = data_ok words n q"
    "sector_id words n p = sector_id words n q"
proof -
  have l: "long_at words n (p + k) = long_at words n (q + k)" for k
    by (rule long_at_mod) (rule shift_mod [OF assms(1)])
  have y: "sync_word words n (p + k) = sync_word words n (q + k)" for k
    by (rule sync_word_mod) (rule shift_mod [OF assms(1)])
  have "p + n - 16 = p + (n - 16)" "q + n - 16 = q + (n - 16)" using assms(2) by simp_all
  then have s: "sync_word words n (p + n - 16) = sync_word words n (q + n - 16)"
    using y by simp
  note h = sums_mod [OF shift_mod [OF assms(1)]]
  show "valid_header words n p = valid_header words n q" "data_ok words n p = data_ok words n q"
    "sector_id words n p = sector_id words n q"
    unfolding valid_header_def data_ok_def sector_id_def sector_start_def header_ok_def
      sector_info_def s y add.assoc
    by (simp_all only: l h)
qed

lemma valid_syncs_rotated:
  assumes "rotate_revolution ws n r = Inr vs" and "16 \<le> n"
  shows "(\<lambda>s. (s + r) mod n) ` valid_syncs vs n = valid_syncs ws n"
proof -
  have n: "0 < n" using assms(2) by simp
  have eq: "s \<in> valid_syncs vs n \<longleftrightarrow> s < n \<and> (s + r) mod n \<in> valid_syncs ws n" for s
  proof -
    have m: "(s + r) mod n mod n = (s + r) mod n" by simp
    show ?thesis
      using n sync_word_mod [OF m] sector_mod(1) [OF m assms(2)]
      by (simp add: valid_syncs_def sync_word_rotated [OF assms(1)] sector_rotated(1) [OF assms])
  qed
  show ?thesis
  proof (intro equalityI subsetI)
    fix t assume t: "t \<in> valid_syncs ws n"
    then have "t < n" by (simp add: valid_syncs_def)
    define s where "s = (t + (n - r mod n)) mod n"
    have "(s + r) mod n = (t + (n - r mod n) + r mod n) mod n"
      unfolding s_def by (metis mod_add_left_eq mod_add_right_eq)
    also have "t + (n - r mod n) + r mod n = t + n"
      using mod_less_divisor [OF n, of r] by linarith
    also have "(t + n) mod n = t" using \<open>t < n\<close> by simp
    finally have st: "(s + r) mod n = t" .
    then have "s \<in> valid_syncs vs n" using eq [of s] t n by (simp add: s_def)
    then show "t \<in> (\<lambda>s. (s + r) mod n) ` valid_syncs vs n" using st by blast
  qed (use eq in auto)
qed

lemma shift_inj: "0 < n \<Longrightarrow> inj_on (\<lambda>s. (s + r) mod n) {s. s < (n::nat)}"
proof (rule inj_onI)
  fix x y assume "0 < n" "x \<in> {s. s < n}" "y \<in> {s. s < n}" "(x + r) mod n = (y + r) mod n"
  moreover from this(4) obtain a b where "x + r + n * a = y + r + n * b"
    by (auto simp: nat_mod_eq_iff)
  then have "x + n * a = y + n * b" by simp
  then have "(x + n * a) mod n = (y + n * b) mod n" by simp
  ultimately show "x = y" by simp
qed

lemma rotated_counts:
  assumes "rotate_revolution ws n r = Inr vs" and "16 \<le> n"
  shows "card (valid_syncs vs n) = card (valid_syncs ws n)" "good_sectors vs n = good_sectors ws n"
proof -
  have "0 < n" using assms(2) by simp
  have "inj_on (\<lambda>s. (s + r) mod n) (valid_syncs vs n)"
    by (rule inj_on_subset [OF shift_inj [OF \<open>0 < n\<close>]]) (auto simp: valid_syncs_def)
  then show "card (valid_syncs vs n) = card (valid_syncs ws n)"
    using valid_syncs_rotated [OF assms] by (metis card_image)
  have m: "((s + r) mod n) mod n = (s + r) mod n" for s by simp
  have d: "data_ok ws n ((s + r) mod n) = data_ok vs n s"
    and i: "sector_id ws n ((s + r) mod n) = sector_id vs n s" for s
    using sector_mod(2,3) [OF m assms(2)] by (simp_all only: sector_rotated(2,3) [OF assms])
  have "good_sectors ws n =
      sector_id ws n ` {t \<in> (\<lambda>s. (s + r) mod n) ` valid_syncs vs n. data_ok ws n t}"
    by (simp only: good_sectors_def valid_syncs_rotated [OF assms])
  also have "{t \<in> (\<lambda>s. (s + r) mod n) ` valid_syncs vs n. data_ok ws n t} =
      (\<lambda>s. (s + r) mod n) ` {s \<in> valid_syncs vs n. data_ok vs n s}"
    unfolding d [symmetric] by blast
  also have "sector_id ws n ` \<dots> = sector_id vs n ` {s \<in> valid_syncs vs n. data_ok vs n s}"
    by (simp only: image_image i)
  finally show "good_sectors vs n = good_sectors ws n" by (simp add: good_sectors_def)
qed

section \<open>Properties\<close>

text \<open>
  C2: The scan's verdict means what it says, in whatever order the hash set is visited: a
  clean track has exactly the density's number of distinct sectors that sit behind a double sync
  with valid header and data checksums; a damaged one reports their number, and all but at most
  one expected header were found; otherwise the lengths are malformed or headers are missing.
\<close>

theorem scan_verdict_sound:
  assumes "visits_each_once order"
  shows "let expected = (if 150000 < n then 22 else 11) in
    case scan_revolution order ws n of
      CleanAmigaDos k \<Rightarrow> 64 \<le> n \<and> n \<le> length ws * 16 \<and> unat k = expected \<and>
        card (good_sectors ws n) = expected
    | DamagedAmigaDos g e \<Rightarrow> 64 \<le> n \<and> n \<le> length ws * 16 \<and> unat e = expected \<and>
        unat g = card (good_sectors ws n) \<and> unat g \<noteq> expected \<and>
        expected \<le> card (valid_syncs ws n) + 1
    | Unrecognised \<Rightarrow> n < 64 \<or> length ws * 16 < n \<or> card (valid_syncs ws n) + 1 < expected"
proof (cases "64 \<le> n \<and> n \<le> length ws * 16")
  case True
  have g: "unat (of_nat (card (good_sectors ws n)) :: u8) = card (good_sectors ws n)"
    using card_good_sectors [of ws n] by (simp add: unat_of_nat scan_defs)
  have v: "scan_revolution order ws n =
      scan_verdict n (card (valid_syncs ws n)) (card (good_sectors ws n))"
    using scan_revolution_verdict [OF assms] True by blast
  define e :: nat where "e = (if 150000 < n then 22 else 11)"
  have e: "unat (of_nat e :: u8) = e" by (simp add: e_def)
  have s: "scan_verdict n h k = (if k = e then CleanAmigaDos (of_nat e)
      else if e \<le> h + 1 then DamagedAmigaDos (of_nat k) (of_nat e) else Unrecognised)" for h k
    by (simp add: scan_verdict_def scan_defs e_def)
  show ?thesis
    unfolding v s e_def [symmetric] Let_def
    by (simp add: True g e not_le)
next
  case False
  then have "scan_revolution order ws n = Unrecognised"
    by (auto simp: scan_revolution_def)
  then show ?thesis using False by auto
qed

theorem scan_verdict_sound_witness:
  "scan_revolution rev [0, 0, 0, 0] 64 = Unrecognised \<and> card (valid_syncs [0, 0, 0, 0] 64) + 1 < 11"
proof -
  define ws :: "u16 list" where "ws = [0, 0, 0, 0]"
  have len: "length ws = 4" by (simp add: ws_def)
  have "ws ! i = 0" if "i < 4" for i using that by (auto simp: ws_def less_Suc_eq numeral_eq_Suc)
  then have "\<not> bit_at ws 64 p" for p by (simp add: bit_at_def packed_bit_def)
  moreover have "bit (0x4489 :: u16) (15 - 1)" by code_simp
  ultimately have "bit_at ws 64 (s + 1) \<noteq> bit (0x4489 :: u16) (15 - 1)" for s by blast
  moreover have "(1 :: nat) < 16" by simp
  ultimately have "\<not> sync_word ws 64 s" for s unfolding sync_word_alt by blast
  then have none: "valid_syncs ws 64 = {}" by (simp add: valid_syncs_def)
  have order: "visits_each_once rev" by (simp add: visits_each_once_def)
  have "scan_revolution rev ws 64 = Unrecognised"
    using scan_revolution_verdict [OF order, of 64 ws] len none
    by (simp add: scan_verdict_def good_sectors_def scan_defs)
  moreover from this have "card (valid_syncs ws 64) + 1 < 11"
    using scan_verdict_sound [OF order, of 64 ws] len by simp
  ultimately show ?thesis by (simp only: ws_def)
qed

text \<open>
  C8: Where the ring was cut does not change the verdict: any rotation of a revolution scans
  the same, and so does any other order of visiting the syncs.
\<close>

theorem scan_rotation_invariant:
  assumes "rotate_revolution ws n r = Inr vs"
    and "visits_each_once order" and "visits_each_once order'"
  shows "scan_revolution order vs n = scan_revolution order' ws n"
proof (cases "64 \<le> n")
  case True
  have n: "n \<le> length ws * 16" and vs: "vs = pack_bits (rotate r (unpack ws n))"
    using assms(1) by (simp_all add: rotate_revolution_Inr)
  have "n \<le> length vs * 16"
    using pack_bits_fits [of "rotate r (unpack ws n)"] by (simp add: vs mult.commute)
  then show ?thesis
    using True n rotated_counts [OF assms(1)] scan_revolution_verdict [OF assms(2) True]
      scan_revolution_verdict [OF assms(3) True] by simp
next
  case False
  then show ?thesis by (simp add: scan_revolution_def)
qed

theorem scan_rotation_invariant_witness:
  "scan_revolution rev [0x4489, 0x2aaa, 0x5555, 0x4489] 64 =
   scan_revolution id [0x4489, 0x4489, 0x2aaa, 0x5555] 64"
proof (rule scan_rotation_invariant)
  show "rotate_revolution [0x4489, 0x4489, 0x2aaa, 0x5555] 64 16 =
      Inr [0x4489, 0x2aaa, 0x5555, 0x4489]" by code_simp
qed (simp_all add: visits_each_once_def)

end
