(* ===== verification/Transport.thy ===== *)
theory Transport
  imports Types
begin

text \<open>
  Bounded serial and direct-FTDI transports (\<^verbatim>\<open>src/transport/mod.rs\<close>).

  A \<^verbatim>\<open>dyn Transport\<close> is a record of operations on the state \<open>'w\<close> of the world
  behind it (the port, the host's clock). The libraries \<^verbatim>\<open>serialport\<close> and
  \<^verbatim>\<open>ftdi_nusb\<close> are not part of the crate: they are the record \<open>port_lib\<close>, an
  argument of the definitions that use them, and what is relied on of them is the predicate
  \<open>transport_laws\<close>. The three bounded loops are partial functions whose value \<open>None\<close>
  would be a loop that never ends; the properties show it does not occur.
\<close>

section \<open>The transport interface\<close>

text \<open>
  \<open>tr_read n\<close> fills at most \<open>n\<close> bytes and returns those it wrote; \<open>tr_write\<close>
  returns how many bytes of its input it took; \<open>tr_now\<close> is \<^verbatim>\<open>Instant::now\<close>,
  in nanoseconds.
\<close>

record 'w transport =
  tr_now :: "'w \<Rightarrow> nat \<times> 'w"
  tr_read :: "nat \<Rightarrow> (io_error, 'w, u8 list) eio"
  tr_write :: "u8 list \<Rightarrow> (io_error, 'w, nat) eio"
  tr_flush :: "(io_error, 'w, unit) eio"
  tr_set_timeout :: "nat \<Rightarrow> ('w, unit) io"
  tr_set_cts_flow_control :: "bool \<Rightarrow> ('w, unit) io"
  tr_set_dtr :: "bool \<Rightarrow> ('w, unit) io"
  tr_set_rts :: "bool \<Rightarrow> ('w, unit) io"
  tr_purge :: "('w, unit) io"

definition millis :: "nat \<Rightarrow> nat" where "millis n = n * 10 ^ 6"
definition secs :: "nat \<Rightarrow> nat" where "secs n = n * 10 ^ 9"

definition DEFAULT_TIMEOUT :: nat where "DEFAULT_TIMEOUT = millis 250"

definition tr_instant :: "'w transport \<Rightarrow> ('w, nat) io" where
  "tr_instant T w = (let (t, w') = tr_now T w in Some (Inr t, w'))"

text \<open>
  \<^verbatim>\<open>deadline.checked_duration_since(now)\<close>, bounded, as the timeout of the next call.
\<close>

definition arm_timeout :: "'w transport \<Rightarrow> nat \<Rightarrow> string \<Rightarrow> ('w, unit) io" where
  "arm_timeout T deadline operation =
     io_bind (tr_instant T) (\<lambda>now.
       if deadline < now then io_throw (Timeout operation)
       else tr_set_timeout T (min (deadline - now) DEFAULT_TIMEOUT))"

definition try_again :: "io_error \<Rightarrow> bool" where
  "try_again e \<longleftrightarrow> io_error_kind e = IoTimedOut \<or> io_error_kind e = IoWouldBlock"

text \<open>A call whose error is handed on as a value.\<close>

definition attempt :: "('e, 'w, 'a) eio \<Rightarrow> ('w, 'e + 'a) io" where
  "attempt m w = (case m w of None \<Rightarrow> None | Some (r, w') \<Rightarrow> Some (Inr r, w'))"

lemma io_bind_mono [partial_function_mono]:
  assumes "\<And>a w. mono_option (\<lambda>f. B f a w)"
  shows "mono_option (\<lambda>f. io_bind m (B f) w)"
  using assms unfolding io_bind_def
  by (auto simp: monotone_def flat_ord_def fun_ord_def split: option.split sum.split)

section \<open>The bounded loops\<close>

text \<open>
  A slice that is consumed from the front is the pair of what is still missing and what has
  been stored so far.
\<close>

partial_function (option) read_exact_loop ::
  "'w transport \<Rightarrow> nat \<Rightarrow> string \<Rightarrow> nat \<Rightarrow> u8 list \<Rightarrow> ('w, u8 list) io" where
  "read_exact_loop T deadline operation missing stored w =
     (if missing = 0 then io_return stored w
      else io_bind (arm_timeout T deadline operation) (\<lambda>_.
        io_bind (attempt (tr_read T missing)) (\<lambda>r w.
          case r of
            Inl e \<Rightarrow>
              if try_again e then read_exact_loop T deadline operation missing stored w
              else io_throw (Io e) w
          | Inr bytes \<Rightarrow>
              if bytes = [] then io_throw Disconnected w
              else read_exact_loop T deadline operation (missing - length bytes)
                     (stored @ bytes) w)) w)"

definition read_exact_until ::
  "'w transport \<Rightarrow> nat \<Rightarrow> nat \<Rightarrow> string \<Rightarrow> ('w, u8 list) io" where
  "read_exact_until T len deadline operation = read_exact_loop T deadline operation len []"

definition CHUNK :: nat where "CHUNK = 8 * 1024"

partial_function (option) read_terminated_loop ::
  "'w transport \<Rightarrow> nat \<Rightarrow> nat \<Rightarrow> string \<Rightarrow> u8 list \<Rightarrow> ('w, u8 list) io" where
  "read_terminated_loop T deadline limit operation stream w =
     (if length stream \<ge> limit then io_return stream w
      else io_bind (arm_timeout T deadline operation) (\<lambda>_.
        io_bind (attempt (tr_read T CHUNK)) (\<lambda>r w.
          case r of
            Inl e \<Rightarrow>
              if try_again e then read_terminated_loop T deadline limit operation stream w
              else io_throw (Io e) w
          | Inr bytes \<Rightarrow>
              if bytes = [] then io_throw Disconnected w
              else if 0 \<in> set bytes
                then io_return (stream @ takeWhile (\<lambda>byte. byte \<noteq> 0) bytes) w
              else read_terminated_loop T deadline limit operation (stream @ bytes) w)) w)"

definition read_terminated_until ::
  "'w transport \<Rightarrow> nat \<Rightarrow> nat \<Rightarrow> string \<Rightarrow> ('w, u8 list) io" where
  "read_terminated_until T deadline limit operation =
     read_terminated_loop T deadline limit operation []"

partial_function (option) write_all_loop ::
  "'w transport \<Rightarrow> nat \<Rightarrow> string \<Rightarrow> u8 list \<Rightarrow> ('w, unit) io" where
  "write_all_loop T deadline operation input w =
     (if input = [] then
        io_bind (attempt (tr_flush T)) (\<lambda>r.
          case r of Inl e \<Rightarrow> io_throw (Io e) | Inr u \<Rightarrow> io_return u) w
      else io_bind (arm_timeout T deadline operation) (\<lambda>_.
        io_bind (attempt (tr_write T input)) (\<lambda>r w.
          case r of
            Inl e \<Rightarrow>
              if try_again e then write_all_loop T deadline operation input w
              else io_throw (Io e) w
          | Inr written \<Rightarrow>
              if written = 0 then io_throw Disconnected w
              else write_all_loop T deadline operation (drop written input) w)) w)"

definition write_all_until ::
  "'w transport \<Rightarrow> u8 list \<Rightarrow> nat \<Rightarrow> string \<Rightarrow> ('w, unit) io" where
  "write_all_until T input deadline operation = write_all_loop T deadline operation input"

section \<open>The libraries behind it\<close>

text \<open>
  The parts of \<^verbatim>\<open>serialport\<close> and \<^verbatim>\<open>ftdi_nusb\<close> the crate calls. Errors of
  the former carry a kind and a text; of the latter only the text is used.
\<close>

datatype sp_error_kind = SpNoDevice | SpInvalidInput | SpUnknown | SpIo io_kind

record sp_error =
  spe_kind :: sp_error_kind
  spe_message :: string

datatype sp_port_type =
    SpUsbPort u16 u16 "string option" "string option"
  | SpOtherPort

record sp_port =
  spp_name :: string
  spp_type :: sp_port_type

record ftdi_info =
  fdi_serial :: "string option"
  fdi_product :: "string option"

datatype ftdi_selector = FtdiIndex nat | FtdiSerial string

record 'w port_lib =
  pl_now :: "'w \<Rightarrow> nat \<times> 'w"
  pl_sleep :: "nat \<Rightarrow> 'w \<Rightarrow> 'w"
  sp_available :: "(sp_error, 'w, sp_port list) eio"
  sp_open :: "string \<Rightarrow> u32 \<Rightarrow> nat \<Rightarrow> bool \<Rightarrow> (sp_error, 'w, unit) eio"
  sp_read :: "nat \<Rightarrow> (io_error, 'w, u8 list) eio"
  sp_write :: "u8 list \<Rightarrow> (io_error, 'w, nat) eio"
  sp_flush :: "(io_error, 'w, unit) eio"
  sp_set_timeout :: "nat \<Rightarrow> (sp_error, 'w, unit) eio"
  sp_set_hardware_flow :: "bool \<Rightarrow> (sp_error, 'w, unit) eio"
  sp_dtr :: "bool \<Rightarrow> (sp_error, 'w, unit) eio"
  sp_rts :: "bool \<Rightarrow> (sp_error, 'w, unit) eio"
  sp_clear_all :: "(sp_error, 'w, unit) eio"
  fd_find :: "u16 \<Rightarrow> u16 \<Rightarrow> (string, 'w, ftdi_info list) eio"
  fd_open :: "u16 \<Rightarrow> u16 \<Rightarrow> ftdi_selector \<Rightarrow> (string, 'w, unit) eio"
  fd_read :: "nat \<Rightarrow> (string, 'w, u8 list) eio"
  fd_write :: "u8 list \<Rightarrow> (string, 'w, nat) eio"
  fd_flush :: "(string, 'w, unit) eio"
  fd_set_read_timeout :: "nat \<Rightarrow> 'w \<Rightarrow> 'w"
  fd_set_write_timeout :: "nat \<Rightarrow> 'w \<Rightarrow> 'w"
  fd_set_rts_cts :: "bool \<Rightarrow> (string, 'w, unit) eio"
  fd_dtr :: "bool \<Rightarrow> (string, 'w, unit) eio"
  fd_rts :: "bool \<Rightarrow> (string, 'w, unit) eio"
  fd_flush_all :: "(string, 'w, unit) eio"
  fd_set_baudrate :: "u32 \<Rightarrow> (string, 'w, unit) eio"
  fd_set_line_8n1 :: "(string, 'w, unit) eio"

subsection \<open>Serial ports\<close>

definition map_error :: "sp_error \<Rightarrow> error" where
  "map_error e =
     (case spe_kind e of
        SpNoDevice \<Rightarrow> PortNotFound (spe_message e)
      | SpIo IoPermissionDenied \<Rightarrow> PermissionDenied (spe_message e)
      | SpIo IoWouldBlock \<Rightarrow> PortInUse (spe_message e)
      | SpIo kind \<Rightarrow> Io (IoError kind (spe_message e))
      | SpInvalidInput \<Rightarrow> Protocol (spe_message e)
      | SpUnknown \<Rightarrow> Protocol (spe_message e))"

definition serial_transport :: "'w port_lib \<Rightarrow> 'w transport" where
  "serial_transport L =
     \<lparr>tr_now = pl_now L, tr_read = sp_read L, tr_write = sp_write L, tr_flush = sp_flush L,
      tr_set_timeout = (\<lambda>timeout. io_map_err map_error (sp_set_timeout L timeout)),
      tr_set_cts_flow_control = (\<lambda>enabled. io_map_err map_error (sp_set_hardware_flow L enabled)),
      tr_set_dtr = (\<lambda>asserted. io_map_err map_error (sp_dtr L asserted)),
      tr_set_rts = (\<lambda>asserted. io_map_err map_error (sp_rts L asserted)),
      tr_purge = io_map_err map_error (sp_clear_all L)\<rparr>"

definition serial_open :: "'w port_lib \<Rightarrow> port_id \<Rightarrow> u32 \<Rightarrow> nat \<Rightarrow> ('w, 'w transport) io" where
  "serial_open L port baud timeout =
     io_then (io_map_err map_error (sp_open L (port_str port) baud timeout True))
       (io_return (serial_transport L))"

definition is_openable :: "features \<Rightarrow> string \<Rightarrow> bool" where
  "is_openable feats port_name \<longleftrightarrow>
     (if target_macos feats then take 9 port_name \<noteq> ''/dev/tty.'' else True)"

definition serial_port_info :: "sp_port \<Rightarrow> port_info result" where
  "serial_port_info port =
     (let (vid, pid, serial_number, product) =
        (case spp_type port of
           SpUsbPort vid pid serial product \<Rightarrow> (Some vid, Some pid, serial, product)
         | SpOtherPort \<Rightarrow> (None, None, None, None))
      in case port_id_new (spp_name port) of
           Inl e \<Rightarrow> Inl e
         | Inr port_id \<Rightarrow>
             Inr \<lparr>pi_id = port_id,
                  pi_display_name =
                    (case product of None \<Rightarrow> spp_name port
                     | Some name \<Rightarrow> name @ '' ('' @ spp_name port @ '')''),
                  pi_vid = vid, pi_pid = pid, pi_serial_number = serial_number,
                  pi_product = product\<rparr>)"

text \<open>\<^verbatim>\<open>collect\<close> into a result: the first error wins.\<close>

fun collect_results :: "('e + 'a) list \<Rightarrow> 'e + 'a list" where
  "collect_results [] = Inr []"
| "collect_results (Inl e # rs) = Inl e"
| "collect_results (Inr a # rs) =
     (case collect_results rs of Inl e \<Rightarrow> Inl e | Inr as \<Rightarrow> Inr (a # as))"

definition serial_list :: "features \<Rightarrow> 'w port_lib \<Rightarrow> ('w, port_info list) io" where
  "serial_list feats L =
     io_bind (io_map_err map_error (sp_available L)) (\<lambda>ports.
       io_result (collect_results
         (map serial_port_info (filter (\<lambda>port. is_openable feats (spp_name port)) ports))))"

subsection \<open>Direct FTDI\<close>

definition FTDI_VID :: u16 where "FTDI_VID = 0x0403"
definition FTDI_PIDS :: "u16 list" where "FTDI_PIDS = [0x6001, 0x6010, 0x6011, 0x6014]"

definition io_other :: "string \<Rightarrow> io_error" where
  "io_other message = IoError IoOther message"

definition ftdi_transport :: "'w port_lib \<Rightarrow> 'w transport" where
  "ftdi_transport L =
     \<lparr>tr_now = pl_now L,
      tr_read = (\<lambda>n. io_map_err io_other (fd_read L n)),
      tr_write = (\<lambda>input. io_map_err io_other (fd_write L input)),
      tr_flush = io_map_err io_other (fd_flush L),
      tr_set_timeout = (\<lambda>timeout.
        io_modify (\<lambda>w. fd_set_write_timeout L timeout (fd_set_read_timeout L timeout w))),
      tr_set_cts_flow_control = (\<lambda>enabled. io_map_err Protocol (fd_set_rts_cts L enabled)),
      tr_set_dtr = (\<lambda>asserted. io_map_err Protocol (fd_dtr L asserted)),
      tr_set_rts = (\<lambda>asserted. io_map_err Protocol (fd_rts L asserted)),
      tr_purge = io_map_err Protocol (fd_flush_all L)\<rparr>"

definition ftdi_id_string :: "u16 \<Rightarrow> u16 \<Rightarrow> string \<Rightarrow> string" where
  "ftdi_id_string vid pid selector =
     ''ftdi:'' @ hex4 vid @ '':'' @ hex4 pid @ '':'' @ selector"

definition ftdi_port_info :: "u16 \<Rightarrow> nat \<Rightarrow> ftdi_info \<Rightarrow> port_info result" where
  "ftdi_port_info pid index device =
     (let serial = fdi_serial device;
          selector = (case serial of None \<Rightarrow> dec_string index | Some s \<Rightarrow> s);
          product = fdi_product device
      in case port_id_new (ftdi_id_string FTDI_VID pid selector) of
           Inl e \<Rightarrow> Inl e
         | Inr port_id \<Rightarrow>
             Inr \<lparr>pi_id = port_id,
                  pi_display_name =
                    (case (product, serial) of
                       (Some product, Some serial) \<Rightarrow>
                         product @ '' ('' @ serial @ '', direct USB)''
                     | (Some product, None) \<Rightarrow>
                         product @ '' (direct USB #'' @ dec_string index @ '')''
                     | _ \<Rightarrow> ''FTDI '' @ hex4 pid @ '' (direct USB #'' @ dec_string index @ '')''),
                  pi_vid = Some FTDI_VID, pi_pid = Some pid, pi_serial_number = serial,
                  pi_product = product\<rparr>)"

fun ftdi_list_pids :: "'w port_lib \<Rightarrow> u16 list \<Rightarrow> port_info list \<Rightarrow> ('w, port_info list) io" where
  "ftdi_list_pids L [] listed = io_return listed"
| "ftdi_list_pids L (pid # pids) listed =
     io_bind (io_map_err Protocol (fd_find L FTDI_VID pid)) (\<lambda>devices.
       io_bind (io_result (collect_results
           (map (\<lambda>(index, device). ftdi_port_info pid index device) (List.enumerate 0 devices))))
         (\<lambda>infos. ftdi_list_pids L pids (listed @ infos)))"

definition ftdi_list :: "'w port_lib \<Rightarrow> ('w, port_info list) io" where
  "ftdi_list L = ftdi_list_pids L FTDI_PIDS []"

text \<open>\<^verbatim>\<open>splitn(n, c)\<close>: at most \<open>n\<close> fields, the last one unsplit.\<close>

fun splitn :: "nat \<Rightarrow> char \<Rightarrow> string \<Rightarrow> string list" where
  "splitn 0 c s = []"
| "splitn (Suc 0) c s = [s]"
| "splitn (Suc (Suc n)) c s =
     (if c \<in> set s
      then takeWhile (\<lambda>d. d \<noteq> c) s # splitn (Suc n) c (tl (dropWhile (\<lambda>d. d \<noteq> c) s))
      else [s])"

definition parse_u16_hex :: "string \<Rightarrow> u16 option" where
  "parse_u16_hex s = map_option of_nat (parse_unsigned 16 65536 s)"

definition parse_usize :: "string \<Rightarrow> nat option" where
  "parse_usize s = parse_unsigned 10 (2 ^ 64) s"

definition ftdi_parse :: "port_id \<Rightarrow> (u16 \<times> u16 \<times> ftdi_selector) result" where
  "ftdi_parse port =
     (let malformed = Inl (InvalidConfig
            (''malformed direct FTDI port identifier '' @ port_str port))
      in case splitn 4 (CHR '':'') (port_str port) of
           [prefix, vid, pid, selector] \<Rightarrow>
             (case (parse_u16_hex vid, parse_u16_hex pid) of
                (Some vid, Some pid) \<Rightarrow>
                  if prefix = ''ftdi''
                  then Inr (vid, pid, case parse_usize selector of
                              Some index \<Rightarrow> FtdiIndex index | None \<Rightarrow> FtdiSerial selector)
                  else malformed
              | _ \<Rightarrow> malformed)
         | _ \<Rightarrow> malformed)"

definition ftdi_open :: "'w port_lib \<Rightarrow> port_id \<Rightarrow> u32 \<Rightarrow> nat \<Rightarrow> ('w, 'w transport) io" where
  "ftdi_open L port baud timeout =
     io_bind (io_result (ftdi_parse port)) (\<lambda>(vid, pid, selector).
       io_then (io_map_err PortNotFound (fd_open L vid pid selector))
        (io_then (io_map_err Protocol
            (io_then (fd_set_baudrate L baud)
              (io_then (fd_set_line_8n1 L) (fd_set_rts_cts L False))))
          (io_then (io_modify (\<lambda>w.
              fd_set_write_timeout L timeout (fd_set_read_timeout L timeout w)))
            (io_then (io_map_err Protocol (fd_flush_all L))
              (io_return (ftdi_transport L))))))"

subsection \<open>Opening and listing\<close>

definition transport_open ::
  "features \<Rightarrow> 'w port_lib \<Rightarrow> port_id \<Rightarrow> u32 \<Rightarrow> nat \<Rightarrow> ('w, 'w transport) io" where
  "transport_open feats L port baud timeout =
     (if is_direct_ftdi port
      then if feat_direct_ftdi feats then ftdi_open L port baud timeout
           else io_throw (InvalidConfig ''direct FTDI support is not compiled in'')
      else serial_open L port baud timeout)"

text \<open>\<^verbatim>\<open>dedup_by\<close>: drops an element equal to the last one kept.\<close>

fun dedup_ids :: "port_info list \<Rightarrow> port_info list" where
  "dedup_ids [] = []"
| "dedup_ids [p] = [p]"
| "dedup_ids (p # q # ps) =
     (if pi_id p = pi_id q then dedup_ids (p # ps) else p # dedup_ids (q # ps))"

definition list_ports :: "features \<Rightarrow> 'w port_lib \<Rightarrow> ('w, port_info list) io" where
  "list_ports feats L =
     io_bind (serial_list feats L) (\<lambda>ports.
       io_bind (if feat_direct_ftdi feats then ftdi_list L else io_return []) (\<lambda>more.
         io_return (dedup_ids (sort_key pi_id (ports @ more)))))"

section \<open>What is relied on of the transport libraries\<close>

text \<open>
  The laws are stated through three observers of the world: the monotonic clock, the bytes the
  port has delivered to the program since it was opened, and the bytes the port has taken from
  it. Every call returns, no call turns the clock back, and a read or a write takes some time;
  a read delivers at most what was asked for, and a write takes a prefix of its input.
\<close>

definition quiet :: "('w \<Rightarrow> nat) \<Rightarrow> ('w \<Rightarrow> u8 list) \<Rightarrow> ('w \<Rightarrow> u8 list) \<Rightarrow> ('e, 'w, 'a) eio \<Rightarrow> bool" where
  "quiet clock rx tx m \<longleftrightarrow>
     (\<forall>w. io_wp m (\<lambda>_ w'. clock w \<le> clock w' \<and> rx w' = rx w \<and> tx w' = tx w) w)"

definition transport_laws ::
  "'w transport \<Rightarrow> ('w \<Rightarrow> nat) \<Rightarrow> ('w \<Rightarrow> u8 list) \<Rightarrow> ('w \<Rightarrow> u8 list) \<Rightarrow> bool" where
  "transport_laws T clock rx tx \<longleftrightarrow>
     (\<forall>w. clock w \<le> fst (tr_now T w) \<and> clock (snd (tr_now T w)) = fst (tr_now T w) \<and>
          rx (snd (tr_now T w)) = rx w \<and> tx (snd (tr_now T w)) = tx w) \<and>
     (\<forall>n w. io_wp (tr_read T n) (\<lambda>r w'. clock w < clock w' \<and> tx w' = tx w \<and>
          (case r of Inl e \<Rightarrow> rx w' = rx w
           | Inr bytes \<Rightarrow> length bytes \<le> n \<and> rx w' = rx w @ bytes)) w) \<and>
     (\<forall>bytes w. io_wp (tr_write T bytes) (\<lambda>r w'. clock w < clock w' \<and> rx w' = rx w \<and>
          (case r of Inl e \<Rightarrow> tx w' = tx w
           | Inr k \<Rightarrow> k \<le> length bytes \<and> tx w' = tx w @ take k bytes)) w) \<and>
     quiet clock rx tx (tr_flush T) \<and> quiet clock rx tx (tr_purge T) \<and>
     (\<forall>d. quiet clock rx tx (tr_set_timeout T d)) \<and>
     (\<forall>b. quiet clock rx tx (tr_set_cts_flow_control T b) \<and> quiet clock rx tx (tr_set_dtr T b) \<and>
          quiet clock rx tx (tr_set_rts T b))"

lemma transport_lawsD:
  assumes "transport_laws T clock rx tx"
  shows transport_read: "io_wp (tr_read T n) (\<lambda>r w'. clock w < clock w' \<and> tx w' = tx w \<and>
          (case r of Inl e \<Rightarrow> rx w' = rx w
           | Inr bytes \<Rightarrow> length bytes \<le> n \<and> rx w' = rx w @ bytes)) w"
    and transport_write: "io_wp (tr_write T bytes) (\<lambda>r w'. clock w < clock w' \<and> rx w' = rx w \<and>
          (case r of Inl e \<Rightarrow> tx w' = tx w
           | Inr k \<Rightarrow> k \<le> length bytes \<and> tx w' = tx w @ take k bytes)) w"
    and transport_flush: "quiet clock rx tx (tr_flush T)"
    and transport_purge: "quiet clock rx tx (tr_purge T)"
    and transport_set_timeout: "quiet clock rx tx (tr_set_timeout T d)"
    and transport_lines: "quiet clock rx tx (tr_set_cts_flow_control T b)"
      "quiet clock rx tx (tr_set_dtr T b)" "quiet clock rx tx (tr_set_rts T b)"
    and transport_now: "io_wp (tr_instant T) (\<lambda>r w'. r = Inr (clock w') \<and> clock w \<le> clock w' \<and>
          rx w' = rx w \<and> tx w' = tx w) w"
  using assms
  by (simp_all add: transport_laws_def io_wp_def tr_instant_def split_def Let_def)

lemma wp_attempt [wp_simps]: "io_wp (attempt m) Q w \<longleftrightarrow> io_wp m (\<lambda>r t. Q (Inr r) t) w"
  by (auto simp: io_wp_def attempt_def split: option.splits)

lemma arm_timeout_spec:
  assumes "transport_laws T clock rx tx"
  shows "io_wp (arm_timeout T deadline operation)
    (\<lambda>r w'. clock w \<le> clock w' \<and> rx w' = rx w \<and> tx w' = tx w \<and>
            (r = Inr () \<longrightarrow> clock w \<le> deadline)) w"
proof -
  have q: "io_wp (tr_set_timeout T d) (\<lambda>r w'. clock u \<le> clock w' \<and> rx w' = rx u \<and> tx w' = tx u) u"
    for d u using transport_set_timeout [OF assms, of d] by (simp add: quiet_def)
  show ?thesis
    unfolding arm_timeout_def wp_simps
    by (rule wp_conseq [OF transport_now [OF assms]])
      (auto simp: wp_simps intro: wp_conseq [OF q])
qed

section \<open>The loops return, and what they return\<close>

text \<open>One pass of a bounded loop: arm the timeout, then read or write once.\<close>

lemma bounded_read:
  assumes laws: "transport_laws T clock rx tx"
    and stop: "\<And>e w1. clock w \<le> clock w1 \<Longrightarrow> rx w1 = rx w \<Longrightarrow> tx w1 = tx w \<Longrightarrow> Q (Inl e) w1"
    and step: "\<And>r w2. clock w \<le> deadline \<Longrightarrow> clock w < clock w2 \<Longrightarrow> tx w2 = tx w \<Longrightarrow>
      (case r of Inl e \<Rightarrow> rx w2 = rx w | Inr b \<Rightarrow> length b \<le> n \<and> rx w2 = rx w @ b) \<Longrightarrow>
      io_wp (f r) Q w2"
  shows "io_wp (io_bind (arm_timeout T deadline operation) (\<lambda>_.
      io_bind (attempt (tr_read T n)) f)) Q w"
  unfolding wp_simps
proof (rule wp_conseq [OF arm_timeout_spec [OF laws]], goal_cases)
  case (1 r w1)
  show ?case
  proof (cases r)
    case (Inl e)
    then show ?thesis using 1 stop by simp
  next
    case (Inr u)
    then have "clock w \<le> deadline" "clock w \<le> clock w1" "rx w1 = rx w" "tx w1 = tx w"
      using 1 by simp_all
    then show ?thesis
      unfolding Inr sum.case
      by (intro wp_conseq [OF transport_read [OF laws, of n w1]]) (auto intro!: step split: sum.splits)
  qed
qed

lemma bounded_write:
  assumes laws: "transport_laws T clock rx tx"
    and stop: "\<And>e w1. clock w \<le> clock w1 \<Longrightarrow> rx w1 = rx w \<Longrightarrow> tx w1 = tx w \<Longrightarrow> Q (Inl e) w1"
    and step: "\<And>r w2. clock w \<le> deadline \<Longrightarrow> clock w < clock w2 \<Longrightarrow> rx w2 = rx w \<Longrightarrow>
      (case r of Inl e \<Rightarrow> tx w2 = tx w
       | Inr k \<Rightarrow> k \<le> length bytes \<and> tx w2 = tx w @ take k bytes) \<Longrightarrow>
      io_wp (f r) Q w2"
  shows "io_wp (io_bind (arm_timeout T deadline operation) (\<lambda>_.
      io_bind (attempt (tr_write T bytes)) f)) Q w"
  unfolding wp_simps
proof (rule wp_conseq [OF arm_timeout_spec [OF laws]], goal_cases)
  case (1 r w1)
  show ?case
  proof (cases r)
    case (Inl e)
    then show ?thesis using 1 stop by simp
  next
    case (Inr u)
    then have "clock w \<le> deadline" "clock w \<le> clock w1" "rx w1 = rx w" "tx w1 = tx w"
      using 1 by simp_all
    then show ?thesis
      unfolding Inr sum.case
      by (intro wp_conseq [OF transport_write [OF laws, of bytes w1]]) (auto intro!: step split: sum.splits)
  qed
qed

lemma read_exact_loop_spec:
  assumes laws: "transport_laws T clock rx tx"
  shows "io_wp (read_exact_loop T deadline operation missing stored)
    (\<lambda>r w'. clock w \<le> clock w' \<and> tx w' = tx w \<and>
       (\<exists>bytes. rx w' = rx w @ bytes \<and>
          (\<forall>b. r = Inr b \<longrightarrow> b = stored @ bytes \<and> length bytes = missing))) w"
proof (induction "Suc deadline - clock w" arbitrary: w missing stored rule: less_induct)
  case less
  let ?L = "read_exact_loop T deadline operation"
  let ?Q = "\<lambda>r w'. clock w \<le> clock w' \<and> tx w' = tx w \<and> (\<exists>bytes. rx w' = rx w @ bytes \<and>
        (\<forall>b. r = Inr b \<longrightarrow> b = stored @ bytes \<and> length bytes = missing))"
  show ?case
  proof (cases "missing = 0")
    case True
    then show ?thesis by (simp add: io_wp_def read_exact_loop.simps io_return_def)
  next
    case False
    have again: "io_wp (?L (missing - length bytes) (stored @ bytes)) ?Q w2"
      if "clock w \<le> deadline" "clock w < clock w2" "tx w2 = tx w" "rx w2 = rx w @ bytes"
        "length bytes \<le> missing" for bytes w2
    proof -
      have "Suc deadline - clock w2 < Suc deadline - clock w" using that by linarith
      from less [OF this, of "missing - length bytes" "stored @ bytes"] show ?thesis
        by (rule wp_conseq) (use that in \<open>auto simp: le_trans\<close>)
    qed
    have eq: "io_wp (?L missing stored) ?Q w = io_wp (io_bind (arm_timeout T deadline operation) (\<lambda>_.
        io_bind (attempt (tr_read T missing)) (\<lambda>r w.
          case r of
            Inl e \<Rightarrow> if try_again e then ?L missing stored w else io_throw (Io e) w
          | Inr bytes \<Rightarrow>
              if bytes = [] then io_throw Disconnected w
              else ?L (missing - length bytes) (stored @ bytes) w))) ?Q w"
      using False by (simp add: io_wp_def read_exact_loop.simps [of T deadline operation missing])
    show ?thesis
      unfolding eq
    proof (rule bounded_read [OF laws], goal_cases)
      case (2 r w2)
      then show ?case
        using again [of w2 "[]"] again [of w2]
        by (cases r) (auto simp: io_wp_def io_run)
    qed simp
  qed
qed

text \<open>A read that delivers at least one byte began in time and took time.\<close>

lemma read_exact_loop_progress:
  assumes laws: "transport_laws T clock rx tx" and "0 < missing"
  shows "io_wp (read_exact_loop T deadline operation missing stored)
    (\<lambda>r w'. \<forall>b. r = Inr b \<longrightarrow> clock w \<le> deadline \<and> clock w < clock w') w"
proof -
  let ?L = "read_exact_loop T deadline operation"
  let ?Q = "\<lambda>r w'. \<forall>b. r = Inr b \<longrightarrow> clock w \<le> deadline \<and> clock w < clock w'"
  have later: "io_wp (?L m st) ?Q w2" if "clock w \<le> deadline" "clock w < clock w2" for m st w2
    by (rule wp_conseq [OF read_exact_loop_spec [OF laws]]) (use that in auto)
  have eq: "io_wp (?L missing stored) ?Q w = io_wp (io_bind (arm_timeout T deadline operation) (\<lambda>_.
      io_bind (attempt (tr_read T missing)) (\<lambda>r w.
        case r of
          Inl e \<Rightarrow> if try_again e then ?L missing stored w else io_throw (Io e) w
        | Inr bytes \<Rightarrow>
            if bytes = [] then io_throw Disconnected w
            else ?L (missing - length bytes) (stored @ bytes) w))) ?Q w"
    using assms(2) by (simp add: io_wp_def read_exact_loop.simps [of T deadline operation missing])
  show ?thesis
    unfolding eq
  proof (rule bounded_read [OF laws], goal_cases)
    case (2 r w2)
    then show ?case using later by (cases r) (auto simp: io_wp_def io_run)
  qed simp
qed

lemma takeWhile_nonzero_split:
  fixes bytes :: "u8 list"
  assumes "0 \<in> set bytes"
  shows "\<exists>rest. bytes = takeWhile (\<lambda>byte. byte \<noteq> 0) bytes @ 0 # rest"
  using assms by (induction bytes) auto

lemma read_terminated_loop_spec:
  assumes laws: "transport_laws T clock rx tx" and "0 \<notin> set stream"
  shows "io_wp (read_terminated_loop T deadline limit operation stream)
    (\<lambda>r w'. clock w \<le> clock w' \<and> tx w' = tx w \<and>
       (\<exists>bytes. rx w' = rx w @ bytes \<and>
          (\<forall>b. r = Inr b \<longrightarrow> 0 \<notin> set b \<and>
             (b = stream @ bytes \<and> limit \<le> length b \<or>
              (\<exists>rest. stream @ bytes = b @ 0 # rest))))) w"
  using assms(2)
proof (induction "Suc deadline - clock w" arbitrary: w stream rule: less_induct)
  case less
  let ?L = "read_terminated_loop T deadline limit operation"
  let ?Q = "\<lambda>r w'. clock w \<le> clock w' \<and> tx w' = tx w \<and>
       (\<exists>bytes. rx w' = rx w @ bytes \<and>
          (\<forall>b. r = Inr b \<longrightarrow> 0 \<notin> set b \<and>
             (b = stream @ bytes \<and> limit \<le> length b \<or>
              (\<exists>rest. stream @ bytes = b @ 0 # rest))))"
  show ?case
  proof (cases "limit \<le> length stream")
    case True
    then show ?thesis
      using less.prems by (simp add: io_wp_def read_terminated_loop.simps io_return_def)
  next
    case False
    have again: "io_wp (?L (stream @ bytes)) ?Q w2"
      if "clock w \<le> deadline" "clock w < clock w2" "tx w2 = tx w" "rx w2 = rx w @ bytes"
        "0 \<notin> set bytes" for bytes w2
    proof -
      have "Suc deadline - clock w2 < Suc deadline - clock w" using that by linarith
      moreover have "0 \<notin> set (stream @ bytes)" using less.prems that(5) by simp
      ultimately show ?thesis
        by (rule wp_conseq [OF less.hyps]) (use that in \<open>auto simp: le_trans\<close>)
    qed
    have eq: "io_wp (?L stream) ?Q w = io_wp (io_bind (arm_timeout T deadline operation) (\<lambda>_.
        io_bind (attempt (tr_read T CHUNK)) (\<lambda>r w.
          case r of
            Inl e \<Rightarrow> if try_again e then ?L stream w else io_throw (Io e) w
          | Inr bytes \<Rightarrow>
              if bytes = [] then io_throw Disconnected w
              else if 0 \<in> set bytes
                then io_return (stream @ takeWhile (\<lambda>byte. byte \<noteq> 0) bytes) w
              else ?L (stream @ bytes) w))) ?Q w"
      using False by (simp add: io_wp_def read_terminated_loop.simps [of T deadline limit operation stream])
    show ?thesis
      unfolding eq
    proof (rule bounded_read [OF laws], goal_cases)
      case (2 r w2)
      show ?case
      proof (cases r)
        case (Inl e)
        then show ?thesis using 2 again [of w2 "[]"] by (auto simp: io_wp_def io_run)
      next
        case (Inr bytes)
        have "0 \<notin> set (takeWhile (\<lambda>byte. byte \<noteq> 0) bytes)" by (auto dest: set_takeWhileD)
        then show ?thesis
          using 2 Inr again [of w2 bytes] takeWhile_nonzero_split [of bytes] less.prems
          by (auto simp: io_wp_def io_run)
      qed
    qed simp
  qed
qed

lemma write_all_loop_spec:
  assumes laws: "transport_laws T clock rx tx"
  shows "io_wp (write_all_loop T deadline operation input)
    (\<lambda>r w'. clock w \<le> clock w' \<and> rx w' = rx w \<and>
       (\<exists>k. tx w' = tx w @ take k input \<and> (r = Inr () \<longrightarrow> tx w' = tx w @ input))) w"
proof (induction "Suc deadline - clock w" arbitrary: w input rule: less_induct)
  case less
  let ?L = "write_all_loop T deadline operation"
  let ?Q = "\<lambda>r w'. clock w \<le> clock w' \<and> rx w' = rx w \<and>
       (\<exists>k. tx w' = tx w @ take k input \<and> (r = Inr () \<longrightarrow> tx w' = tx w @ input))"
  show ?case
  proof (cases "input = []")
    case True
    have "io_wp (tr_flush T) (\<lambda>_ w'. clock w \<le> clock w' \<and> rx w' = rx w \<and> tx w' = tx w) w"
      using transport_flush [OF laws] by (simp add: quiet_def)
    then have "io_wp (io_bind (attempt (tr_flush T)) (\<lambda>r.
          case r of Inl e \<Rightarrow> io_throw (Io e) | Inr u \<Rightarrow> io_return u)) ?Q w"
      unfolding wp_simps
      by (rule wp_conseq) (auto simp: wp_simps True split: sum.splits)
    then show ?thesis using True by (simp add: io_wp_def write_all_loop.simps [of T deadline operation "[]"])
  next
    case False
    have again: "io_wp (?L (drop k input)) ?Q w2"
      if "clock w \<le> deadline" "clock w < clock w2" "rx w2 = rx w" "tx w2 = tx w @ take k input"
      for k w2
    proof -
      have "Suc deadline - clock w2 < Suc deadline - clock w" using that by linarith
      from less [OF this, of "drop k input"] show ?thesis
        by (rule wp_conseq)
          (use that in \<open>auto simp: le_trans take_add [symmetric]\<close>)
    qed
    have eq: "io_wp (?L input) ?Q w = io_wp (io_bind (arm_timeout T deadline operation) (\<lambda>_.
        io_bind (attempt (tr_write T input)) (\<lambda>r w.
          case r of
            Inl e \<Rightarrow> if try_again e then ?L input w else io_throw (Io e) w
          | Inr written \<Rightarrow>
              if written = 0 then io_throw Disconnected w
              else ?L (drop written input) w))) ?Q w"
      using False by (simp add: io_wp_def write_all_loop.simps [of T deadline operation input])
    show ?thesis
      unfolding eq
    proof (rule bounded_write [OF laws], goal_cases)
      case (1 e w1)
      then show ?case by (auto intro: exI [of _ 0])
    next
      case (2 r w2)
      then show ?case
        using again [of w2 0] again [of w2]
        by (cases r) (auto simp: io_wp_def io_run intro: exI [of _ 0])
    qed
  qed
qed

section \<open>The transport in rewriting form\<close>

text \<open>
  What a program on the wire does to the three observers: \<open>talks w w' sent got\<close> relates the
  worlds before and after, with the bytes taken by the port and the bytes delivered by it.
\<close>

definition talks ::
  "('w \<Rightarrow> nat) \<Rightarrow> ('w \<Rightarrow> u8 list) \<Rightarrow> ('w \<Rightarrow> u8 list) \<Rightarrow> 'w \<Rightarrow> 'w \<Rightarrow> u8 list \<Rightarrow> u8 list \<Rightarrow> bool" where
  "talks clock rx tx w w' sent got \<longleftrightarrow>
     clock w \<le> clock w' \<and> tx w' = tx w @ sent \<and> rx w' = rx w @ got"

lemma talks_refl: "talks clock rx tx w w [] []"
  by (simp add: talks_def)

lemma talks_trans:
  "talks clock rx tx w w1 s1 g1 \<Longrightarrow> talks clock rx tx w1 w2 s2 g2 \<Longrightarrow>
     talks clock rx tx w w2 (s1 @ s2) (g1 @ g2)"
  by (simp add: talks_def)

lemma wp_read_exact:
  assumes "transport_laws T clock rx tx"
    and "\<And>e w' got. talks clock rx tx w w' [] got \<Longrightarrow> Q (Inl e) w'"
    and "\<And>bytes w'. talks clock rx tx w w' [] bytes \<Longrightarrow> length bytes = len \<Longrightarrow> Q (Inr bytes) w'"
  shows "io_wp (read_exact_until T len deadline operation) Q w"
proof -
  note spec = read_exact_loop_spec [OF assms(1), of deadline operation len "[]" w]
  show ?thesis
    unfolding read_exact_until_def
  proof (rule wp_conseq [OF spec])
    fix r :: "error + u8 list" and w' assume "clock w \<le> clock w' \<and> tx w' = tx w \<and> (\<exists>bytes. rx w' = rx w @ bytes \<and>
        (\<forall>b. r = Inr b \<longrightarrow> b = [] @ bytes \<and> length bytes = len))"
    then show "Q r w'"
      by (cases r) (auto simp: talks_def intro: assms(2,3))
  qed
qed

lemma wp_read_byte:
  assumes laws: "transport_laws T clock rx tx"
    and "\<And>e w' got. talks clock rx tx w w' [] got \<Longrightarrow> Q (Inl e) w'"
    and "\<And>b w'. talks clock rx tx w w' [] [b] \<Longrightarrow> clock w \<le> deadline \<Longrightarrow> clock w < clock w' \<Longrightarrow>
      Q (Inr [b]) w'"
  shows "io_wp (read_exact_until T 1 deadline operation) Q w"
proof -
  have "io_wp (read_exact_until T 1 deadline operation)
      (\<lambda>r w'. \<forall>b. r = Inr b \<longrightarrow> clock w \<le> deadline \<and> clock w < clock w') w"
    unfolding read_exact_until_def by (rule read_exact_loop_progress [OF laws]) simp
  moreover have "io_wp (read_exact_until T 1 deadline operation) (\<lambda>r w'.
      \<exists>got. talks clock rx tx w w' [] got \<and> (\<forall>b. r = Inr b \<longrightarrow> b = got \<and> length b = 1)) w"
    by (rule wp_read_exact [OF laws]) auto
  ultimately show ?thesis
  proof (rule wp_conseq [OF wp_conj], goal_cases)
    case (1 r w')
    then show ?case by (cases r) (auto simp: length_Suc_conv intro: assms(2,3))
  qed
qed

lemma wp_write_all:
  assumes "transport_laws T clock rx tx"
    and "\<And>e w' k. talks clock rx tx w w' (take k input) [] \<Longrightarrow> Q (Inl e) w'"
    and "\<And>w'. talks clock rx tx w w' input [] \<Longrightarrow> Q (Inr ()) w'"
  shows "io_wp (write_all_until T input deadline operation) Q w"
proof -
  note spec = write_all_loop_spec [OF assms(1), of deadline operation input w]
  show ?thesis
    unfolding write_all_until_def
  proof (rule wp_conseq [OF spec])
    fix r :: "error + unit" and w' assume "clock w \<le> clock w' \<and> rx w' = rx w \<and>
       (\<exists>k. tx w' = tx w @ take k input \<and> (r = Inr () \<longrightarrow> tx w' = tx w @ input))"
    then show "Q r w'"
      by (cases r) (auto simp: talks_def intro: assms(2,3))
  qed
qed

lemma wp_instant:
  assumes "transport_laws T clock rx tx"
    and "\<And>w' t. talks clock rx tx w w' [] [] \<Longrightarrow> Q (Inr t) w'"
  shows "io_wp (tr_instant T) Q w"
  by (rule wp_conseq [OF transport_now [OF assms(1)]]) (auto simp: talks_def intro: assms(2))

lemma wp_armed_read:
  assumes laws: "transport_laws T clock rx tx"
    and stop: "\<And>e w1. talks clock rx tx w w1 [] [] \<Longrightarrow> Q (Inl e) w1"
    and fail: "\<And>e w1. clock w \<le> deadline \<Longrightarrow> clock w < clock w1 \<Longrightarrow> talks clock rx tx w w1 [] [] \<Longrightarrow>
      Q (Inr (Inl e)) w1"
    and step: "\<And>bytes w1. clock w \<le> deadline \<Longrightarrow> clock w < clock w1 \<Longrightarrow>
      talks clock rx tx w w1 [] bytes \<Longrightarrow> length bytes \<le> n \<Longrightarrow> Q (Inr (Inr bytes)) w1"
  shows "io_wp (io_then (arm_timeout T deadline operation) (attempt (tr_read T n))) Q w"
proof -
  have "io_wp (io_then (arm_timeout T deadline operation) (io_bind (attempt (tr_read T n)) io_return)) Q w"
    by (rule bounded_read [OF laws])
      (auto simp: wp_simps talks_def intro!: stop fail step split: sum.splits)
  then show ?thesis by (simp only: io_bind_return)
qed

lemma wp_quiet:
  assumes "quiet clock rx tx m" and "\<And>r w'. talks clock rx tx w w' [] [] \<Longrightarrow> Q r w'"
  shows "io_wp m Q w"
  using assms(1) unfolding quiet_def
  by (elim allE [of _ w] wp_conseq) (auto simp: talks_def intro: assms(2))

lemma transport_halts:
  assumes "transport_laws T clock rx tx"
  shows "io_halts (tr_instant T)" "io_halts (tr_purge T)"
    "io_halts (read_exact_until T len deadline operation)"
    "io_halts (write_all_until T input deadline operation)"
    "io_halts (read_terminated_until T deadline limit operation)"
proof -
  show "io_halts (tr_instant T)"
    unfolding wp_halts by (auto intro: wp_instant [OF assms])
  show "io_halts (tr_purge T)"
    unfolding wp_halts by (auto intro: wp_quiet [OF transport_purge [OF assms]])
  show "io_halts (read_exact_until T len deadline operation)"
    unfolding wp_halts by (auto intro: wp_read_exact [OF assms])
  show "io_halts (write_all_until T input deadline operation)"
    unfolding wp_halts by (auto intro: wp_write_all [OF assms])
  show "io_halts (read_terminated_until T deadline limit operation)"
    unfolding wp_halts read_terminated_until_def
    by (intro allI wp_conseq [OF read_terminated_loop_spec [OF assms]]) simp_all
qed

section \<open>Listing\<close>

lemma dedup_ids_ids: "pi_id ` set (dedup_ids ps) = pi_id ` set ps"
  by (induction ps rule: dedup_ids.induct) auto

lemma dedup_ids_sorted:
  assumes "sorted (map pi_id ps)"
  shows "sorted (map pi_id (dedup_ids ps)) \<and> distinct (map pi_id (dedup_ids ps))"
  using assms
proof (induction ps rule: dedup_ids.induct)
  case (3 p q ps)
  show ?case
  proof (cases "pi_id p = pi_id q")
    case True
    then show ?thesis using 3 by simp
  next
    case False
    have "pi_id ` set (dedup_ids (q # ps)) = pi_id ` set (q # ps)" by (rule dedup_ids_ids)
    moreover have "\<forall>x \<in> pi_id ` set (q # ps). pi_id p < x"
      using 3(3) False by (auto simp: le_neq_trans)
    ultimately have "\<forall>x \<in> set (map pi_id (dedup_ids (q # ps))). pi_id p < x"
      by (simp only: set_map)
    then show ?thesis using 3(2) [OF False] 3(3) False by auto
  qed
qed simp_all

section \<open>The identifiers of direct FTDI ports\<close>

lemma hex4_no_char:
  assumes "digit_value 16 c = None"
  shows "c \<notin> set (hex4 w)"
proof -
  have neq: "c \<noteq> hex_digit n" if "n < 16" for n
    using digit_value_hex [OF that] assms by (metis option.distinct(1))
  have "unat w div 4096 < 16" using unat_bound [of w] by simp
  then show ?thesis
    unfolding hex4_def list.map list.set insert_iff by (intro notI) (elim disjE; use neq in simp)
qed

lemma hex4_no_colon: "CHR '':'' \<notin> set (hex4 w)"
  by (rule hex4_no_char) code_simp

lemma splitn_field:
  assumes "c \<notin> set field"
  shows "splitn (Suc (Suc n)) c (field @ c # rest) = field # splitn (Suc n) c rest"
proof -
  have "takeWhile (\<lambda>d. d \<noteq> c) (field @ c # rest) = field"
    "dropWhile (\<lambda>d. d \<noteq> c) (field @ c # rest) = c # rest"
    using assms by (induction field) auto
  then show ?thesis by simp
qed

lemma splitn_ftdi:
  "splitn 4 (CHR '':'') (ftdi_id_string vid pid selector) =
     [''ftdi'', hex4 vid, hex4 pid, selector]"
proof -
  have "ftdi_id_string vid pid selector =
      ''ftdi'' @ CHR '':'' # (hex4 vid @ CHR '':'' # (hex4 pid @ CHR '':'' # selector))"
    by (simp add: ftdi_id_string_def)
  moreover have "4 = Suc (Suc (Suc (Suc 0)))" by simp
  moreover have "CHR '':'' \<notin> set ''ftdi''" by simp
  ultimately show ?thesis
    by (simp only: splitn_field hex4_no_colon not_False_eq_True splitn.simps(2))
qed

lemma parse_u16_hex4: "parse_u16_hex (hex4 w) = Some w"
  by (simp add: parse_u16_hex_def parse_hex4)

section \<open>A scripted port\<close>

text \<open>
  A port that delivers a fixed input in bursts, times out when it has run dry, and takes what is
  written to it: the laws above are satisfiable, and the witnesses run on it.
\<close>

record scripted_port =
  sim_clock :: nat
  sim_pending :: "u8 list"
  sim_delivered :: "u8 list"
  sim_taken :: "u8 list"

definition sim_tick :: "scripted_port \<Rightarrow> scripted_port" where
  "sim_tick p = p\<lparr>sim_clock := Suc (sim_clock p)\<rparr>"

definition scripted :: "nat \<Rightarrow> scripted_port transport" where
  "scripted burst =
     \<lparr>tr_now = (\<lambda>p. (sim_clock p, p)),
      tr_read = (\<lambda>n p.
        if sim_pending p = [] then Some (Inl (IoError IoTimedOut []), sim_tick p)
        else let bytes = take (min n burst) (sim_pending p)
             in Some (Inr bytes, (sim_tick p)\<lparr>sim_pending := drop (length bytes) (sim_pending p),
                        sim_delivered := sim_delivered p @ bytes\<rparr>)),
      tr_write = (\<lambda>bytes p.
        Some (Inr (length bytes), (sim_tick p)\<lparr>sim_taken := sim_taken p @ bytes\<rparr>)),
      tr_flush = io_return (), tr_set_timeout = (\<lambda>_. io_return ()),
      tr_set_cts_flow_control = (\<lambda>_. io_return ()), tr_set_dtr = (\<lambda>_. io_return ()),
      tr_set_rts = (\<lambda>_. io_return ()), tr_purge = io_return ()\<rparr>"

lemma scripted_laws: "transport_laws (scripted burst) sim_clock sim_delivered sim_taken"
  by (auto simp: transport_laws_def scripted_def quiet_def wp_simps io_wp_def sim_tick_def Let_def
      io_return_def)

text \<open>One pass of each loop on the scripted port.\<close>

named_theorems scripted_run \<open>running programs on the scripted port\<close>

lemma scripted_arm [scripted_run]:
  "arm_timeout (scripted burst) deadline operation p =
     (if deadline < sim_clock p then Some (Inl (Timeout operation), p) else Some (Inr (), p))"
  by (simp add: arm_timeout_def io_bind_def tr_instant_def scripted_def io_run)

lemma scripted_read:
  "sim_pending p = [] \<Longrightarrow>
     tr_read (scripted burst) n p = Some (Inl (IoError IoTimedOut []), sim_tick p)"
  "sim_pending p \<noteq> [] \<Longrightarrow>
     tr_read (scripted burst) n p =
       Some (Inr (take (min n burst) (sim_pending p)),
         (sim_tick p)\<lparr>sim_pending := drop (length (take (min n burst) (sim_pending p))) (sim_pending p),
            sim_delivered := sim_delivered p @ take (min n burst) (sim_pending p)\<rparr>)"
  by (simp_all add: scripted_def Let_def)

lemma min_zero: "min a b = (0 :: nat) \<longleftrightarrow> a = 0 \<or> b = 0"
  by auto

lemma scripted_read_exact [scripted_run]:
  "read_exact_loop (scripted burst) deadline operation 0 stored p = Some (Inr stored, p)"
  "0 < missing \<Longrightarrow> deadline < sim_clock p \<Longrightarrow>
     read_exact_loop (scripted burst) deadline operation missing stored p =
       Some (Inl (Timeout operation), p)"
  "0 < missing \<Longrightarrow> sim_clock p \<le> deadline \<Longrightarrow> sim_pending p = [] \<Longrightarrow>
     read_exact_loop (scripted burst) deadline operation missing stored p =
       read_exact_loop (scripted burst) deadline operation missing stored (sim_tick p)"
  "0 < missing \<Longrightarrow> sim_clock p \<le> deadline \<Longrightarrow> sim_pending p \<noteq> [] \<Longrightarrow> 0 < burst \<Longrightarrow>
     read_exact_loop (scripted burst) deadline operation missing stored p =
       (let bytes = take (min missing burst) (sim_pending p) in
        read_exact_loop (scripted burst) deadline operation (missing - length bytes) (stored @ bytes)
          ((sim_tick p)\<lparr>sim_pending := drop (length bytes) (sim_pending p),
                        sim_delivered := sim_delivered p @ bytes\<rparr>))"
  by (simp_all add: read_exact_loop.simps [of "scripted burst" deadline operation 0 stored p]
      read_exact_loop.simps [of "scripted burst" deadline operation missing stored p]
      io_bind_def scripted_arm attempt_def io_run Let_def try_again_def scripted_read min_zero)

lemma scripted_read_terminated [scripted_run]:
  "limit \<le> length stream \<Longrightarrow>
     read_terminated_loop (scripted burst) deadline limit operation stream p = Some (Inr stream, p)"
  "length stream < limit \<Longrightarrow> sim_clock p \<le> deadline \<Longrightarrow> sim_pending p \<noteq> [] \<Longrightarrow> 0 < burst \<Longrightarrow>
     read_terminated_loop (scripted burst) deadline limit operation stream p =
       (let bytes = take (min CHUNK burst) (sim_pending p);
            p' = (sim_tick p)\<lparr>sim_pending := drop (length bytes) (sim_pending p),
                        sim_delivered := sim_delivered p @ bytes\<rparr>
        in if 0 \<in> set bytes then Some (Inr (stream @ takeWhile (\<lambda>byte. byte \<noteq> 0) bytes), p')
           else read_terminated_loop (scripted burst) deadline limit operation (stream @ bytes) p')"
  by (simp_all add: read_terminated_loop.simps [of "scripted burst" deadline limit operation stream p]
      io_bind_def scripted_arm attempt_def io_run Let_def scripted_read CHUNK_def min_zero)

lemma scripted_write_all [scripted_run]:
  "write_all_loop (scripted burst) deadline operation [] p = Some (Inr (), p)"
  "input \<noteq> [] \<Longrightarrow> sim_clock p \<le> deadline \<Longrightarrow>
     write_all_loop (scripted burst) deadline operation input p =
       Some (Inr (), (sim_tick p)\<lparr>sim_taken := sim_taken p @ input\<rparr>)"
proof -
  have flush: "tr_flush (scripted burst) = io_return ()" by (simp add: scripted_def)
  show w: "write_all_loop (scripted burst) deadline operation [] p = Some (Inr (), p)" for p
    by (simp add: write_all_loop.simps [of "scripted burst" deadline operation "[]" p]
        io_bind_def attempt_def io_run flush)
  assume "input \<noteq> []" "sim_clock p \<le> deadline"
  moreover have "tr_write (scripted burst) input p =
      Some (Inr (length input), (sim_tick p)\<lparr>sim_taken := sim_taken p @ input\<rparr>)"
    by (simp add: scripted_def)
  ultimately show "write_all_loop (scripted burst) deadline operation input p =
       Some (Inr (), (sim_tick p)\<lparr>sim_taken := sim_taken p @ input\<rparr>)"
    by (simp add: write_all_loop.simps [of "scripted burst" deadline operation input p]
        io_bind_def scripted_arm attempt_def w)
qed

definition fresh_port :: "u8 list \<Rightarrow> scripted_port" where
  "fresh_port input =
     \<lparr>sim_clock = 0, sim_pending = input, sim_delivered = [], sim_taken = []\<rparr>"

lemma scripted_instant: "tr_instant (scripted burst) p = Some (Inr (sim_clock p), p)"
  by (simp add: tr_instant_def scripted_def)

lemma scripted_exact:
  assumes "sim_clock p \<le> deadline" and "sim_pending p = bytes @ rest" and "length bytes = n"
    and "0 < n" and "n \<le> burst"
  shows "read_exact_until (scripted burst) n deadline op p =
    Some (Inr bytes, \<lparr>sim_clock = Suc (sim_clock p), sim_pending = rest,
      sim_delivered = sim_delivered p @ bytes, sim_taken = sim_taken p\<rparr>)"
proof -
  have "sim_pending p \<noteq> []" "min n burst = n" using assms by auto
  then show ?thesis
    using assms by (simp add: read_exact_until_def scripted_run Let_def sim_tick_def)
qed

lemma scripted_lines:
  "tr_purge (scripted burst) p = Some (Inr (), p)" "tr_set_timeout (scripted burst) t p = Some (Inr (), p)"
  "tr_set_cts_flow_control (scripted burst) b p = Some (Inr (), p)"
  by (simp_all add: scripted_def io_run)

definition demo_features :: features where
  "demo_features = \<lparr>feat_greaseweazle = True, feat_drawbridge = True, feat_supercard_pro = True,
     feat_direct_ftdi = False, target_macos = False\<rparr>"

text \<open>Libraries that list given interfaces and open every one as such a port.\<close>

definition scripted_lib :: "nat \<Rightarrow> sp_port list \<Rightarrow> (u16 \<Rightarrow> ftdi_info list) \<Rightarrow> scripted_port port_lib" where
  "scripted_lib burst serials ftdis =
     \<lparr>pl_now = tr_now (scripted burst), pl_sleep = (\<lambda>t p. p\<lparr>sim_clock := sim_clock p + t\<rparr>),
      sp_available = io_return serials,
      sp_open = (\<lambda>_ _ _ _. io_return ()), sp_read = tr_read (scripted burst),
      sp_write = tr_write (scripted burst), sp_flush = io_return (),
      sp_set_timeout = (\<lambda>_. io_return ()), sp_set_hardware_flow = (\<lambda>_. io_return ()),
      sp_dtr = (\<lambda>_. io_return ()), sp_rts = (\<lambda>_. io_return ()), sp_clear_all = io_return (),
      fd_find = (\<lambda>_ pid. io_return (ftdis pid)), fd_open = (\<lambda>_ _ _. io_return ()),
      fd_read = (\<lambda>n. io_map_err io_message (tr_read (scripted burst) n)),
      fd_write = (\<lambda>bytes. io_map_err io_message (tr_write (scripted burst) bytes)),
      fd_flush = io_return (), fd_set_read_timeout = (\<lambda>_. id), fd_set_write_timeout = (\<lambda>_. id),
      fd_set_rts_cts = (\<lambda>_. io_return ()), fd_dtr = (\<lambda>_. io_return ()), fd_rts = (\<lambda>_. io_return ()),
      fd_flush_all = io_return (), fd_set_baudrate = (\<lambda>_. io_return ()),
      fd_set_line_8n1 = io_return ()\<rparr>"

lemma scripted_serial: "serial_transport (scripted_lib burst serials ftdis) = scripted burst"
  by (simp add: serial_transport_def scripted_lib_def scripted_def io_map_err_def fun_eq_iff io_run)

section \<open>Properties\<close>

text \<open>
  C33: A bounded exact read always returns, whatever the port delivers and however the bytes are
  split into reads: it succeeds with exactly the requested number of bytes, in the order the port
  delivered them and none beyond, or reports an error; it sends nothing.
\<close>

theorem read_exact_bounded:
  assumes "transport_laws T clock rx tx"
  shows "\<exists>r w'. read_exact_until T len deadline operation w = Some (r, w') \<and> tx w' = tx w \<and>
    (\<forall>bytes. r = Inr bytes \<longrightarrow> length bytes = len \<and> rx w' = rx w @ bytes)"
  using read_exact_loop_spec [OF assms, of deadline operation len "[]" w]
  by (auto simp: read_exact_until_def io_wp_def)

theorem read_exact_bounded_witness:
  "read_exact_until (scripted 2) 3 9 ''reply'' (fresh_port [1, 2, 3, 4]) =
     Some (Inr [1, 2, 3], \<lparr>sim_clock = 2, sim_pending = [4], sim_delivered = [1, 2, 3],
       sim_taken = []\<rparr>) \<and>
   (\<exists>w. read_exact_until (scripted 2) 5 9 ''reply'' (fresh_port [1, 2, 3, 4]) =
     Some (Inl (Timeout ''reply''), w))"
proof
  show "read_exact_until (scripted 2) 3 9 ''reply'' (fresh_port [1, 2, 3, 4]) =
     Some (Inr [1, 2, 3], \<lparr>sim_clock = 2, sim_pending = [4], sim_delivered = [1, 2, 3],
       sim_taken = []\<rparr>)"
    by (simp add: read_exact_until_def fresh_port_def scripted_run sim_tick_def Let_def)
  obtain r w where w: "read_exact_until (scripted 2) 5 9 ''reply'' (fresh_port [1, 2, 3, 4]) =
      Some (r, w)"
    using read_exact_bounded [OF scripted_laws [of 2], of 5 9 "''reply''"] by metis
  moreover have "map_option fst
      (read_exact_until (scripted 2) 5 9 ''reply'' (fresh_port [1, 2, 3, 4])) =
      Some (Inl (Timeout ''reply''))"
    by (simp add: read_exact_until_def fresh_port_def scripted_run sim_tick_def Let_def)
  ultimately show "\<exists>w. read_exact_until (scripted 2) 5 9 ''reply'' (fresh_port [1, 2, 3, 4]) =
     Some (Inl (Timeout ''reply''), w)"
    by simp
qed

text \<open>
  C34: A bounded read of a zero-terminated stream always returns; when it succeeds, the result
  holds no zero byte and is what the port delivered up to the first zero, or else everything
  delivered once the size limit was reached.
\<close>

theorem read_terminated_bounded:
  assumes "transport_laws T clock rx tx"
  shows "\<exists>r w'. read_terminated_until T deadline limit operation w = Some (r, w') \<and>
    tx w' = tx w \<and>
    (\<forall>bytes. r = Inr bytes \<longrightarrow> 0 \<notin> set bytes \<and>
       (rx w' = rx w @ bytes \<and> limit \<le> length bytes \<or>
        (\<exists>rest. rx w' = rx w @ bytes @ 0 # rest)))"
  using read_terminated_loop_spec [OF assms, of "[]" deadline limit operation w]
  by (auto simp: read_terminated_until_def io_wp_def)

theorem read_terminated_bounded_witness:
  "\<exists>w'. read_terminated_until (scripted 3) 9 100 ''flux'' (fresh_port [80, 160, 240, 0, 7]) =
     Some (Inr [80, 160, 240], w') \<and> sim_taken w' = []"
proof -
  let ?call = "read_terminated_until (scripted 3) 9 100 ''flux'' (fresh_port [80, 160, 240, 0, 7])"
  have "map_option fst ?call = Some (Inr [80, 160, 240])"
    by (simp add: read_terminated_until_def fresh_port_def scripted_run sim_tick_def Let_def CHUNK_def)
  moreover obtain r w where "?call = Some (r, w)" "sim_taken w = sim_taken (fresh_port [80, 160, 240, 0, 7])"
    using read_terminated_bounded [OF scripted_laws [of 3], of 9 100 "''flux''"] by metis
  ultimately show ?thesis by (simp add: fresh_port_def)
qed

text \<open>
  C35: A bounded write always returns; when it succeeds the port has taken exactly the input,
  and when it fails a prefix of it. It consumes nothing the port delivers.
\<close>

theorem write_all_bounded:
  assumes "transport_laws T clock rx tx"
  shows "\<exists>r w'. write_all_until T input deadline operation w = Some (r, w') \<and> rx w' = rx w \<and>
    (\<exists>k. tx w' = tx w @ take k input) \<and> (r = Inr () \<longrightarrow> tx w' = tx w @ input)"
  using write_all_loop_spec [OF assms, of deadline operation input w]
  by (auto simp: write_all_until_def io_wp_def)

theorem write_all_bounded_witness:
  "\<exists>w'. write_all_until (scripted 1) [16, 2] 9 ''command'' (fresh_port []) = Some (Inr (), w') \<and>
     sim_taken w' = [16, 2]"
proof -
  let ?call = "write_all_until (scripted 1) [16, 2] 9 ''command'' (fresh_port [])"
  have "map_option fst ?call = Some (Inr ())"
    by (simp add: write_all_until_def fresh_port_def scripted_run)
  moreover obtain r w where "?call = Some (r, w)"
    "r = Inr () \<longrightarrow> sim_taken w = sim_taken (fresh_port []) @ [16, 2]"
    using write_all_bounded [OF scripted_laws [of 1], of "[16, 2]" 9 "''command''"] by metis
  ultimately show ?thesis by (simp add: fresh_port_def)
qed

text \<open>
  The ports offered to the caller are sorted by identifier without repetition, and their
  identifiers are exactly those the serial and the direct-FTDI enumeration reported.
\<close>

theorem list_ports_sorted_unique:
  assumes "list_ports feats L w = Some (Inr ports, w')"
  shows "sorted (map pi_id ports) \<and> distinct (map pi_id ports) \<and>
    (\<exists>serial w1. serial_list feats L w = Some (Inr serial, w1) \<and>
       (if feat_direct_ftdi feats
        then \<exists>ftdi. ftdi_list L w1 = Some (Inr ftdi, w') \<and>
               pi_id ` set ports = pi_id ` set serial \<union> pi_id ` set ftdi
        else w1 = w' \<and> pi_id ` set ports = pi_id ` set serial))"
proof -
  obtain serial w1 more where s: "serial_list feats L w = Some (Inr serial, w1)"
    and m: "(if feat_direct_ftdi feats then ftdi_list L else io_return []) w1 = Some (Inr more, w')"
    and p: "ports = dedup_ids (sort_key pi_id (serial @ more))"
    using assms by (auto simp: list_ports_def io_bind_ok_iff io_return_def)
  have "pi_id ` set ports = pi_id ` set serial \<union> pi_id ` set more"
    by (simp only: p dedup_ids_ids set_sort set_append image_Un)
  then show ?thesis
    using dedup_ids_sorted [OF sorted_sort_key] s m
    by (cases "feat_direct_ftdi feats") (auto simp: p io_return_def)
qed

theorem list_ports_sorted_unique_witness:
  "\<exists>ports w'. list_ports \<lparr>feat_greaseweazle = True, feat_drawbridge = True, feat_supercard_pro = True,
       feat_direct_ftdi = False, target_macos = True\<rparr>
     (scripted_lib 1 [\<lparr>spp_name = ''COM3'', spp_type = SpOtherPort\<rparr>,
       \<lparr>spp_name = ''/dev/tty.usb'', spp_type = SpOtherPort\<rparr>,
       \<lparr>spp_name = ''COM1'', spp_type = SpOtherPort\<rparr>,
       \<lparr>spp_name = ''COM3'', spp_type = SpOtherPort\<rparr>] (\<lambda>_. [])) (fresh_port []) = Some (Inr ports, w') \<and>
     map (port_str \<circ> pi_id) ports = [''COM1'', ''COM3''] \<and> distinct (map pi_id ports)"
proof -
  let ?call = "list_ports \<lparr>feat_greaseweazle = True, feat_drawbridge = True, feat_supercard_pro = True,
       feat_direct_ftdi = False, target_macos = True\<rparr>
     (scripted_lib 1 [\<lparr>spp_name = ''COM3'', spp_type = SpOtherPort\<rparr>,
       \<lparr>spp_name = ''/dev/tty.usb'', spp_type = SpOtherPort\<rparr>,
       \<lparr>spp_name = ''COM1'', spp_type = SpOtherPort\<rparr>,
       \<lparr>spp_name = ''COM3'', spp_type = SpOtherPort\<rparr>] (\<lambda>_. [])) (fresh_port [])"
  have "case ?call of Some (Inr ports, w') \<Rightarrow> map (port_str \<circ> pi_id) ports = [''COM1'', ''COM3'']
      | _ \<Rightarrow> False"
    by code_simp
  then obtain ports w' where call: "?call = Some (Inr ports, w')"
    "map (port_str \<circ> pi_id) ports = [''COM1'', ''COM3'']"
    by (auto split: option.splits sum.splits)
  moreover have "distinct (map pi_id ports)"
    using list_ports_sorted_unique [OF call(1)] by (elim conjE)
  ultimately show ?thesis by (intro exI conjI)
qed

lemma ftdi_parse_id:
  "ftdi_parse (PortId (ftdi_id_string vid pid selector)) =
     Inr (vid, pid, case parse_usize selector of
            Some index \<Rightarrow> FtdiIndex index | None \<Rightarrow> FtdiSerial selector)"
  unfolding ftdi_parse_def Let_def port_id.sel splitn_ftdi list.case parse_u16_hex4 by simp

lemma collect_results_in:
  "collect_results rs = Inr as \<Longrightarrow> a \<in> set as \<Longrightarrow> Inr a \<in> set rs"
  by (induction rs arbitrary: as rule: collect_results.induct) (auto split: sum.splits)

text \<open>Where a listed direct port comes from.\<close>

lemma ftdi_list_pids_from:
  "ftdi_list_pids L pids listed w = Some (Inr ports, w') \<Longrightarrow> port \<in> set ports \<Longrightarrow> port \<notin> set listed \<Longrightarrow>
     \<exists>pid w1 devices w2 index. fd_find L FTDI_VID pid w1 = Some (Inr devices, w2) \<and> index < length devices \<and>
       ftdi_port_info pid index (devices ! index) = Inr port"
proof (induction L pids listed arbitrary: w rule: ftdi_list_pids.induct)
  case (2 L pid pids listed)
  then obtain devices infos w1 where found: "fd_find L FTDI_VID pid w = Some (Inr devices, w1)"
    "collect_results (map (\<lambda>(index, device). ftdi_port_info pid index device) (List.enumerate 0 devices)) = Inr infos"
    "ftdi_list_pids L pids (listed @ infos) w1 = Some (Inr ports, w')"
    by (auto simp: io_bind_ok_iff io_run io_map_err_def split: option.splits prod.splits sum.splits)
  show ?case
  proof (cases "port \<in> set infos")
    case True
    from collect_results_in [OF found(2) this] show ?thesis
      using found(1) by (fastforce simp: in_set_enumerate_eq)
  next
    case False
    then show ?thesis using "2.IH" [OF found(3)] "2.prems"(2,3) by auto
  qed
qed (simp add: io_run)

lemma ftdi_listed_parses:
  assumes "ftdi_port_info pid index device = Inr port" and "index < 2 ^ 64"
  shows "pi_serial_number port = fdi_serial device \<and> pi_pid port = Some pid \<and> is_direct_ftdi (pi_id port) \<and>
    ftdi_parse (pi_id port) = Inr (FTDI_VID, pid, case fdi_serial device of None \<Rightarrow> FtdiIndex index
      | Some serial \<Rightarrow> (case parse_usize serial of None \<Rightarrow> FtdiSerial serial | Some n \<Rightarrow> FtdiIndex n))"
proof -
  let ?selector = "case fdi_serial device of None \<Rightarrow> dec_string index | Some s \<Rightarrow> s"
  have id: "pi_id port = PortId (ftdi_id_string FTDI_VID pid ?selector)" "pi_serial_number port = fdi_serial device"
    "pi_pid port = Some pid"
    using assms(1) by (auto simp: ftdi_port_info_def port_id_new_def Let_def split: if_splits)
  have "parse_usize (dec_string index) = Some index"
    unfolding parse_usize_def by (rule parse_dec_string) (rule assms(2))
  moreover have "is_direct_ftdi (pi_id port)" unfolding id(1) by (simp add: is_direct_ftdi_def ftdi_id_string_def)
  ultimately show ?thesis
    unfolding id ftdi_parse_id by (simp split: option.split)
qed

text \<open>
  C36: Opening a listed direct FTDI port by its identifier asks the driver for the vendor and the
  product it was found under, and for the serial number it reported, or the position it was
  enumerated at when it reported none; unless the serial number reads as a number, in which case
  the driver is asked for that position instead. Vectors are shorter than \<^verbatim>\<open>2^64\<close>.
\<close>

theorem ftdi_id_roundtrip:
  assumes "ftdi_list L w = Some (Inr ports, w')" and "port \<in> set ports"
    and "\<forall>pid w devices w'. fd_find L FTDI_VID pid w = Some (Inr devices, w') \<longrightarrow> length devices < 2 ^ 64"
  shows "\<exists>pid w1 devices w2 index selector. fd_find L FTDI_VID pid w1 = Some (Inr devices, w2) \<and>
    index < length devices \<and> pi_serial_number port = fdi_serial (devices ! index) \<and>
    selector = (case fdi_serial (devices ! index) of None \<Rightarrow> FtdiIndex index
      | Some serial \<Rightarrow> (case parse_usize serial of None \<Rightarrow> FtdiSerial serial | Some n \<Rightarrow> FtdiIndex n)) \<and>
    ftdi_parse (pi_id port) = Inr (FTDI_VID, pid, selector) \<and>
    (\<forall>feats baud timeout. feat_direct_ftdi feats \<longrightarrow>
       transport_open feats L (pi_id port) baud timeout =
         io_then (io_map_err PortNotFound (fd_open L FTDI_VID pid selector))
          (io_then (io_map_err Protocol
              (io_then (fd_set_baudrate L baud) (io_then (fd_set_line_8n1 L) (fd_set_rts_cts L False))))
            (io_then (io_modify (\<lambda>w. fd_set_write_timeout L timeout (fd_set_read_timeout L timeout w)))
              (io_then (io_map_err Protocol (fd_flush_all L)) (io_return (ftdi_transport L))))))"
proof -
  obtain pid w1 devices w2 index where found: "fd_find L FTDI_VID pid w1 = Some (Inr devices, w2)"
    "index < length devices" "ftdi_port_info pid index (devices ! index) = Inr port"
    using ftdi_list_pids_from [OF assms(1) [unfolded ftdi_list_def] assms(2)] by auto
  moreover have "index < 2 ^ 64" using assms(3) found(1,2) less_trans by blast
  note parses = ftdi_listed_parses [OF found(3) this]
  moreover have "ftdi_open L (pi_id port) baud timeout = io_bind (io_return (FTDI_VID, pid, selector)) (\<lambda>(vid, pid, selector).
       io_then (io_map_err PortNotFound (fd_open L vid pid selector))
        (io_then (io_map_err Protocol
            (io_then (fd_set_baudrate L baud)
              (io_then (fd_set_line_8n1 L) (fd_set_rts_cts L False))))
          (io_then (io_modify (\<lambda>w. fd_set_write_timeout L timeout (fd_set_read_timeout L timeout w)))
            (io_then (io_map_err Protocol (fd_flush_all L)) (io_return (ftdi_transport L))))))"
    if "ftdi_parse (pi_id port) = Inr (FTDI_VID, pid, selector)" for selector baud timeout
    using that by (simp add: ftdi_open_def fun_eq_iff io_bind_def io_run)
  ultimately show ?thesis
    by (intro exI [of _ pid] exI [of _ w1] exI [of _ devices] exI [of _ w2] exI [of _ index])
      (simp add: transport_open_def io_bind_def io_run fun_eq_iff)
qed

definition demo_ftdi :: "scripted_port port_lib" where
  "demo_ftdi = scripted_lib 2 [] (\<lambda>pid. if pid = 0x6001 then [\<lparr>fdi_serial = Some ''A5XK'', fdi_product = None\<rparr>] else [])"

theorem ftdi_id_roundtrip_witness:
  "\<exists>port w'. ftdi_list demo_ftdi (fresh_port []) = Some (Inr [port], w') \<and>
     ftdi_parse (pi_id port) = Inr (FTDI_VID, 0x6001, FtdiSerial ''A5XK'')"
proof -
  let ?device = "\<lparr>fdi_serial = Some ''A5XK'', fdi_product = None\<rparr>"
  have "digit_value 16 (CHR 0x00) = None" "\<not> is_whitespace (CHR ''f'')" by code_simp+
  then have "port_id_new (ftdi_id_string FTDI_VID 0x6001 ''A5XK'') = Inr (PortId (ftdi_id_string FTDI_VID 0x6001 ''A5XK''))"
    by (simp add: port_id_new_def ftdi_id_string_def hex4_no_char)
  then obtain port where "ftdi_port_info 0x6001 0 ?device = Inr port" by (simp add: ftdi_port_info_def Let_def)
  then have listed: "ftdi_list demo_ftdi (fresh_port []) = Some (Inr [port], fresh_port [])"
    by (simp add: ftdi_list_def FTDI_PIDS_def demo_ftdi_def scripted_lib_def io_bind_def io_run io_map_err_def)
  have find: "fd_find demo_ftdi vid pid w = Some (Inr devices, w2) \<longleftrightarrow>
      devices = (if pid = 0x6001 then [\<lparr>fdi_serial = Some ''A5XK'', fdi_product = None\<rparr>] else []) \<and> w2 = w"
    for vid pid w devices w2
    by (auto simp: demo_ftdi_def scripted_lib_def io_run)
  have "digit_value 10 (CHR ''A'') = None" by code_simp
  then have "parse_usize ''A5XK'' = None" by (simp add: parse_usize_def parse_unsigned_def)
  moreover have "\<forall>pid w devices w'. fd_find demo_ftdi FTDI_VID pid w = Some (Inr devices, w') \<longrightarrow>
      length devices < 2 ^ 64"
    unfolding find by simp
  note ftdi_id_roundtrip [OF listed _ this, of port]
  then obtain pid w1 devices w2 index selector where "fd_find demo_ftdi FTDI_VID pid w1 = Some (Inr devices, w2)"
    "index < length devices" "selector = (case fdi_serial (devices ! index) of None \<Rightarrow> FtdiIndex index
      | Some serial \<Rightarrow> (case parse_usize serial of None \<Rightarrow> FtdiSerial serial | Some n \<Rightarrow> FtdiIndex n))"
    "ftdi_parse (pi_id port) = Inr (FTDI_VID, pid, selector)" by (simp only: list.set insertI1) blast
  ultimately have "ftdi_parse (pi_id port) = Inr (FTDI_VID, 0x6001, FtdiSerial ''A5XK'')"
    by (cases "pid = 0x6001") (simp_all add: find)
  then show ?thesis using listed by blast
qed

end
