(* ===== verification/Device.thy ===== *)
theory Device
  imports Transport Flux_Rotation "HOL-Library.Sublist"
begin

text \<open>
  The interface every hardware backend implements, and what is decided about ports, captures and
  tracks independently of the backend (\<^verbatim>\<open>src/device/mod.rs\<close>). A
  \<^verbatim>\<open>dyn Device\<close> is a record of operations on the backend's state. The locale
  \<open>device_contract\<close> is what the controller's worker relies on: each backend's theory
  interprets it on its own operations.
\<close>

section \<open>The device interface\<close>

record raw_capture =
  rc_words :: "u16 list"
  rc_bit_len :: nat
  rc_index_aligned :: bool

text \<open>
  The progress callback of \<open>dv_read_track\<close> is a log of its calls beside the device's state,
  in the order they are made.
\<close>

type_synonym progress_log = "(u16 list \<times> nat) list"

record 'd device =
  dv_selected_port :: "'d \<Rightarrow> port_id"
  dv_status :: "('d, drive_status) io"
  dv_set_motor :: "bool \<Rightarrow> bool \<Rightarrow> ('d, unit) io"
  dv_seek :: "u8 \<Rightarrow> ('d, unit) io"
  dv_select_side :: "side \<Rightarrow> ('d, unit) io"
  dv_no_click_step :: "('d, unit) io"
  dv_read_track :: "read_mode \<Rightarrow> density_mode \<Rightarrow> ('d \<times> progress_log, raw_capture) io"
  dv_write_track :: "u16 list \<Rightarrow> nat \<Rightarrow> bool \<Rightarrow> density_mode \<Rightarrow> ('d, unit) io"

text \<open>A call on the device proper, while the progress log is at hand; one call of the callback.\<close>

definition on_device :: "('d, 'a) io \<Rightarrow> ('d \<times> 'p, 'a) io" where
  "on_device m = io_zoom fst (\<lambda>d s. (d, snd s)) m"

definition progress :: "u16 list \<Rightarrow> nat \<Rightarrow> ('d \<times> progress_log, unit) io" where
  "progress words bit_len = io_modify (\<lambda>(d, log). (d, log @ [(words, bit_len)]))"

text \<open>
  Constructing a device around an open port: \<open>setup\<close> runs on the value built from the
  port's world; when it fails the half-made device is dropped, which runs \<open>cleanup\<close>.
\<close>

definition construct ::
  "('w \<Rightarrow> 'd) \<Rightarrow> ('d \<Rightarrow> 'w) \<Rightarrow> ('d, unit) io \<Rightarrow> ('d, unit) io \<Rightarrow> ('w, 'd) io" where
  "construct initial world setup cleanup w =
     (case setup (initial w) of
        None \<Rightarrow> None
      | Some (Inr _, d) \<Rightarrow> Some (Inr d, world d)
      | Some (Inl e, d) \<Rightarrow>
          (case cleanup d of None \<Rightarrow> None | Some (_, d') \<Rightarrow> Some (Inl e, world d')))"

section \<open>Candidate ports\<close>

fun contains :: "string \<Rightarrow> string \<Rightarrow> bool" where
  "contains hay needle \<longleftrightarrow>
     (prefix needle hay \<or> (case hay of [] \<Rightarrow> False | _ # rest \<Rightarrow> contains rest needle))"

declare contains.simps [simp del]

definition port_score :: "driver_kind \<Rightarrow> port_info \<Rightarrow> u8" where
  "port_score driver port =
     (let product = map to_lower (case pi_product port of
            None \<Rightarrow> pi_display_name port | Some product \<Rightarrow> product)
      in case driver of
           Greaseweazle \<Rightarrow>
             if pi_vid port = Some 0x1209 \<and> pi_pid port = Some 0x4d69 \<or>
                contains product ''greaseweazle''
             then 100 else 0
         | SuperCardPro \<Rightarrow>
             if contains product ''supercard'' \<or> contains product ''scp-jim'' then 100 else 0
         | DrawBridge \<Rightarrow>
             if is_direct_ftdi (pi_id port) then 90
             else if contains product ''greaseweazle'' \<or> contains product ''supercard'' \<or>
                     (pi_vid port = Some 0x1a86 \<and> pi_pid port = Some 0x7523)
             then 0
             else if pi_vid port \<noteq> None then 20
             else 5)"

text \<open>Ports sorted by falling score, stably; the sort key is the negated score.\<close>

definition candidates :: "features \<Rightarrow> 'w port_lib \<Rightarrow> bridge_config \<Rightarrow> ('w, port_info list) io" where
  "candidates feats L cfg =
     (case cfg_port cfg of
        Exact port \<Rightarrow>
          io_return [\<lparr>pi_id = port, pi_display_name = port_str port, pi_vid = None, pi_pid = None,
                      pi_serial_number = None, pi_product = None\<rparr>]
      | Auto \<Rightarrow>
          io_bind (list_ports feats L) (\<lambda>ports.
            io_return (filter (\<lambda>port. 0 < port_score (cfg_driver cfg) port)
              (sort_key (\<lambda>port. - uint (port_score (cfg_driver cfg) port)) ports))))"

section \<open>Captures, deadlines, tracks\<close>

definition validate_capture :: "raw_capture \<Rightarrow> unit result" where
  "validate_capture capture =
     (if rc_bit_len capture < 64 \<or> rc_bit_len capture > length (rc_words capture) * 16
      then Inl (Protocol (''backend returned invalid '' @ dec_string (rc_bit_len capture) @
                 ''-bit capture in '' @ dec_string (length (rc_words capture)) @ '' words''))
      else if rc_bit_len capture > MAX_TRACK_BITS
      then Inl (TrackTooLarge (rc_bit_len capture) MAX_TRACK_BITS)
      else Inr ())"

definition operation_deadline :: "'w transport \<Rightarrow> ('w, nat) io" where
  "operation_deadline T = io_bind (tr_instant T) (\<lambda>now. io_return (now + secs 2))"

definition clamp_track :: "track_address \<Rightarrow> u8 \<Rightarrow> track_address" where
  "clamp_track track max_cylinders =
     \<lparr>ta_cylinder = min (ta_cylinder track) (sat_sub8 max_cylinders 1), ta_side = ta_side track\<rparr>"

fun drive_selection :: "drive_select \<Rightarrow> u8 \<times> u8" where
  "drive_selection PcA = (1, 0)"
| "drive_selection PcB = (1, 1)"
| "drive_selection Shugart0 = (2, 0)"
| "drive_selection Shugart1 = (2, 1)"
| "drive_selection Shugart2 = (2, 2)"
| "drive_selection Shugart3 = (2, 3)"

section \<open>The contract\<close>

text \<open>
  \<open>cyl\<close> and \<open>surface\<close> read the position the backend believes the head is at, and
  \<open>limit\<close> the number of cylinders. A seek or a head selection that succeeds reaches its
  argument, and neither moves the other coordinate; a seek that fails may have moved, but only
  onto an existing cylinder; nothing else moves the head. A capture that is handed over is valid and is
  index-aligned only when the mode waits for the index.
\<close>

definition keeps :: "('d \<Rightarrow> 'a) \<Rightarrow> ('d, 'b) io \<Rightarrow> bool" where
  "keeps f m \<longleftrightarrow> (\<forall>d r d'. m d = Some (r, d') \<longrightarrow> f d' = f d)"

lemma keeps_io_rel: "keeps f m = io_rel (\<lambda>d d'. f d' = f d) m"
  by (simp add: keeps_def io_rel_def)

named_theorems keeps_intros \<open>what a program leaves unchanged, composed from its parts\<close>

lemma keeps_basic [keeps_intros]:
  "keeps f (io_return a)" "keeps f (io_throw e)" "keeps f (io_result r)" "keeps f (io_gets g)"
  "keeps f (io_expect x)"
  by (auto simp: keeps_def io_run io_expect_def io_panic_def split: option.splits)

lemma keeps_modify [keeps_intros]: "(\<And>d. f (g d) = f d) \<Longrightarrow> keeps f (io_modify g)"
  by (simp add: keeps_def io_run)

lemma keeps_bind [keeps_intros]: "keeps f m \<Longrightarrow> (\<And>a. keeps f (g a)) \<Longrightarrow> keeps f (io_bind m g)"
  unfolding keeps_def io_bind_returns_iff by metis

lemma keeps_when [keeps_intros]: "(b \<Longrightarrow> keeps f m) \<Longrightarrow> keeps f (io_when b m)"
  by (cases b) (auto intro: keeps_basic)

lemma keeps_ignore [keeps_intros]: "keeps f m \<Longrightarrow> keeps f (io_ignore m)"
  by (auto simp: keeps_def io_ignore_def split: option.splits)

lemma keeps_attempt [keeps_intros]: "keeps f m \<Longrightarrow> keeps f (attempt m)"
  by (auto simp: keeps_def attempt_def split: option.splits)

lemma keeps_or_else [keeps_intros]: "keeps f m \<Longrightarrow> keeps f n \<Longrightarrow> keeps f (io_or_else m n)"
  unfolding keeps_def io_or_else_def by (fastforce split: option.splits sum.splits)

lemma keeps_cases [keeps_intros]:
  "(b \<Longrightarrow> keeps f m) \<Longrightarrow> (\<not> b \<Longrightarrow> keeps f n) \<Longrightarrow> keeps f (if b then m else n)"
  "(b \<Longrightarrow> keeps f m) \<Longrightarrow> (\<not> b \<Longrightarrow> keeps f n) \<Longrightarrow> keeps f (\<lambda>s. if b then m s else n s)"
  "(\<And>e. keeps f (h e)) \<Longrightarrow> (\<And>a. keeps f (k a)) \<Longrightarrow> keeps f (case x of Inl e \<Rightarrow> h e | Inr a \<Rightarrow> k a)"
  "(\<And>e. keeps f (h e)) \<Longrightarrow> (\<And>a. keeps f (k a)) \<Longrightarrow>
     keeps f (\<lambda>s. case x of Inl e \<Rightarrow> h e s | Inr a \<Rightarrow> k a s)"
  "(\<And>a b. keeps f (g a b)) \<Longrightarrow> keeps f (case p of (a, b) \<Rightarrow> g a b)"
  by (auto simp: keeps_def split: sum.splits prod.splits if_splits)

lemma keeps_on_device [keeps_intros]: "keeps f m \<Longrightarrow> keeps (\<lambda>s. f (fst s)) (on_device m)"
  by (auto simp: keeps_def on_device_def io_zoom_returns_iff)

lemma keeps_progress [keeps_intros]: "keeps (\<lambda>s. f (fst s)) (progress words bit_len)"
  by (auto simp: keeps_def progress_def io_run split_def)

lemma keeps_proj: "keeps f m \<Longrightarrow> (\<And>d. g d = h (f d)) \<Longrightarrow> keeps g m"
  by (simp add: keeps_def)

text \<open>For the loops: the condition may be proved by fixed-point induction.\<close>

lemma admissible_imp_const:
  "(c \<Longrightarrow> ccpo.admissible lub ord P) \<Longrightarrow> ccpo.admissible lub ord (\<lambda>x. c \<longrightarrow> P x)"
  by (cases c) (simp_all add: ccpo.admissible_def)

lemma keeps_admissible:
  fixes f :: "'d \<Rightarrow> 'a" and c :: 'c
  shows "option.admissible (\<lambda>h :: 'c \<times> 'd \<Rightarrow> ((error + 'b) \<times> 'd) option. keeps f (\<lambda>s. h (c, s)))"
proof -
  have "(\<lambda>h :: 'c \<times> 'd \<Rightarrow> ((error + 'b) \<times> 'd) option. keeps f (\<lambda>s. h (c, s))) =
      (\<lambda>h. \<forall>x y. h x = Some y \<longrightarrow> fst x = c \<longrightarrow> f (snd y) = f (snd x))"
    by (auto simp: fun_eq_iff keeps_def)
  then show ?thesis by (rule ssubst) (rule option_admissible)
qed

lemmas keeps_admissible_intros = admissible_all admissible_imp_const keeps_admissible

subsection \<open>From one condition to another\<close>

text \<open>
  \<open>leads P m Q\<close>: from a state with \<open>P\<close>, whenever \<open>m\<close> returns, error or not, it leaves
  a state with \<open>Q\<close>.
\<close>

definition leads :: "('s \<Rightarrow> bool) \<Rightarrow> ('s, 'a) io \<Rightarrow> ('s \<Rightarrow> bool) \<Rightarrow> bool" where
  "leads P m Q \<longleftrightarrow> (\<forall>s r t. P s \<longrightarrow> m s = Some (r, t) \<longrightarrow> Q t)"

named_theorems leads_intros \<open>conditions carried through a program\<close>

lemma leadsD: "leads P m Q \<Longrightarrow> P s \<Longrightarrow> m s = Some (r, t) \<Longrightarrow> Q t"
  by (auto simp: leads_def)

lemma leads_basic [leads_intros]:
  "(\<And>s. P s \<Longrightarrow> Q s) \<Longrightarrow> leads P (io_return a) Q" "(\<And>s. P s \<Longrightarrow> Q s) \<Longrightarrow> leads P (io_throw e) Q"
  "(\<And>s. P s \<Longrightarrow> Q s) \<Longrightarrow> leads P (io_gets f) Q" "(\<And>s. P s \<Longrightarrow> Q s) \<Longrightarrow> leads P (io_result r) Q"
  "leads P io_panic Q"
  by (simp_all add: leads_def io_run io_panic_def)

lemma leads_bind:
  assumes "leads P m R" and "\<And>a. leads R (f a) Q" and "\<And>s. R s \<Longrightarrow> Q s"
  shows "leads P (io_bind m f) Q"
  using assms unfolding leads_def io_bind_returns_iff by metis

lemma leads_keep_bind [leads_intros]:
  "leads P m P \<Longrightarrow> (\<And>a. leads P (f a) P) \<Longrightarrow> leads P (io_bind m f) P"
  by (rule leads_bind)

lemma leads_when [leads_intros]: "(b \<Longrightarrow> leads P m P) \<Longrightarrow> leads P (io_when b m) P"
  by (cases b) (auto intro: leads_basic)

lemma leads_ignore [leads_intros]: "leads P m Q \<Longrightarrow> leads P (io_ignore m) Q"
  by (auto simp: leads_def io_ignore_def split: option.splits)

lemma leads_attempt [leads_intros]: "leads P m Q \<Longrightarrow> leads P (attempt m) Q"
  by (auto simp: leads_def attempt_def split: option.splits)

lemma leads_cases [leads_intros]:
  "(b \<Longrightarrow> leads P m Q) \<Longrightarrow> (\<not> b \<Longrightarrow> leads P n Q) \<Longrightarrow> leads P (if b then m else n) Q"
  "(b \<Longrightarrow> leads P m Q) \<Longrightarrow> (\<not> b \<Longrightarrow> leads P n Q) \<Longrightarrow> leads P (\<lambda>s. if b then m s else n s) Q"
  "(\<And>e. x = Inl e \<Longrightarrow> leads P (h e) Q) \<Longrightarrow> (\<And>a. x = Inr a \<Longrightarrow> leads P (k a) Q) \<Longrightarrow>
     leads P (case x of Inl e \<Rightarrow> h e | Inr a \<Rightarrow> k a) Q"
  "(y = None \<Longrightarrow> leads P n Q) \<Longrightarrow> (\<And>b. y = Some b \<Longrightarrow> leads P (g b) Q) \<Longrightarrow>
     leads P (case y of None \<Rightarrow> n | Some b \<Rightarrow> g b) Q"
  "(y = None \<Longrightarrow> leads P n Q) \<Longrightarrow> (\<And>b. y = Some b \<Longrightarrow> leads P (g b) Q) \<Longrightarrow>
     leads P (\<lambda>s. case y of None \<Rightarrow> n s | Some b \<Rightarrow> g b s) Q"
  "(\<And>a b. p = (a, b) \<Longrightarrow> leads P (f a b) Q) \<Longrightarrow> leads P (case p of (a, b) \<Rightarrow> f a b) Q"
  by (auto simp: leads_def split: sum.splits option.splits prod.splits)

lemma leads_modify: "(\<And>s. P s \<Longrightarrow> Q (g s)) \<Longrightarrow> leads P (io_modify g) Q"
  by (simp add: leads_def io_run)

lemma keeps_leads: "keeps f m \<Longrightarrow> leads (\<lambda>d. P (f d)) m (\<lambda>d. P (f d))"
  by (simp add: keeps_def leads_def)

section \<open>What a device promises\<close>

definition capture_ok :: "read_mode \<Rightarrow> raw_capture \<Rightarrow> bool" where
  "capture_ok mode capture \<longleftrightarrow>
     validate_capture capture = Inr () \<and> (rc_index_aligned capture \<longrightarrow> mode \<noteq> Normal)"

text \<open>
  One call on a device, whatever its result: the state it leaves behind, on the error paths too.
\<close>

inductive device_step :: "'d device \<Rightarrow> 'd \<Rightarrow> 'd \<Rightarrow> bool" for D where
  status: "dv_status D d = Some (r, d') \<Longrightarrow> device_step D d d'"
| motor: "dv_set_motor D enabled quick d = Some (r, d') \<Longrightarrow> device_step D d d'"
| seek: "dv_seek D c d = Some (r, d') \<Longrightarrow> device_step D d d'"
| side: "dv_select_side D s d = Some (r, d') \<Longrightarrow> device_step D d d'"
| no_click: "dv_no_click_step D d = Some (r, d') \<Longrightarrow> device_step D d d'"
| read: "dv_read_track D mode density (d, log) = Some (r, (d', log')) \<Longrightarrow> device_step D d d'"
| write_track: "dv_write_track D words bit_len from_index density d = Some (r, d') \<Longrightarrow> device_step D d d'"

locale device_contract =
  fixes D :: "'d device"
    and cyl :: "'d \<Rightarrow> u8"
    and surface :: "'d \<Rightarrow> side"
    and limit :: "'d \<Rightarrow> u8"
  assumes seek_reaches: "dv_seek D c d = Some (Inr (), d') \<Longrightarrow> cyl d' = c \<and> c < limit d"
    and seek_bounded: "dv_seek D c d = Some (r, d') \<Longrightarrow> cyl d' = cyl d \<or> cyl d' = c \<and> c < limit d"
    and seek_keeps: "keeps surface (dv_seek D c)" "keeps limit (dv_seek D c)"
    and side_reaches: "dv_select_side D s d = Some (Inr (), d') \<Longrightarrow> surface d' = s"
    and side_keeps: "keeps cyl (dv_select_side D s)" "keeps limit (dv_select_side D s)"
    and others_keep: "keeps (\<lambda>d. (cyl d, surface d, limit d)) (dv_status D)"
      "keeps (\<lambda>d. (cyl d, surface d, limit d)) (dv_set_motor D enabled quick)"
      "keeps (\<lambda>d. (cyl d, surface d, limit d)) (dv_write_track D words bit_len from_index density)"
      "keeps (\<lambda>dl. (cyl (fst dl), surface (fst dl), limit (fst dl))) (dv_read_track D mode density)"
      "keeps (\<lambda>d. (cyl d, surface d, limit d)) (dv_no_click_step D)"
    and capture_valid: "dv_read_track D mode density dl = Some (Inr capture, dl') \<Longrightarrow>
      capture_ok mode capture"
begin

text \<open>
  Moving to a track, cylinder first and then side, as the worker does: success reaches both
  coordinates.
\<close>

lemma seek_then_side:
  assumes "io_then (dv_seek D c) (dv_select_side D s) d = Some (Inr (), d')"
  shows "cyl d' = c \<and> surface d' = s"
proof -
  obtain d1 where "dv_seek D c d = Some (Inr (), d1)" "dv_select_side D s d1 = Some (Inr (), d')"
    using assms by (auto simp: io_bind_ok_iff)
  then show ?thesis
    using seek_reaches [of c d d1] side_reaches [of s d1 d'] side_keeps [of s] by (auto simp: keeps_def)
qed

lemma side_frame:
  "dv_select_side D s d = Some (r, d') \<Longrightarrow> cyl d' = cyl d \<and> limit d' = limit d"
  using side_keeps by (auto simp: keeps_def)

lemma others_frame:
  "dv_status D d = Some (r1, d') \<Longrightarrow> cyl d' = cyl d \<and> surface d' = surface d \<and> limit d' = limit d"
  "dv_set_motor D enabled quick d = Some (r2, d') \<Longrightarrow>
     cyl d' = cyl d \<and> surface d' = surface d \<and> limit d' = limit d"
  "dv_write_track D words bit_len from_index density d = Some (r3, d') \<Longrightarrow>
     cyl d' = cyl d \<and> surface d' = surface d \<and> limit d' = limit d"
  "dv_read_track D mode density (d, log) = Some (r4, (d', log')) \<Longrightarrow>
     cyl d' = cyl d \<and> surface d' = surface d \<and> limit d' = limit d"
  "dv_no_click_step D d = Some (r5, d') \<Longrightarrow> cyl d' = cyl d \<and> surface d' = surface d \<and> limit d' = limit d"
  using others_keep(1) others_keep(2) [of enabled quick]
    others_keep(3) [of words bit_len from_index density] others_keep(4) [of mode density] others_keep(5)
  unfolding keeps_def by (blast, blast, blast, fastforce, blast)

text \<open>The head stays on the drive, whatever is called and however it ends.\<close>

lemma step_in_range:
  assumes "device_step D d d'" and "cyl d < limit d"
  shows "cyl d' < limit d'"
  using assms
proof cases
  case (seek c r)
  then have "limit d' = limit d" using seek_keeps(2) [of c] by (auto simp: keeps_def)
  then show ?thesis using seek_bounded [OF seek] assms(2) by auto
qed (use assms(2) side_frame others_frame in \<open>fastforce+\<close>)

lemma step_limit: "device_step D d d' \<Longrightarrow> limit d' = limit d"
proof (induction rule: device_step.induct)
  case (seek c d r d')
  then show ?case using seek_keeps(2) [of c] by (auto simp: keeps_def)
qed (use side_frame others_frame in \<open>fastforce+\<close>)

lemma steps_limit: "(device_step D)\<^sup>*\<^sup>* d d' \<Longrightarrow> limit d' = limit d"
  by (induction rule: rtranclp_induct) (auto dest: step_limit)

lemma steps_in_range: "(device_step D)\<^sup>*\<^sup>* d d' \<Longrightarrow> cyl d < limit d \<Longrightarrow> cyl d' < limit d'"
  by (induction rule: rtranclp_induct) (auto intro: step_in_range)

end

section \<open>Where the head was sent\<close>

text \<open>
  What a device has acknowledged since it was opened: the cylinder of the last seek and the side of
  the last selection that succeeded, and whether one has failed since.
\<close>

record head =
  hd_cylinder :: "u8 option"
  hd_side :: "side option"
  hd_seek_failed :: bool
  hd_side_failed :: bool

definition head_unknown :: head where
  "head_unknown = \<lparr>hd_cylinder = None, hd_side = None, hd_seek_failed = False, hd_side_failed = False\<rparr>"

text \<open>Calls on a device from a state \<open>d0\<close>, except for no-click steps, with that record of them.\<close>

inductive head_after :: "'d device \<Rightarrow> 'd \<Rightarrow> head \<Rightarrow> 'd \<Rightarrow> bool" for D d0 where
  opened: "head_after D d0 head_unknown d0"
| status: "head_after D d0 h d \<Longrightarrow> dv_status D d = Some (r, d') \<Longrightarrow> head_after D d0 h d'"
| motor: "head_after D d0 h d \<Longrightarrow> dv_set_motor D enabled quick d = Some (r, d') \<Longrightarrow> head_after D d0 h d'"
| read: "head_after D d0 h d \<Longrightarrow> dv_read_track D mode density (d, log) = Some (r, (d', log')) \<Longrightarrow>
    head_after D d0 h d'"
| write_track: "head_after D d0 h d \<Longrightarrow> dv_write_track D words bit_len from_index density d = Some (r, d') \<Longrightarrow>
    head_after D d0 h d'"
| seek: "head_after D d0 h d \<Longrightarrow> dv_seek D c d = Some (Inr (), d') \<Longrightarrow>
    head_after D d0 (h\<lparr>hd_cylinder := Some c, hd_seek_failed := False\<rparr>) d'"
| seek_fails: "head_after D d0 h d \<Longrightarrow> dv_seek D c d = Some (Inl e, d') \<Longrightarrow>
    head_after D d0 (h\<lparr>hd_seek_failed := True\<rparr>) d'"
| side: "head_after D d0 h d \<Longrightarrow> dv_select_side D s d = Some (Inr (), d') \<Longrightarrow>
    head_after D d0 (h\<lparr>hd_side := Some s, hd_side_failed := False\<rparr>) d'"
| side_fails: "head_after D d0 h d \<Longrightarrow> dv_select_side D s d = Some (Inl e, d') \<Longrightarrow>
    head_after D d0 (h\<lparr>hd_side_failed := True\<rparr>) d'"

text \<open>
  Unless a movement has failed since, what was acknowledged last is the position the backend
  records.
\<close>

context device_contract begin

lemma head_position:
  assumes "head_after D d0 h d"
  shows "(hd_seek_failed h \<or> (\<forall>c. hd_cylinder h = Some c \<longrightarrow> cyl d = c)) \<and>
    (hd_side_failed h \<or> (\<forall>s. hd_side h = Some s \<longrightarrow> surface d = s))"
  using assms
proof (induction rule: head_after.induct)
  case opened
  then show ?case by (simp add: head_unknown_def)
next
  case (seek h d c d')
  then show ?case using seek_reaches [of c d d'] seek_keeps(1) [of c] by (auto simp: keeps_def)
next
  case (seek_fails h d c e d')
  then show ?case using seek_keeps(1) [of c] by (auto simp: keeps_def)
next
  case (side h d s d')
  then show ?case using side_reaches [of s d d'] side_frame [of s d "Inr ()" d'] by auto
next
  case (side_fails h d s e d')
  then show ?case using side_frame [of s d "Inl e" d'] by auto
qed (auto dest: others_frame)

end

section \<open>Lemmas\<close>

lemma validate_capture_Inr:
  "validate_capture capture = Inr () \<longleftrightarrow>
     64 \<le> rc_bit_len capture \<and> rc_bit_len capture \<le> length (rc_words capture) * 16 \<and>
     rc_bit_len capture \<le> MAX_TRACK_BITS"
  by (auto simp: validate_capture_def)

lemma clamp_track_less: "0 < m \<Longrightarrow> ta_cylinder (clamp_track t m) < m"
proof -
  assume "0 < m"
  then have "unat (sat_sub8 m 1) < unat m" by (simp add: word_arith word_less_nat_alt)
  then have "sat_sub8 m 1 < m" by (simp add: word_less_nat_alt)
  then show ?thesis by (simp add: clamp_track_def min_less_iff_disj)
qed

lemma clamp_track_idem: "clamp_track (clamp_track t m) m = clamp_track t m"
  by (simp add: clamp_track_def)

lemma wp_on_device [wp_simps]:
  "io_wp (on_device m) Q s \<longleftrightarrow> io_wp m (\<lambda>r d. Q r (d, snd s)) (fst s)"
  by (simp add: on_device_def wp_zoom)

lemma wp_progress [wp_simps]:
  "io_wp (progress words bit_len) Q s \<longleftrightarrow> Q (Inr ()) (fst s, snd s @ [(words, bit_len)])"
  by (simp add: progress_def wp_basic split_def)

lemma wp_operation_deadline:
  assumes "transport_laws T clock rx tx"
    and "\<And>w' t. talks clock rx tx w w' [] [] \<Longrightarrow> Q (Inr t) w'"
  shows "io_wp (operation_deadline T) Q w"
  unfolding operation_deadline_def wp_simps
  by (rule wp_instant [OF assms(1)]) (auto simp: wp_simps intro: assms(2))

lemma halts_on_device [io_halts_intros]: "io_halts m \<Longrightarrow> io_halts (on_device m)"
  unfolding on_device_def by (rule io_halts_zoom)

lemma halts_progress [io_halts_intros]: "io_halts (progress words bit_len)"
  by (simp add: wp_halts wp_simps)

lemma wp_halts_keeps:
  "io_halts m \<Longrightarrow> keeps f m \<Longrightarrow> (\<And>r s'. f s' = f s \<Longrightarrow> Q r s') \<Longrightarrow> io_wp m Q s"
  unfolding io_halts_def keeps_def io_wp_def by (metis option.exhaust prod.exhaust)

lemma on_device_bind: "on_device (io_bind m f) = io_bind (on_device m) (\<lambda>a. on_device (f a))"
  by (rule ext) (auto simp: on_device_def io_zoom_def io_bind_def split: option.splits sum.splits)

lemma wp_gets_device:
  "io_wp (io_bind (on_device (io_gets f)) g) Q s \<longleftrightarrow> io_wp (g (f (fst s))) Q s"
  by (simp add: wp_bind wp_on_device wp_basic)

lemma gets_device_bind: "io_bind (on_device (io_gets f)) K s = K (f (fst s)) s"
  by (simp add: io_bind_def on_device_def io_zoom_def io_run)

end
