(* ===== verification/Greaseweazle_Codec.thy ===== *)
theory Greaseweazle_Codec
  imports Flux_Pll
begin

text \<open>
  The Greaseweazle's wire formats (\<^verbatim>\<open>src/device/greaseweazle.rs\<close>): command codes and
  packets, acknowledgements, and the encoding of flux intervals as sampling ticks in both
  directions. The central results: an encoded stream holds no zero byte, so the terminator is
  unambiguous, and the decoder gives back the ticks that were encoded.
\<close>

section \<open>Commands and acknowledgements\<close>

datatype gw_command =
    GetInfo | Seek | Head | SetParams | GetParams | Motor | ReadFlux | WriteFlux | GetFluxStatus
  | Select | Deselect | SetBusType | Reset | GetPin | NoClickStep

fun gw_code :: "gw_command \<Rightarrow> u8" where
  "gw_code GetInfo = 0"
| "gw_code Seek = 2"
| "gw_code Head = 3"
| "gw_code SetParams = 4"
| "gw_code GetParams = 5"
| "gw_code Motor = 6"
| "gw_code ReadFlux = 7"
| "gw_code WriteFlux = 8"
| "gw_code GetFluxStatus = 9"
| "gw_code Select = 12"
| "gw_code Deselect = 13"
| "gw_code SetBusType = 14"
| "gw_code Reset = 16"
| "gw_code GetPin = 20"
| "gw_code NoClickStep = 22"

fun gw_name :: "gw_command \<Rightarrow> string" where
  "gw_name GetInfo = ''GetInfo''"
| "gw_name Seek = ''Seek''"
| "gw_name Head = ''Head''"
| "gw_name SetParams = ''SetParams''"
| "gw_name GetParams = ''GetParams''"
| "gw_name Motor = ''Motor''"
| "gw_name ReadFlux = ''ReadFlux''"
| "gw_name WriteFlux = ''WriteFlux''"
| "gw_name GetFluxStatus = ''GetFluxStatus''"
| "gw_name Select = ''Select''"
| "gw_name Deselect = ''Deselect''"
| "gw_name SetBusType = ''SetBusType''"
| "gw_name Reset = ''Reset''"
| "gw_name GetPin = ''GetPin''"
| "gw_name NoClickStep = ''NoClickStep''"

definition gw_acknowledgement :: "gw_command \<Rightarrow> string" where
  "gw_acknowledgement c = ''Greaseweazle '' @ gw_name c @ '' acknowledgement''"

definition ACK_OK :: u8 where "ACK_OK = 0"
definition ACK_BAD_COMMAND :: u8 where "ACK_BAD_COMMAND = 1"
definition ACK_NO_INDEX :: u8 where "ACK_NO_INDEX = 2"
definition ACK_FLUX_OVERFLOW :: u8 where "ACK_FLUX_OVERFLOW = 4"
definition ACK_FLUX_UNDERFLOW :: u8 where "ACK_FLUX_UNDERFLOW = 5"
definition ACK_WRITE_PROTECTED :: u8 where "ACK_WRITE_PROTECTED = 6"

lemmas ack_defs =
  ACK_OK_def ACK_BAD_COMMAND_def ACK_NO_INDEX_def ACK_FLUX_OVERFLOW_def ACK_FLUX_UNDERFLOW_def
  ACK_WRITE_PROTECTED_def

definition gw_packet :: "gw_command \<Rightarrow> u8 list \<Rightarrow> u8 list result" where
  "gw_packet command parameters =
     (case try_u8 (length parameters + 2) of
        None \<Rightarrow> Inl (InvalidConfig ''Greaseweazle command too long'')
      | Some len \<Rightarrow> Inr (gw_code command # len # parameters))"

definition gw_map_ack :: "gw_command \<Rightarrow> u8 \<Rightarrow> unit result" where
  "gw_map_ack command ack =
     (if ack = ACK_OK then Inr ()
      else if ack = ACK_BAD_COMMAND
        then Inl (Protocol (''Greaseweazle rejected unsupported or malformed '' @
                    gw_name command @ '' command''))
      else if ack = ACK_NO_INDEX then Inl (Timeout ''Greaseweazle index pulse'')
      else if ack = ACK_WRITE_PROTECTED then Inl WriteProtected
      else if ack = ACK_FLUX_OVERFLOW then Inl (Protocol ''Greaseweazle flux overflow'')
      else if ack = ACK_FLUX_UNDERFLOW then Inl (Protocol ''Greaseweazle flux underflow'')
      else Inl (Protocol (''Greaseweazle returned acknowledgement '' @ dec_string (unat ack))))"

section \<open>Little-endian fields\<close>

definition le16 :: "u16 \<Rightarrow> u8 list" where
  "le16 w = [ucast w, ucast (drop_bit 8 w)]"

definition le32 :: "u32 \<Rightarrow> u8 list" where
  "le32 w = [ucast w, ucast (drop_bit 8 w), ucast (drop_bit 16 w), ucast (drop_bit 24 w)]"

fun le16_value :: "u8 list \<Rightarrow> u16" where
  "le16_value [a, b] = ucast a OR push_bit 8 (ucast b)"
| "le16_value _ = 0"

fun le32_value :: "u8 list \<Rightarrow> u32" where
  "le32_value [a, b, c, d] =
     ucast a OR push_bit 8 (ucast b) OR push_bit 16 (ucast c) OR push_bit 24 (ucast d)"
| "le32_value _ = 0"

section \<open>Flux streams\<close>

fun read_28bit_loop :: "nat list \<Rightarrow> u8 list \<Rightarrow> u32 \<Rightarrow> (u32 \<times> u8 list) result" where
  "read_28bit_loop [] queue value = Inr (drop_bit 1 value, queue)"
| "read_28bit_loop (shift # shifts) [] value =
     Inl (Protocol ''truncated Greaseweazle 28-bit value'')"
| "read_28bit_loop (shift # shifts) (byte # queue) value =
     read_28bit_loop shifts queue (value OR push_bit shift (ucast (drop_bit 1 byte)))"

definition read_28bit :: "u8 list \<Rightarrow> (u32 \<times> u8 list) result" where
  "read_28bit queue = read_28bit_loop [1, 8, 15, 22] queue 0"

lemma read_28bit_loop_shorter:
  "read_28bit_loop shifts queue acc = Inr (v, rest) \<Longrightarrow> length rest \<le> length queue"
  by (induction shifts queue acc rule: read_28bit_loop.induct) auto

lemma read_28bit_shorter: "read_28bit queue = Inr (v, rest) \<Longrightarrow> length rest \<le> length queue"
  unfolding read_28bit_def by (rule read_28bit_loop_shorter)

text \<open>
  The delay of an interval in nanoseconds. Dividing by a zero frequency panics in the source and is
  zero here: opening a device rejects that frequency, and what is stated of reads supposes another.
\<close>

definition ticks_to_ns :: "u32 \<Rightarrow> u32 \<Rightarrow> nat" where
  "ticks_to_ns frequency ticks =
     (unat ticks * 1000000000 + unat frequency div 2) div unat frequency"

function decode_loop ::
  "u32 \<Rightarrow> u8 list \<Rightarrow> u32 \<times> bool \<times> flux_event list \<Rightarrow> flux_event list result" where
  "decode_loop frequency [] (ticks, index, events) = Inr events"
| "decode_loop frequency (byte # queue) (ticks, index, events) =
     (let emit = (\<lambda>ticks queue.
        case try_u32 (ticks_to_ns frequency ticks) of
          None \<Rightarrow> Inl (Protocol ''Greaseweazle flux interval is too large'')
        | Some nanoseconds \<Rightarrow>
            Inr (events @ [\<lparr>fe_nanoseconds = nanoseconds, fe_index = index\<rparr>]))
      in if byte = 255 then
           (case queue of
              [] \<Rightarrow> Inl (Protocol ''truncated Greaseweazle opcode'')
            | opcode # queue \<Rightarrow>
                if opcode = 1 then
                  (case read_28bit queue of
                     Inl e \<Rightarrow> Inl e
                   | Inr (offset, queue) \<Rightarrow> decode_loop frequency queue (ticks, True, events))
                else if opcode = 2 then
                  (case read_28bit queue of
                     Inl e \<Rightarrow> Inl e
                   | Inr (space, queue) \<Rightarrow>
                       decode_loop frequency queue (sat_add32 ticks space, index, events))
                else if opcode = 3 then
                  (case queue of
                     [] \<Rightarrow> Inl (Protocol ''truncated Greaseweazle astable opcode'')
                   | period # queue \<Rightarrow> decode_loop frequency queue (ticks, index, events))
                else Inl (Protocol (''unknown Greaseweazle flux opcode '' @
                            dec_string (unat opcode))))
         else if byte < 250 then
           (case emit (sat_add32 ticks (ucast byte)) queue of
              Inl e \<Rightarrow> Inl e
            | Inr events \<Rightarrow> decode_loop frequency queue (0, False, events))
         else
           (case queue of
              [] \<Rightarrow> Inl (Protocol ''truncated Greaseweazle flux interval'')
            | low # queue \<Rightarrow>
                (case emit (sat_add32 ticks
                        (250 + (ucast byte - 250) * 255 + sat_sub32 (ucast low) 1)) queue of
                   Inl e \<Rightarrow> Inl e
                 | Inr events \<Rightarrow> decode_loop frequency queue (0, False, events))))"
  by pat_completeness auto
termination
  by (relation "measure (\<lambda>(_, queue, _). length queue)") (auto dest: read_28bit_shorter)

declare decode_loop.simps(2) [simp del]

definition decode_stream :: "u8 list \<Rightarrow> u32 \<Rightarrow> flux_event list result" where
  "decode_stream bytes frequency = decode_loop frequency bytes (0, False, [])"

definition encode_28bit :: "u32 \<Rightarrow> u8 list" where
  "encode_28bit value =
     [1 OR ucast (push_bit 1 value AND 0xff), 1 OR ucast (drop_bit 6 value AND 0xff),
      1 OR ucast (drop_bit 13 value AND 0xff), 1 OR ucast (drop_bit 20 value AND 0xff)]"

definition encode_ticks :: "u32 \<Rightarrow> u8 list" where
  "encode_ticks ticks =
     (if ticks < 250 then [ucast ticks]
      else let high = (ticks - 250) div 255
           in if high < 5 then [ucast (250 + high), ucast (1 + (ticks - 250) mod 255)]
              else [255, 2] @ encode_28bit (ticks - 249) @ [249])"

text \<open>The first loop of \<^verbatim>\<open>write_stream\<close>: intervals to ticks, with the terminator.\<close>

definition ns_to_ticks :: "u32 \<Rightarrow> u32 \<Rightarrow> nat" where
  "ns_to_ticks frequency nanoseconds =
     max ((unat nanoseconds * unat frequency + 500000000) div 1000000000) 1"

fun encode_timings :: "u32 \<Rightarrow> u32 list \<Rightarrow> u8 list \<Rightarrow> u8 list result" where
  "encode_timings frequency [] stream = Inr (stream @ [0])"
| "encode_timings frequency (nanoseconds # timings) stream =
     (case try_u32 (ns_to_ticks frequency nanoseconds) of
        None \<Rightarrow> Inl (Protocol ''Greaseweazle flux delay overflow'')
      | Some ticks \<Rightarrow> encode_timings frequency timings (stream @ encode_ticks ticks))"

section \<open>Density\<close>

definition HD_INTERVAL_CEILING_NS :: u32 where "HD_INTERVAL_CEILING_NS = 3000"
definition HD_DETECT_MIN_EVENTS :: nat where "HD_DETECT_MIN_EVENTS = 1000"

definition looks_high_density :: "flux_event list \<Rightarrow> bool" where
  "looks_high_density events \<longleftrightarrow>
     length (filter (\<lambda>event. fe_nanoseconds event < HD_INTERVAL_CEILING_NS) events) * 4 >
     length events"

section \<open>The encoding is free of zeros\<close>

lemma or_one_nonzero: "(1 OR x :: u8) \<noteq> 0"
proof
  assume "1 OR x = 0"
  then have "bit (1 OR x) 0 = bit (0 :: u8) 0" by simp
  then show False by (simp add: bit_or_iff)
qed

lemma encode_28bit_nonzero: "0 \<notin> set (encode_28bit v)"
  using or_one_nonzero by (auto simp: encode_28bit_def dest: sym)

lemma ucast_of_nat32: "n < 2 ^ 32 \<Longrightarrow> ucast (of_nat n :: u32) = (of_nat n :: u8)"
  by (simp add: unsigned_of_nat take_bit_nat_eq_self)

lemma ticks_cases:
  fixes t :: u32
  obtains (byte) "unat t < 250" "encode_ticks t = [ucast t]"
  | (pair) h r where "unat t = 250 + h * 255 + r" "h < 5" "r < 255"
      "encode_ticks t = [of_nat (250 + h), of_nat (1 + r)]"
  | (space) "1525 \<le> unat t" "encode_ticks t = [255, 2] @ encode_28bit (t - 249) @ [249]"
proof (cases "unat t < 250")
  case True
  then have "t < 250" by (simp add: word_less_nat_alt)
  with True show ?thesis by (intro byte) (simp_all add: encode_ticks_def)
next
  case False
  then have nlt: "\<not> t < 250" by (simp add: word_less_nat_alt)
  then have d: "unat (t - 250) = unat t - 250" by (simp add: unat_sub not_less)
  define h r where "h = (unat t - 250) div 255" and "r = (unat t - 250) mod 255"
  have split: "unat t = 250 + h * 255 + r"
    using False div_mult_mod_eq [of "unat t - 250" 255] by (simp add: h_def r_def)
  have r: "r < 255" by (simp add: r_def)
  have hw: "(t - 250) div 255 = of_nat h" "(t - 250) mod 255 = of_nat r"
    by (simp_all add: h_def r_def word_arith_nat_div word_arith_nat_mod d)
  have hb: "h < 2 ^ 32" using split unat_bound [of t] by simp
  have lt: "(of_nat h :: u32) < 5 \<longleftrightarrow> h < 5"
    using hb by (simp add: word_less_nat_alt unat_of_nat)
  show ?thesis
  proof (cases "h < 5")
    case True
    have "ucast (of_nat (250 + h) :: u32) = (of_nat (250 + h) :: u8)"
      "ucast (of_nat (1 + r) :: u32) = (of_nat (1 + r) :: u8)"
      using True r by (intro ucast_of_nat32; simp)+
    then have "ucast (250 + of_nat h :: u32) = (of_nat (250 + h) :: u8)"
      "ucast (1 + of_nat r :: u32) = (of_nat (1 + r) :: u8)"
      by (simp_all only: of_nat_add of_nat_numeral of_nat_1)
    then show ?thesis
      using nlt lt True r split by (intro pair [of h r]) (simp_all add: encode_ticks_def hw Let_def)
  next
    case False
    then show ?thesis
      using nlt lt split by (intro space) (simp_all add: encode_ticks_def hw Let_def)
  qed
qed

lemma encode_ticks_nonzero:
  assumes "0 < t"
  shows "0 \<notin> set (encode_ticks t)"
proof (rule ticks_cases [of t])
  assume "unat t < 250" "encode_ticks t = [ucast t]"
  moreover have "unat t \<noteq> 0" using assms by (simp add: unat_eq_0 word_gt_0)
  ultimately have "unat (ucast t :: u8) \<noteq> 0" by (simp add: unsigned_ucast_eq take_bit_nat_eq_self)
  then have "(ucast t :: u8) \<noteq> 0" by (metis unat_0)
  then show ?thesis using \<open>encode_ticks t = [ucast t]\<close> by (auto dest: sym)
next
  fix h r :: nat assume "h < 5" "r < 255" "encode_ticks t = [of_nat (250 + h), of_nat (1 + r)]"
  moreover have "unat (of_nat (250 + h) :: u8) \<noteq> 0" "unat (of_nat (1 + r) :: u8) \<noteq> 0"
    using calculation by (simp_all add: unat_of_nat take_bit_eq_mod del: of_nat_add of_nat_Suc)
  then have "(of_nat (250 + h) :: u8) \<noteq> 0" "(of_nat (1 + r) :: u8) \<noteq> 0" by (metis unat_0)+
  ultimately show ?thesis by (auto dest: sym)
next
  assume "encode_ticks t = [255, 2] @ encode_28bit (t - 249) @ [249]"
  then show ?thesis using encode_28bit_nonzero [of "t - 249"] by simp
qed

section \<open>Decoding what was encoded\<close>

lemma septet:
  fixes v :: u32
  shows "(ucast (drop_bit 1 (1 OR ucast (push_bit 1 v AND 0xff) :: u8)) :: u32) = take_bit 7 v"
    "(ucast (drop_bit 1 (1 OR ucast (drop_bit 6 v AND 0xff) :: u8)) :: u32) = take_bit 7 (drop_bit 7 v)"
    "(ucast (drop_bit 1 (1 OR ucast (drop_bit 13 v AND 0xff) :: u8)) :: u32) = take_bit 7 (drop_bit 14 v)"
    "(ucast (drop_bit 1 (1 OR ucast (drop_bit 20 v AND 0xff) :: u8)) :: u32) = take_bit 7 (drop_bit 21 v)"
proof -
  have m: "(0xff :: u32) = mask 8" by (simp add: mask_eq_exp_minus_1)
  show "(ucast (drop_bit 1 (1 OR ucast (push_bit 1 v AND 0xff) :: u8)) :: u32) = take_bit 7 v"
  proof (rule bit_word_eqI)
    fix n assume "n < LENGTH(32)"
    define d where "d = push_bit 1 v"
    have "bit d (Suc n) \<longleftrightarrow> Suc n < 32 \<and> bit v n"
      unfolding d_def by (simp only: bit_push_bit_iff possible_bit_word) simp
    then show "bit (ucast (drop_bit 1 (1 OR ucast (push_bit 1 v AND 0xff) :: u8)) :: u32) n =
        bit (take_bit 7 v) n"
      unfolding d_def [symmetric] by (auto simp: m bit_simps)
  qed
  show "(ucast (drop_bit 1 (1 OR ucast (drop_bit 6 v AND 0xff) :: u8)) :: u32) = take_bit 7 (drop_bit 7 v)"
    by (rule bit_word_eqI) (auto simp: m bit_simps)
  show "(ucast (drop_bit 1 (1 OR ucast (drop_bit 13 v AND 0xff) :: u8)) :: u32) = take_bit 7 (drop_bit 14 v)"
    by (rule bit_word_eqI) (auto simp: m bit_simps)
  show "(ucast (drop_bit 1 (1 OR ucast (drop_bit 20 v AND 0xff) :: u8)) :: u32) = take_bit 7 (drop_bit 21 v)"
    by (rule bit_word_eqI) (auto simp: m bit_simps)
qed

lemma join_septets:
  fixes v :: u32
  assumes "unat v < 2 ^ 28"
  shows "drop_bit 1 (push_bit 1 (take_bit 7 v) OR push_bit 8 (take_bit 7 (drop_bit 7 v)) OR
    push_bit 15 (take_bit 7 (drop_bit 14 v)) OR push_bit 22 (take_bit 7 (drop_bit 21 v))) = v"
proof (rule bit_word_eqI)
  fix n assume "n < LENGTH(32)"
  have "v = take_bit 28 v"
    using assms by (simp add: word_unat_eq_iff unsigned_take_bit_eq take_bit_nat_eq_self)
  then have high: "bit v n \<Longrightarrow> n < 28" for n by (metis bit_take_bit_iff)
  have cases: "n < 7 \<or> 7 \<le> n \<and> n < 14 \<or> 14 \<le> n \<and> n < 21 \<or> 21 \<le> n \<and> n < 28 \<or> 28 \<le> n" by linarith
  show "bit (drop_bit 1 (push_bit 1 (take_bit 7 v) OR push_bit 8 (take_bit 7 (drop_bit 7 v)) OR
    push_bit 15 (take_bit 7 (drop_bit 14 v)) OR push_bit 22 (take_bit 7 (drop_bit 21 v)))) n = bit v n"
    using cases high [of n] \<open>n < LENGTH(32)\<close>
    unfolding bit_drop_bit_eq comp_def bit_or_iff bit_push_bit_iff bit_take_bit_iff possible_bit_word
    by (auto simp: algebra_simps)
qed
lemma word_unat_Rep_inv: "of_nat (unat (w :: 'a::len word)) = w"
  by simp

lemma read_encode_28bit:
  assumes "unat v < 2 ^ 28"
  shows "read_28bit (encode_28bit v @ rest) = Inr (v, rest)"
  unfolding read_28bit_def encode_28bit_def append.simps read_28bit_loop.simps septet
    or.left_neutral or.assoc join_septets [OF assms] ..

text \<open>
  A streaming decoder that undoes an encoder item by item: \<open>run\<close> consumes a stream from a
  state, and reading what \<open>enc\<close> wrote for a good item has the effect \<open>eff\<close>.
\<close>

locale stream_codec =
  fixes run :: "'b list \<Rightarrow> 's \<Rightarrow> 'r"
    and enc :: "'a \<Rightarrow> 'b list"
    and eff :: "'a \<Rightarrow> 's \<Rightarrow> 's"
    and good :: "'a \<Rightarrow> bool"
    and ready :: "'s \<Rightarrow> bool"
  assumes enc_step: "good a \<Longrightarrow> ready s \<Longrightarrow> run (enc a @ rest) s = run rest (eff a s)"
    and ready_step: "good a \<Longrightarrow> ready s \<Longrightarrow> ready (eff a s)"
begin

lemma run_all:
  "(\<And>a. a \<in> set as \<Longrightarrow> good a) \<Longrightarrow> ready s \<Longrightarrow>
     run (concat (map enc as) @ rest) s = run rest (fold eff as s)"
proof (induction as arbitrary: s)
  case (Cons a as)
  then show ?case by (simp add: enc_step ready_step)
qed simp

end

definition good_ticks :: "u32 \<Rightarrow> u32 \<Rightarrow> bool" where
  "good_ticks frequency t \<longleftrightarrow>
     0 < t \<and> unat t \<le> 2 ^ 28 + 248 \<and> ticks_to_ns frequency t < 2 ^ 32"

definition emit_ticks ::
  "u32 \<Rightarrow> u32 \<Rightarrow> u32 \<times> bool \<times> flux_event list \<Rightarrow> u32 \<times> bool \<times> flux_event list" where
  "emit_ticks frequency t = (\<lambda>(ticks, index, events).
     (0, False, events @ [\<lparr>fe_nanoseconds = of_nat (ticks_to_ns frequency t), fe_index = index\<rparr>]))"

lemma decode_short:
  assumes "byte < 250" and "ticks_to_ns f (sat_add32 ticks (ucast byte)) < 2 ^ 32"
  shows "decode_loop f (byte # rest) (ticks, index, events) =
    decode_loop f rest (0, False, events @
      [\<lparr>fe_nanoseconds = of_nat (ticks_to_ns f (sat_add32 ticks (ucast byte))), fe_index = index\<rparr>])"
proof -
  have "byte \<noteq> 255" using assms(1) by auto
  then show ?thesis using assms by (simp add: decode_loop.simps(2) try_u32_def Let_def)
qed

lemma decode_pair:
  assumes "\<not> byte < 250" and "byte \<noteq> 255"
    and "t = sat_add32 ticks (250 + (ucast byte - 250) * 255 + sat_sub32 (ucast low) 1)"
    and "ticks_to_ns f t < 2 ^ 32"
  shows "decode_loop f (byte # low # rest) (ticks, index, events) =
    decode_loop f rest (0, False, events @
      [\<lparr>fe_nanoseconds = of_nat (ticks_to_ns f t), fe_index = index\<rparr>])"
  using assms by (simp add: decode_loop.simps(2) try_u32_def Let_def)

lemma decode_space:
  assumes "unat v < 2 ^ 28"
  shows "decode_loop f (255 # 2 # encode_28bit v @ rest) (ticks, index, events) =
    decode_loop f rest (sat_add32 ticks v, index, events)"
  using read_encode_28bit [OF assms, of rest] by (simp add: decode_loop.simps(2) Let_def)

lemma sat_add32_zero: "sat_add32 0 t = t"
  using unat_bound [of t] by (simp add: sat_add32_def)

lemma decode_encode_ticks:
  assumes "good_ticks f t"
  shows "decode_loop f (encode_ticks t @ rest) (0, index, events) =
    decode_loop f rest (0, False, events @
      [\<lparr>fe_nanoseconds = of_nat (ticks_to_ns f t), fe_index = index\<rparr>])"
proof (rule ticks_cases [of t])
  assume t: "unat t < 250" "encode_ticks t = [ucast t]"
  have u: "unat (ucast t :: u8) = unat t"
    using t(1) by (simp add: unsigned_ucast_eq take_bit_nat_eq_self)
  then have "(ucast (ucast t :: u8) :: u32) = t"
    by (metis of_nat_unat word_unat_Rep_inv)
  moreover have "(ucast t :: u8) < 250" using t(1) u by (simp add: word_less_nat_alt)
  ultimately show ?thesis
    using decode_short [of "ucast t" f 0 rest index events] assms
    by (simp add: t(2) sat_add32_zero good_ticks_def)
next
  fix h r :: nat
  assume t: "unat t = 250 + h * 255 + r" "h < 5" "r < 255"
    and e: "encode_ticks t = [of_nat (250 + h), of_nat (1 + r)]"
  define b l :: u8 where "b = of_nat (250 + h)" and "l = of_nat (1 + r)"
  have u: "unat b = 250 + h" "unat l = 1 + r"
    unfolding b_def l_def using t(2,3)
    by (simp_all add: unsigned_of_nat take_bit_nat_eq_self del: of_nat_add of_nat_Suc)
  then have b: "\<not> b < 250" "b \<noteq> 255" using t(2) by (auto simp: word_less_nat_alt word_unat_eq_iff)
  have ub: "(ucast b :: u32) = of_nat (250 + h)" "(ucast l :: u32) = of_nat (1 + r)"
    using u by (metis of_nat_unat)+
  have "sat_sub32 (ucast l) 1 = of_nat r"
    unfolding ub using t(3)
    by (simp add: word_unat_eq_iff word_arith unsigned_of_nat take_bit_nat_eq_self del: of_nat_add of_nat_Suc)
  moreover have "(ucast b - 250 :: u32) = of_nat h" unfolding ub by simp
  ultimately have "250 + (ucast b - 250) * 255 + sat_sub32 (ucast l) 1 = (of_nat (250 + h * 255 + r) :: u32)"
    by simp
  also have "\<dots> = t" using t(1) by (metis word_unat_Rep_inv)
  finally have "t = sat_add32 0 (250 + (ucast b - 250) * 255 + sat_sub32 (ucast l) 1)"
    by (simp only: sat_add32_zero)
  from decode_pair [OF b this, of f rest index events] show ?thesis
    using assms unfolding e b_def [symmetric] l_def [symmetric] by (simp add: good_ticks_def)
next
  assume t: "1525 \<le> unat t" "encode_ticks t = [255, 2] @ encode_28bit (t - 249) @ [249]"
  have s: "unat (t - 249) = unat t - 249" using t(1) by (simp add: unat_sub word_le_nat_alt)
  then have v: "unat (t - 249) < 2 ^ 28" using assms t(1) by (auto simp: good_ticks_def)
  have "sat_add32 (t - 249) (ucast (249 :: u8)) = t"
    using t(1) s unat_bound [of t] by (simp add: word_unat_eq_iff word_arith)
  then have "decode_loop f (249 # rest) (t - 249, index, events) =
    decode_loop f rest (0, False, events @
      [\<lparr>fe_nanoseconds = of_nat (ticks_to_ns f t), fe_index = index\<rparr>])"
    using decode_short [of 249 f "t - 249" rest index events] assms by (simp add: good_ticks_def)
  then show ?thesis
    using decode_space [OF v, of f "249 # rest" 0 index events] by (simp add: t(2) sat_add32_zero)
qed

interpretation gw_flux: stream_codec "decode_loop f" encode_ticks "emit_ticks f" "good_ticks f"
  "\<lambda>s. fst s = 0" for f
  by unfold_locales (auto simp: emit_ticks_def decode_encode_ticks)

lemma fold_emit_ticks:
  "fold (emit_ticks f) ts (0, False, events) =
     (0, False, events @ map (\<lambda>t. \<lparr>fe_nanoseconds = of_nat (ticks_to_ns f t), fe_index = False\<rparr>) ts)"
  by (induction ts arbitrary: events) (simp_all add: emit_ticks_def)

lemma decode_encoded:
  assumes "\<And>t. t \<in> set ts \<Longrightarrow> good_ticks f t"
  shows "decode_stream (concat (map encode_ticks ts)) f =
    Inr (map (\<lambda>t. \<lparr>fe_nanoseconds = of_nat (ticks_to_ns f t), fe_index = False\<rparr>) ts)"
  using gw_flux.run_all [of ts f "(0, False, [])" "[]"] assms
  by (simp add: decode_stream_def fold_emit_ticks)

section \<open>Rounding\<close>

text \<open>A half-up quotient is within half a unit: stated multiplied out.\<close>

lemma round_div:
  assumes "0 < f"
  shows "2 * x < 2 * (((x :: nat) + f div 2) div f) * f + f + 1"
    and "2 * ((x + f div 2) div f) * f \<le> 2 * x + f"
proof -
  define q where "q = (x + f div 2) div f"
  have "q * f \<le> x + f div 2" "x + f div 2 < q * f + f"
    using assms div_mult_mod_eq [of "x + f div 2" f] mod_less_divisor [OF assms, of "x + f div 2"]
    unfolding q_def by linarith+
  then show "2 * x < 2 * ((x + f div 2) div f) * f + f + 1"
    "2 * ((x + f div 2) div f) * f \<le> 2 * x + f"
    unfolding q_def [symmetric] by linarith+
qed

definition timing_ok :: "u32 \<Rightarrow> u32 \<Rightarrow> bool" where
  "timing_ok f ns \<longleftrightarrow> 500000000 \<le> unat ns * unat f \<and> unat ns \<le> 2 ^ 31 \<and>
     (unat ns * unat f + 500000000) div 1000000000 \<le> 2 ^ 28 + 248"

text \<open>Through ticks and back, an interval moves by at most half a tick and half a nanosecond.\<close>

lemma ticks_error:
  assumes f: "1000000 \<le> unat f" and ok: "timing_ok f ns"
  obtains t where "try_u32 (ns_to_ticks f ns) = Some t" and "good_ticks f t"
    and "2 * unat f * ticks_to_ns f t \<le> 2 * unat f * unat ns + 1000000000 + unat f"
    and "2 * unat f * unat ns \<le> 2 * unat f * ticks_to_ns f t + 1000000000 + unat f"
    and "1000000000 dvd unat ns * unat f \<longrightarrow> ticks_to_ns f t = unat ns"
proof -
  define p n where "p = unat ns * unat f" and "n = ns_to_ticks f ns"
  have n: "n = (p + 500000000) div 1000000000" "0 < n" "n \<le> 2 ^ 28 + 248"
    using ok by (auto simp: n_def p_def ns_to_ticks_def timing_ok_def)
  obtain t where t: "try_u32 n = Some t" "unat t = n"
    using n(3) try_u32_Some [of n "of_nat n"] by (force simp: unat_of_nat take_bit_nat_eq_self)
  define q where "q = ticks_to_ns f t"
  have q: "q = (n * 1000000000 + unat f div 2) div unat f"
    by (simp add: q_def ticks_to_ns_def t(2))
  have f0: "0 < unat f" using f by simp
  have r1: "2 * p < 2 * n * 1000000000 + 1000000000 + 1" "2 * n * 1000000000 \<le> 2 * p + 1000000000"
    using round_div [of 1000000000 p] by (simp_all add: n(1))
  have r2: "2 * (n * 1000000000) < 2 * q * unat f + unat f + 1"
    "2 * q * unat f \<le> 2 * (n * 1000000000) + unat f"
    using round_div [OF f0, of "n * 1000000000"] by (simp_all only: q)
  have le: "2 * q * unat f \<le> 2 * p + 1000000000 + unat f"
    "2 * p \<le> 2 * q * unat f + 1000000000 + unat f"
    using r1 r2 by linarith+
  have "2 * (q * unat f) \<le> 2 * ((2 ^ 31) * unat f) + 1000 * unat f + unat f"
  proof -
    have "p \<le> 2 ^ 31 * unat f" using ok unfolding p_def timing_ok_def by (intro mult_right_mono) simp_all
    moreover have "(1000000000 :: nat) \<le> 1000 * unat f" using f by simp
    ultimately show ?thesis using le(1) by (simp only: mult.assoc)
  qed
  then have "(2 * q) * unat f \<le> (2 * 2 ^ 31 + 1001) * unat f" by (simp add: algebra_simps)
  then have "2 * q \<le> 2 * 2 ^ 31 + 1001" using f0 by (simp only: mult_le_cancel2)
  then have "good_ticks f t"
    using n(2,3) t(2) by (simp add: good_ticks_def word_less_nat_alt flip: q_def)
  moreover have "q = unat ns" if d: "1000000000 dvd unat ns * unat f"
  proof -
    obtain k where k: "p = 1000000000 * k" using d unfolding p_def by (auto elim: dvdE)
    then have "n = k" by (simp add: n(1))
    then have "q = (unat ns * unat f + unat f div 2) div unat f"
      unfolding q by (metis k mult.commute p_def)
    also have "\<dots> = unat ns" using f0 by simp
    finally show ?thesis .
  qed
  ultimately show ?thesis
    using that [of t] t(1) le unfolding n_def q_def p_def by (simp add: mult_ac)
qed

lemma encode_timings_eq:
  "list_all2 (\<lambda>ns t. try_u32 (ns_to_ticks f ns) = Some t) timings ts \<Longrightarrow>
     encode_timings f timings stream = Inr (stream @ concat (map encode_ticks ts) @ [0])"
  by (induction timings ts arbitrary: stream rule: list_all2_induct) simp_all

section \<open>Properties\<close>

text \<open>
  C20: A stream of flux intervals encoded for the Greaseweazle is free of zero bytes before its
  terminator, and decoding it gives one event per interval, each within half a sampling tick and
  half a nanosecond of the interval; an interval that is a whole number of ticks comes back
  exactly. This is for a sampling frequency of at least a megahertz and intervals of at least half
  a tick, at most \<^verbatim>\<open>2^31\<close> nanoseconds and at most \<^verbatim>\<open>2^28 + 248\<close> ticks; a
  longer one does not fit the encoding.
\<close>

theorem gw_flux_roundtrip:
  assumes "1000000 \<le> unat f" and "\<forall>ns \<in> set timings. timing_ok f ns"
  shows "\<exists>body events. encode_timings f timings [] = Inr (body @ [0]) \<and> 0 \<notin> set body \<and>
    decode_stream body f = Inr events \<and>
    list_all2 (\<lambda>ns event. \<not> fe_index event \<and>
        2 * unat f * unat (fe_nanoseconds event) \<le> 2 * unat f * unat ns + 1000000000 + unat f \<and>
        2 * unat f * unat ns \<le> 2 * unat f * unat (fe_nanoseconds event) + 1000000000 + unat f \<and>
        (1000000000 dvd unat ns * unat f \<longrightarrow> fe_nanoseconds event = ns)) timings events"
proof -
  let ?e = "\<lambda>t. \<lparr>fe_nanoseconds = of_nat (ticks_to_ns f t), fe_index = False\<rparr>"
  let ?near = "\<lambda>ns event. \<not> fe_index event \<and>
        2 * unat f * unat (fe_nanoseconds event) \<le> 2 * unat f * unat ns + 1000000000 + unat f \<and>
        2 * unat f * unat ns \<le> 2 * unat f * unat (fe_nanoseconds event) + 1000000000 + unat f \<and>
        (1000000000 dvd unat ns * unat f \<longrightarrow> fe_nanoseconds event = ns)"
  have "\<exists>t. try_u32 (ns_to_ticks f ns) = Some t \<and> good_ticks f t \<and> ?near ns (?e t)"
    if ns: "ns \<in> set timings" for ns
  proof -
    have "timing_ok f ns" using assms(2) ns by blast
    then obtain t where t: "try_u32 (ns_to_ticks f ns) = Some t" "good_ticks f t"
      "2 * unat f * ticks_to_ns f t \<le> 2 * unat f * unat ns + 1000000000 + unat f"
      "2 * unat f * unat ns \<le> 2 * unat f * ticks_to_ns f t + 1000000000 + unat f"
      "1000000000 dvd unat ns * unat f \<longrightarrow> ticks_to_ns f t = unat ns"
      by (rule ticks_error [OF assms(1)])
    have u: "unat (of_nat (ticks_to_ns f t) :: u32) = ticks_to_ns f t"
      using t(2) by (simp add: good_ticks_def unsigned_of_nat take_bit_nat_eq_self)
    show ?thesis
      using t by (intro exI [of _ t]) (simp add: u word_unat_eq_iff [of "of_nat (ticks_to_ns f t)"])
  qed
  then obtain tick where tick: "\<And>ns. ns \<in> set timings \<Longrightarrow>
      try_u32 (ns_to_ticks f ns) = Some (tick ns) \<and> good_ticks f (tick ns) \<and> ?near ns (?e (tick ns))"
    by metis
  define ts where "ts = map tick timings"
  have "list_all2 (\<lambda>ns t. try_u32 (ns_to_ticks f ns) = Some t) timings ts"
    using tick by (auto simp: ts_def list_all2_map2 intro!: list.rel_refl_strong)
  then have "encode_timings f timings [] = Inr (concat (map encode_ticks ts) @ [0])"
    by (simp add: encode_timings_eq)
  moreover have good: "\<And>t. t \<in> set ts \<Longrightarrow> good_ticks f t" using tick by (auto simp: ts_def)
  then have "0 \<notin> set (concat (map encode_ticks ts))"
    using encode_ticks_nonzero by (auto simp: good_ticks_def)
  moreover have "decode_stream (concat (map encode_ticks ts)) f = Inr (map ?e ts)"
    using good by (rule decode_encoded)
  moreover have "list_all2 ?near timings (map ?e ts)"
    using tick by (auto simp: ts_def list_all2_map2 intro!: list.rel_refl_strong)
  ultimately show ?thesis by blast
qed

theorem gw_flux_roundtrip_witness:
  "encode_timings 72000000 [4000, 6000, 100000] [] =
     Inr ([250, 39, 250, 183] @ [255, 2, 79, 109, 1, 1, 249] @ [0]) \<and>
   (\<exists>body events. encode_timings 72000000 [4000, 6000, 100000] [] = Inr (body @ [0]) \<and>
     0 \<notin> set body \<and> decode_stream body 72000000 = Inr events \<and>
     map fe_nanoseconds events = [4000, 6000, 100000])"
proof
  show "encode_timings 72000000 [4000, 6000, 100000] [] =
     Inr ([250, 39, 250, 183] @ [255, 2, 79, 109, 1, 1, 249] @ [0])"
    by (simp add: ns_to_ticks_def try_u32_def encode_ticks_def encode_28bit_def Let_def)
  have ok: "\<forall>ns \<in> set [4000, 6000, 100000]. timing_ok 72000000 ns" by (simp add: timing_ok_def)
  have f: "1000000 \<le> unat (72000000 :: u32)" by simp
  obtain body events where enc: "encode_timings 72000000 [4000, 6000, 100000] [] = Inr (body @ [0])"
    "0 \<notin> set body" "decode_stream body 72000000 = Inr events"
    "list_all2 (\<lambda>ns event. 1000000000 dvd unat ns * unat (72000000 :: u32) \<longrightarrow>
       fe_nanoseconds event = ns) [4000, 6000, 100000] events"
    using gw_flux_roundtrip [OF f ok]
    by (elim exE conjE) (rule that, assumption, assumption, assumption, erule list_all2_mono, blast)
  moreover have "(1000000000 :: nat) dvd unat (4000 :: u32) * unat (72000000 :: u32)"
    "(1000000000 :: nat) dvd unat (6000 :: u32) * unat (72000000 :: u32)"
    "(1000000000 :: nat) dvd unat (100000 :: u32) * unat (72000000 :: u32)"
    by simp_all
  ultimately have "map fe_nanoseconds events = [4000, 6000, 100000]"
    by (simp only: list_all2_Cons1) auto
  then show "\<exists>body events. encode_timings 72000000 [4000, 6000, 100000] [] = Inr (body @ [0]) \<and>
     0 \<notin> set body \<and> decode_stream body 72000000 = Inr events \<and>
     map fe_nanoseconds events = [4000, 6000, 100000]"
    by (intro exI [of _ body] exI [of _ events] conjI enc)
qed

end
