(* ===== verification/Greaseweazle_Device.thy ===== *)
theory Greaseweazle_Device
  imports Device Greaseweazle_Codec Flux_Join "HOL-Library.Product_Lexorder"
begin

text \<open>
  The Greaseweazle backend (\<^verbatim>\<open>src/device/greaseweazle.rs\<close>) over a transport
  \<open>T\<close>. The device's record holds the transport's world; every operation is a program on
  that record. Reading a track also has the progress log at hand.
\<close>

section \<open>The device\<close>

definition GW_BAUD :: u32 where "GW_BAUD = 9600"
definition GW_COMMAND_TIMEOUT :: nat where "GW_COMMAND_TIMEOUT = secs 2"
definition GW_STREAM_TIMEOUT :: nat where "GW_STREAM_TIMEOUT = secs 3"
definition GW_MAX_STREAM_BYTES :: nat where "GW_MAX_STREAM_BYTES = 1024 * 1024"
definition DELAY_STEP :: nat where "DELAY_STEP = 1"
definition DELAY_MOTOR :: nat where "DELAY_MOTOR = 3"
definition STEP_INTERVAL_US :: u16 where "STEP_INTERVAL_US = 3000"

record 'w greaseweazle =
  gw_world :: 'w
  gw_port :: port_id
  gw_status :: drive_status
  gw_sample_frequency :: u32
  gw_delays :: "u16 list"
  gw_bus :: u8
  gw_drive :: u8
  gw_selected :: bool
  gw_high_density :: bool

text \<open>A call on the transport, and an assignment to a field of the status.\<close>

definition gw_link :: "('w, 'a) io \<Rightarrow> ('w greaseweazle, 'a) io" where
  "gw_link m = io_zoom gw_world (\<lambda>w d. d\<lparr>gw_world := w\<rparr>) m"

definition gw_set_status :: "(drive_status \<Rightarrow> drive_status) \<Rightarrow> ('w greaseweazle, unit) io" where
  "gw_set_status f = io_modify (\<lambda>d. d\<lparr>gw_status := f (gw_status d)\<rparr>)"

section \<open>Commands\<close>

definition gw_run_command ::
  "'w transport \<Rightarrow> gw_command \<Rightarrow> u8 list \<Rightarrow> nat \<Rightarrow> ('w greaseweazle, u8 list) io" where
  "gw_run_command T command parameters extra =
     io_bind (io_result (gw_packet command parameters)) (\<lambda>packet.
       gw_link
        (io_bind (operation_deadline T) (\<lambda>deadline.
          io_then (write_all_until T packet deadline ''Greaseweazle command'')
           (io_bind (read_exact_until T 2 deadline (gw_acknowledgement command)) (\<lambda>response.
             if response ! 0 \<noteq> gw_code command
             then io_throw (Protocol (''Greaseweazle replied to command '' @
                    hex_byte (response ! 0) @ '' while '' @ hex_byte (gw_code command) @
                    '' was pending''))
             else io_then (io_result (gw_map_ack command (response ! 1)))
               (if extra = 0 then io_return []
                else read_exact_until T extra deadline ''Greaseweazle command payload''))))))"

definition gw_expect_ok ::
  "'w transport \<Rightarrow> gw_command \<Rightarrow> u8 list \<Rightarrow> ('w greaseweazle, unit) io" where
  "gw_expect_ok T command parameters =
     io_bind (gw_run_command T command parameters 0) (\<lambda>_. io_return ())"

definition gw_raw_command_ack ::
  "'w transport \<Rightarrow> gw_command \<Rightarrow> u8 list \<Rightarrow> ('w greaseweazle, u8) io" where
  "gw_raw_command_ack T command parameters =
     io_bind (io_result (gw_packet command parameters)) (\<lambda>packet.
       gw_link
        (io_bind (operation_deadline T) (\<lambda>deadline.
          io_then (write_all_until T packet deadline ''Greaseweazle command'')
           (io_bind (read_exact_until T 2 deadline (gw_acknowledgement command)) (\<lambda>response.
             if response ! 0 \<noteq> gw_code command
             then io_throw (Protocol ''Greaseweazle command acknowledgement was out of sequence'')
             else io_return (response ! 1))))))"

definition gw_prepare_transport :: "'w transport \<Rightarrow> ('w greaseweazle, unit) io" where
  "gw_prepare_transport T =
     gw_link (io_then (tr_set_dtr T True) (io_then (tr_set_rts T True) (tr_purge T)))"

definition gw_get_firmware :: "'w transport \<Rightarrow> ('w greaseweazle, u8 list) io" where
  "gw_get_firmware T = gw_run_command T GetInfo [0] 32"

definition gw_select :: "'w transport \<Rightarrow> bool \<Rightarrow> ('w greaseweazle, unit) io" where
  "gw_select T selected =
     io_bind (io_gets id) (\<lambda>d.
       if selected = gw_selected d then io_return ()
       else io_then
         (if selected then gw_expect_ok T Select [gw_drive d] else gw_expect_ok T Deselect [])
         (io_modify (\<lambda>d. d\<lparr>gw_selected := selected\<rparr>)))"

definition gw_check_pins :: "'w transport \<Rightarrow> ('w greaseweazle, unit) io" where
  "gw_check_pins T =
     io_bind (io_gets (\<lambda>d. \<not> ds_motor_running (gw_status d))) (\<lambda>deselect.
       io_then (gw_select T True)
        (io_bind (gw_run_command T GetPin [28] 1) (\<lambda>write_protect.
          io_then (gw_set_status (ds_write_protected_update (\<lambda>_. write_protect ! 0 = 0)))
           (io_bind (io_gets gw_bus) (\<lambda>bus.
             io_then
               (if bus = 1
                then io_bind (gw_run_command T GetPin [34] 1) (\<lambda>disk_change.
                       gw_set_status (ds_disk_present_update (\<lambda>_. disk_change ! 0 = 1)))
                else gw_set_status (ds_disk_present_update (\<lambda>_. True)))
               (io_when deselect (gw_select T False)))))))"

definition gw_update_delays :: "'w transport \<Rightarrow> ('w greaseweazle, unit) io" where
  "gw_update_delays T =
     io_bind (io_gets gw_delays) (\<lambda>delays.
       gw_expect_ok T SetParams (0 # concat (map le16 delays)))"

section \<open>Opening\<close>

definition gw_set_motor :: "'w transport \<Rightarrow> bool \<Rightarrow> bool \<Rightarrow> ('w greaseweazle, unit) io" where
  "gw_set_motor T enabled quick =
     (let desired_delay = (if quick then 10 else 750) in
      io_bind (io_gets gw_delays) (\<lambda>delays.
        io_then (io_when (delays ! DELAY_MOTOR \<noteq> desired_delay)
            (io_then (io_modify (\<lambda>d. d\<lparr>gw_delays := (gw_delays d)[DELAY_MOTOR := desired_delay]\<rparr>))
              (gw_update_delays T)))
          (io_bind (io_gets gw_drive) (\<lambda>drive.
            io_then (gw_expect_ok T Motor [drive, of_bool enabled])
             (io_then (gw_set_status (ds_motor_running_update (\<lambda>_. enabled)))
               (gw_select T enabled))))))"

definition gw_drop :: "'w transport \<Rightarrow> ('w greaseweazle, unit) io" where
  "gw_drop T = io_ignore (gw_set_motor T False True)"

definition gw_initial :: "port_id \<Rightarrow> bridge_config \<Rightarrow> 'w \<Rightarrow> 'w greaseweazle" where
  "gw_initial port config w =
     \<lparr>gw_world = w, gw_port = port,
      gw_status = drive_status_default\<lparr>ds_max_cylinders := 82\<rparr>,
      gw_sample_frequency = 0, gw_delays = replicate 5 0,
      gw_bus = fst (drive_selection (cfg_drive config)),
      gw_drive = snd (drive_selection (cfg_drive config)),
      gw_selected = False, gw_high_density = (cfg_density config = DensityHigh)\<rparr>"

definition gw_check_version :: "u8 list \<Rightarrow> u32 result" where
  "gw_check_version version =
     (let major = version ! 0; minor = version ! 1 in
      if (major, minor) < (0, 27)
      then Inl (UnsupportedFirmware (''Greaseweazle '' @ dec_string (unat major) @ ''.'' @
                  dec_string (unat minor) @ ''; version 0.27 or later is required''))
      else if version ! 2 = 0
      then Inl (UnsupportedFirmware ''Greaseweazle is running update firmware'')
      else let frequency = le32_value (take 4 (drop 4 version)) in
        if frequency = 0
        then Inl (Protocol ''Greaseweazle reported a zero sample frequency'')
        else Inr frequency)"

definition gw_setup :: "'w transport \<Rightarrow> ('w greaseweazle, unit) io" where
  "gw_setup T =
     io_then (gw_prepare_transport T)
      (io_bind (io_or_else (gw_get_firmware T)
          (io_then (gw_link (tr_purge T)) (gw_get_firmware T))) (\<lambda>version.
        io_bind (io_result (gw_check_version version)) (\<lambda>frequency.
          io_then (io_modify (\<lambda>d. d\<lparr>gw_sample_frequency := frequency\<rparr>))
           (io_then (gw_expect_ok T Reset [])
             (io_bind (gw_run_command T GetParams [0, 10] 10) (\<lambda>delay_bytes.
               io_then (io_modify (\<lambda>d. d\<lparr>gw_delays :=
                   map (\<lambda>i. le16_value [delay_bytes ! (2 * i), delay_bytes ! (2 * i + 1)]) [0..<5]\<rparr>))
                (io_bind (io_gets gw_delays) (\<lambda>delays.
                  io_then (io_when (delays ! DELAY_STEP \<noteq> STEP_INTERVAL_US)
                      (io_then
                        (io_modify (\<lambda>d. d\<lparr>gw_delays := (gw_delays d)[DELAY_STEP := STEP_INTERVAL_US]\<rparr>))
                        (gw_update_delays T)))
                   (io_bind (io_gets gw_bus) (\<lambda>bus.
                     io_then (gw_expect_ok T SetBusType [bus])
                      (io_then (gw_check_pins T)
                        (gw_set_status (\<lambda>s. s\<lparr>ds_working := True, ds_drive_type := Hd35\<rparr>)))))))))))))"

definition gw_open ::
  "features \<Rightarrow> 'w port_lib \<Rightarrow> port_id \<Rightarrow> bridge_config \<Rightarrow> ('w, 'w transport \<times> 'w greaseweazle) io" where
  "gw_open feats L port config =
     io_bind (transport_open feats L port GW_BAUD GW_COMMAND_TIMEOUT) (\<lambda>T.
       io_bind (construct (gw_initial port config) gw_world (gw_setup T) (gw_drop T)) (\<lambda>d.
         io_return (T, d)))"

section \<open>Reading\<close>

text \<open>
  Density first: a forced density is taken as ordered, \<^verbatim>\<open>Auto\<close> measures a long enough
  stream and otherwise keeps the last verdict. High-density delays are doubled for the PLL.
\<close>

definition resolve_density :: "density_mode \<Rightarrow> flux_event list \<Rightarrow> bool \<Rightarrow> bool" where
  "resolve_density density events current =
     (case density of
        DensityDouble \<Rightarrow> False
      | DensityHigh \<Rightarrow> True
      | DensityAuto \<Rightarrow>
          if length events \<ge> HD_DETECT_MIN_EVENTS then looks_high_density events else current)"

definition double_delay :: "flux_event \<Rightarrow> flux_event" where
  "double_delay event = event\<lparr>fe_nanoseconds := sat_mul32 (fe_nanoseconds event) 2\<rparr>"

definition gw_decode_at_density ::
  "u8 list \<Rightarrow> density_mode \<Rightarrow> ('w greaseweazle, flux_event list) io" where
  "gw_decode_at_density raw density =
     io_bind (io_gets gw_sample_frequency) (\<lambda>frequency.
       io_bind (io_result (decode_stream raw frequency)) (\<lambda>events.
         io_then (io_modify (\<lambda>d. d\<lparr>gw_high_density := resolve_density density events (gw_high_density d)\<rparr>))
          (io_bind (io_gets gw_high_density) (\<lambda>high.
            io_return (if high then map double_delay events else events)))))"

text \<open>Three seconds from now.\<close>

definition gw_stream_deadline :: "'w transport \<Rightarrow> ('w greaseweazle, nat) io" where
  "gw_stream_deadline T =
     gw_link (io_bind (tr_instant T) (\<lambda>now. io_return (now + GW_STREAM_TIMEOUT)))"

definition decode_cells :: "flux_event list \<Rightarrow> bool list" where
  "decode_cells events = snd (pll_events events (pll_new, []))"

partial_function (option) gw_drain_loop ::
  "'w transport \<Rightarrow> nat \<Rightarrow> density_mode \<Rightarrow> u8 list \<Rightarrow> nat \<Rightarrow>
     ('w greaseweazle \<times> progress_log, bool list) io" where
  "gw_drain_loop T deadline density raw published s =
     (if length raw \<ge> GW_MAX_STREAM_BYTES
      then io_throw (TrackTooLarge (length raw * 8) (GW_MAX_STREAM_BYTES * 8)) s
      else io_then (on_device (gw_link (arm_timeout T deadline ''Greaseweazle flux stream'')))
       (io_bind (on_device (gw_link (attempt (tr_read T CHUNK)))) (\<lambda>r s.
         case r of
           Inl e \<Rightarrow>
             if try_again e then gw_drain_loop T deadline density raw published s
             else io_throw (Io e) s
         | Inr bytes \<Rightarrow>
             if bytes = [] then io_throw Disconnected s
             else
               let raw = raw @ takeWhile (\<lambda>byte. byte \<noteq> 0) bytes in
               if 0 \<in> set bytes then
                 io_bind (on_device (gw_decode_at_density raw density)) (\<lambda>events.
                   let bits = decode_cells events in
                   io_then (progress (pack_bits bits) (length bits)) (io_return bits)) s
               else if length raw \<ge> published + 4 * 1024 then
                 io_bind (on_device (attempt (gw_decode_at_density raw density))) (\<lambda>r s.
                   case r of
                     Inl e \<Rightarrow> gw_drain_loop T deadline density raw published s
                   | Inr events \<Rightarrow>
                       let bits = decode_cells events in
                       io_then (progress (pack_bits bits) (length bits))
                         (gw_drain_loop T deadline density raw (length raw)) s) s
               else gw_drain_loop T deadline density raw published s)) s)"

definition gw_drain_fast_stream ::
  "'w transport \<Rightarrow> nat \<Rightarrow> density_mode \<Rightarrow> ('w greaseweazle \<times> progress_log, bool list) io" where
  "gw_drain_fast_stream T deadline density = gw_drain_loop T deadline density [] 0"

text \<open>
  The retry loop of \<^verbatim>\<open>read_stream\<close> and \<^verbatim>\<open>read_stream_fast\<close>: request a
  capture, drain it, ask how it went. The two differ in how they drain the stream and in what an
  overflow withdraws.
\<close>

partial_function (option) gw_capture_loop ::
  "'w transport \<Rightarrow> u8 list \<Rightarrow> ('w greaseweazle \<times> progress_log, 'a) io \<Rightarrow>
     ('w greaseweazle \<times> progress_log, unit) io \<Rightarrow> nat \<Rightarrow>
     ('w greaseweazle \<times> progress_log, 'a) io" where
  "gw_capture_loop T header drain withdraw attempts s =
     io_then (on_device (gw_expect_ok T ReadFlux header))
      (io_bind drain (\<lambda>stream.
        io_bind (on_device (gw_raw_command_ack T GetFluxStatus [])) (\<lambda>status s.
          if status = ACK_OK then
            io_then (on_device (gw_set_status (\<lambda>s. s\<lparr>ds_disk_present := True, ds_ready := True\<rparr>)))
              (io_return stream) s
          else if status = ACK_NO_INDEX then
            io_then (on_device (gw_set_status (ds_disk_present_update (\<lambda>_. False))))
              (io_throw (Timeout ''Greaseweazle index pulse'')) s
          else if status = ACK_FLUX_OVERFLOW \<and> attempts + 1 < 3 then
            io_then (on_device (gw_link (tr_purge T)))
              (io_then withdraw
                (gw_capture_loop T header drain withdraw (attempts + 1))) s
          else if status = ACK_FLUX_OVERFLOW then
            io_throw (Protocol ''Greaseweazle flux receive buffer overflowed'') s
          else io_then (io_result (gw_map_ack GetFluxStatus status))
            (gw_capture_loop T header drain withdraw (attempts + 1)) s))) s"

definition gw_flux_header :: "u32 \<Rightarrow> u16 \<Rightarrow> u32 \<Rightarrow> u8 list" where
  "gw_flux_header ticks max_index linger = le32 ticks @ le16 max_index @ le32 linger"

definition gw_release :: "'w transport \<Rightarrow> ('w greaseweazle, unit) io" where
  "gw_release T =
     io_bind (io_gets (\<lambda>d. ds_motor_running (gw_status d))) (\<lambda>running.
       io_when (\<not> running) (gw_select T False))"

definition gw_read_stream_fast ::
  "'w transport \<Rightarrow> density_mode \<Rightarrow> ('w greaseweazle \<times> progress_log, raw_capture) io" where
  "gw_read_stream_fast T density =
     io_then (on_device (gw_select T True))
      (io_bind (on_device (io_gets gw_sample_frequency)) (\<lambda>frequency.
        io_bind (io_expect (try_u32 (unat frequency * 232 div 1000))) (\<lambda>ticks.
          io_bind (gw_capture_loop T (gw_flux_header ticks 0 0)
              (io_bind (on_device (gw_stream_deadline T)) (\<lambda>deadline.
                gw_drain_fast_stream T deadline density))
              (progress [] 0) 0) (\<lambda>bits.
            io_then (on_device (gw_release T))
             (io_bind (on_device (io_gets gw_high_density)) (\<lambda>high.
               io_bind (io_result (bits_to_unaligned_revolution bits high)) (\<lambda>joined.
                 let capture = \<lparr>rc_words = pack_bits joined, rc_bit_len = length joined,
                                rc_index_aligned = False\<rparr>
                 in io_then (io_result (validate_capture capture)) (io_return capture))))))))"

definition gw_read_stream ::
  "'w transport \<Rightarrow> read_mode \<Rightarrow> density_mode \<Rightarrow>
     ('w greaseweazle \<times> progress_log, raw_capture) io" where
  "gw_read_stream T mode density =
     io_then (on_device (gw_select T True))
      (io_bind (on_device (io_gets gw_sample_frequency)) (\<lambda>frequency.
        io_bind
          (if mode = Normal
           then io_bind (io_expect (try_u32 (unat frequency * 232 div 1000))) (\<lambda>ticks.
                  io_return (ticks, 0, 0))
           else io_bind (io_expect (try_u32 (unat frequency * 2))) (\<lambda>ticks.
                  io_bind (io_expect (try_u32 (unat frequency * 20 div 1000))) (\<lambda>linger.
                    io_return (ticks, 2, linger)))) (\<lambda>(ticks, max_index, linger).
          io_bind (gw_capture_loop T (gw_flux_header ticks max_index linger)
              (on_device (io_bind (gw_stream_deadline T) (\<lambda>deadline.
                io_bind (gw_link (read_terminated_until T deadline GW_MAX_STREAM_BYTES
                    ''Greaseweazle flux stream'')) (\<lambda>stream.
                  if length stream \<ge> GW_MAX_STREAM_BYTES
                  then io_throw (TrackTooLarge (length stream * 8) (GW_MAX_STREAM_BYTES * 8))
                  else io_return stream))))
              (io_return ()) 0) (\<lambda>stream.
            io_then (on_device (gw_release T))
             (io_bind (on_device (gw_decode_at_density stream density)) (\<lambda>events.
               io_bind (on_device (io_gets gw_high_density)) (\<lambda>high.
                 let index_aligned = (mode \<noteq> Normal) in
                 io_bind
                   (if index_aligned then io_result (flux_to_revolution events)
                    else io_bind (io_result (flux_to_unaligned_revolution events high))
                           (\<lambda>(words, bits). io_return (words, bits, False)))
                   (\<lambda>(words, bit_len, extracted_index).
                     let capture = \<lparr>rc_words = words, rc_bit_len = bit_len,
                                    rc_index_aligned = (index_aligned \<and> extracted_index)\<rparr>
                     in io_then (io_result (validate_capture capture)) (io_return capture)))))))))"

section \<open>Writing\<close>

definition gw_write_stream ::
  "'w transport \<Rightarrow> u16 list \<Rightarrow> nat \<Rightarrow> bool \<Rightarrow> ('w greaseweazle, unit) io" where
  "gw_write_stream T words bit_len from_index =
     io_bind (io_gets gw_high_density) (\<lambda>high.
       io_bind (io_result (mfm_to_flux words bit_len (if high then 1000 else 2000))) (\<lambda>timings.
         io_bind (io_gets gw_sample_frequency) (\<lambda>frequency.
           io_bind (io_result (encode_timings frequency timings [])) (\<lambda>stream.
             io_then (gw_select T True)
              (io_bind (gw_raw_command_ack T WriteFlux [of_bool from_index, 0]) (\<lambda>ack.
                io_then
                  (if ack = ACK_OK then io_return ()
                   else if ack = ACK_WRITE_PROTECTED then io_throw WriteProtected
                   else io_result (gw_map_ack WriteFlux ack))
                  (io_bind (gw_stream_deadline T) (\<lambda>deadline.
                    io_then (gw_link (write_all_until T stream deadline ''Greaseweazle flux write''))
                     (io_bind (gw_link (read_exact_until T 1 deadline
                         ''Greaseweazle write completion'')) (\<lambda>sync.
                       io_bind (gw_raw_command_ack T GetFluxStatus []) (\<lambda>ack.
                         if ack = ACK_OK then io_return ()
                         else if ack = ACK_WRITE_PROTECTED then io_throw WriteProtected
                         else if ack = ACK_FLUX_UNDERFLOW
                           then io_throw (Protocol ''Greaseweazle flux transmit buffer underflowed'')
                         else io_result (gw_map_ack GetFluxStatus ack))))))))))))"

section \<open>The device interface\<close>

definition gw_get_status :: "'w transport \<Rightarrow> ('w greaseweazle, drive_status) io" where
  "gw_get_status T =
     io_then (gw_check_pins T)
      (io_then (gw_set_status (\<lambda>s. s\<lparr>ds_working := True,
          ds_ready := (ds_motor_running s \<and> ds_disk_present s)\<rparr>))
        (io_gets gw_status))"

definition gw_seek :: "'w transport \<Rightarrow> u8 \<Rightarrow> ('w greaseweazle, unit) io" where
  "gw_seek T cylinder =
     io_bind (io_gets (\<lambda>d. ds_max_cylinders (gw_status d))) (\<lambda>max_cylinders.
       if cylinder \<ge> max_cylinders
       then io_throw (InvalidConfig (''Greaseweazle cylinder '' @ dec_string (unat cylinder) @
              '' is out of range''))
       else io_then (gw_select T True)
        (io_then (gw_expect_ok T Seek [cylinder])
          (io_then (gw_set_status (ds_cylinder_update (\<lambda>_. cylinder))) (gw_release T))))"

definition gw_select_side :: "'w transport \<Rightarrow> side \<Rightarrow> ('w greaseweazle, unit) io" where
  "gw_select_side T side =
     io_then (gw_expect_ok T Head [side_number side])
       (gw_set_status (ds_side_update (\<lambda>_. side)))"

definition gw_no_click_step :: "'w transport \<Rightarrow> ('w greaseweazle, unit) io" where
  "gw_no_click_step T =
     io_then (gw_select T True) (io_then (gw_expect_ok T NoClickStep []) (gw_check_pins T))"

definition gw_read_track ::
  "'w transport \<Rightarrow> read_mode \<Rightarrow> density_mode \<Rightarrow>
     ('w greaseweazle \<times> progress_log, raw_capture) io" where
  "gw_read_track T mode density =
     (if mode = Normal then gw_read_stream_fast T density else gw_read_stream T mode density)"

definition gw_write_track ::
  "'w transport \<Rightarrow> u16 list \<Rightarrow> nat \<Rightarrow> bool \<Rightarrow> density_mode \<Rightarrow> ('w greaseweazle, unit) io" where
  "gw_write_track T words bit_len from_index density =
     io_then (io_modify (\<lambda>d. d\<lparr>gw_high_density :=
         (density = DensityHigh \<or> density = DensityAuto \<and> gw_high_density d)\<rparr>))
       (gw_write_stream T words bit_len from_index)"

definition gw_device :: "'w transport \<Rightarrow> 'w greaseweazle device" where
  "gw_device T =
     \<lparr>dv_selected_port = gw_port, dv_status = gw_get_status T, dv_set_motor = gw_set_motor T,
      dv_seek = gw_seek T, dv_select_side = gw_select_side T,
      dv_no_click_step = gw_no_click_step T, dv_read_track = gw_read_track T,
      dv_write_track = gw_write_track T\<rparr>"

section \<open>What the operations leave unchanged\<close>

text \<open>Everything but the head position, as one tuple; and the position with its limit.\<close>

definition gw_pos :: "'w greaseweazle \<Rightarrow> u8 \<times> side \<times> u8" where
  "gw_pos d = (ds_cylinder (gw_status d), ds_side (gw_status d), ds_max_cylinders (gw_status d))"

definition gw_fixed :: "'w greaseweazle \<Rightarrow> port_id \<times> u32 \<times> u8 \<times> u8" where
  "gw_fixed d = (gw_port d, gw_sample_frequency d, gw_bus d, gw_drive d)"

definition gw_frame :: "'w greaseweazle \<Rightarrow> (u8 \<times> side \<times> u8) \<times> (port_id \<times> u32 \<times> u8 \<times> u8)" where
  "gw_frame d = (gw_pos d, gw_fixed d)"

lemmas gw_frame_defs = gw_frame_def gw_pos_def gw_fixed_def

lemma keeps_gw_link [keeps_intros]: "keeps gw_frame (gw_link m)"
  by (auto simp: keeps_def gw_link_def io_zoom_returns_iff gw_frame_defs)

lemma keeps_gw_set_status:
  "(\<And>s. ds_cylinder (f s) = ds_cylinder s \<and> ds_side (f s) = ds_side s \<and>
         ds_max_cylinders (f s) = ds_max_cylinders s) \<Longrightarrow> keeps gw_frame (gw_set_status f)"
  unfolding gw_set_status_def by (rule keeps_modify) (simp add: gw_frame_defs)

lemma keeps_gw_commands [keeps_intros]:
  "keeps gw_frame (gw_run_command T c ps extra)"
  "keeps gw_frame (gw_expect_ok T c ps)"
  "keeps gw_frame (gw_raw_command_ack T c ps)"
  unfolding gw_expect_ok_def gw_run_command_def gw_raw_command_ack_def
  by (intro keeps_intros)+

lemma keeps_gw_select [keeps_intros]: "keeps gw_frame (gw_select T b)"
  unfolding gw_select_def by (intro keeps_intros) (simp add: gw_frame_defs)

lemma keeps_gw_check_pins [keeps_intros]: "keeps gw_frame (gw_check_pins T)"
  unfolding gw_check_pins_def by (intro keeps_intros keeps_gw_set_status) simp_all

lemma keeps_gw_parts [keeps_intros]:
  "keeps gw_frame (gw_update_delays T)" "keeps gw_frame (gw_release T)"
  "keeps gw_frame (gw_stream_deadline T)"
  unfolding gw_update_delays_def gw_release_def gw_stream_deadline_def by (intro keeps_intros)+

lemma keeps_gw_decode [keeps_intros]: "keeps gw_frame (gw_decode_at_density raw density)"
  unfolding gw_decode_at_density_def by (intro keeps_intros) (simp add: gw_frame_defs)

lemma keeps_gw_set_motor: "keeps gw_frame (gw_set_motor T enabled quick)"
  unfolding gw_set_motor_def Let_def
  by (intro keeps_intros keeps_gw_set_status) (simp_all add: gw_frame_defs)

lemma keeps_gw_get_status: "keeps gw_frame (gw_get_status T)"
  unfolding gw_get_status_def by (intro keeps_intros keeps_gw_set_status) simp

lemma keeps_gw_no_click: "keeps gw_frame (gw_no_click_step T)"
  unfolding gw_no_click_step_def by (intro keeps_intros)

lemma keeps_gw_write: "keeps gw_frame (gw_write_track T words bit_len from_index density)"
  unfolding gw_write_track_def gw_write_stream_def
  by (intro keeps_intros) (simp add: gw_frame_defs)

text \<open>The two loops, by induction on their unfolding.\<close>

abbreviation gw_frame_fst :: "'w greaseweazle \<times> progress_log \<Rightarrow> (u8 \<times> side \<times> u8) \<times> (port_id \<times> u32 \<times> u8 \<times> u8)" where
  "gw_frame_fst s \<equiv> gw_frame (fst s)"

lemma keeps_gw_drain_loop: "keeps gw_frame_fst (gw_drain_loop T deadline density raw published)"
proof -
  have "\<forall>T deadline density raw published.
      keeps gw_frame_fst (gw_drain_loop T deadline density raw published)"
  proof (rule gw_drain_loop.fixp_induct, goal_cases)
    case 1
    show ?case unfolding curry_def by (intro keeps_admissible_intros)
  next
    case (3 loop)
    then show ?case
      unfolding Let_def by (intro allI keeps_intros) simp_all
  qed (simp add: keeps_def)
  then show ?thesis by blast
qed

lemma keeps_gw_capture_loop:
  assumes "keeps gw_frame_fst drain" and "keeps gw_frame_fst withdraw"
  shows "keeps gw_frame_fst (gw_capture_loop T header drain withdraw attempts)"
proof -
  have "\<forall>T header drain withdraw attempts. keeps gw_frame_fst drain \<longrightarrow> keeps gw_frame_fst withdraw \<longrightarrow>
      keeps gw_frame_fst (gw_capture_loop T header drain withdraw attempts)"
  proof (rule gw_capture_loop.fixp_induct, goal_cases)
    case 1
    show ?case unfolding curry_def by (intro keeps_admissible_intros)
  next
    case (3 loop)
    then show ?case
      unfolding Let_def by (intro allI impI keeps_intros keeps_gw_set_status) simp_all
  qed (simp add: keeps_def)
  then show ?thesis using assms by blast
qed

lemma keeps_gw_read_track: "keeps gw_frame_fst (gw_read_track T mode density)"
  unfolding gw_read_track_def gw_read_stream_fast_def gw_read_stream_def gw_drain_fast_stream_def Let_def
  by (intro keeps_intros keeps_gw_capture_loop keeps_gw_drain_loop)

section \<open>The contract\<close>

definition gw_cylinder :: "'w greaseweazle \<Rightarrow> u8" where
  "gw_cylinder d = ds_cylinder (gw_status d)"

definition gw_side :: "'w greaseweazle \<Rightarrow> side" where
  "gw_side d = ds_side (gw_status d)"

definition gw_limit :: "'w greaseweazle \<Rightarrow> u8" where
  "gw_limit d = ds_max_cylinders (gw_status d)"

lemmas gw_position_defs = gw_cylinder_def gw_side_def gw_limit_def

lemma gw_frame_position:
  "gw_cylinder d = fst (fst (gw_frame d))" "gw_side d = fst (snd (fst (gw_frame d)))"
  "gw_limit d = snd (snd (fst (gw_frame d)))"
  "(gw_cylinder d, gw_side d, gw_limit d) = fst (gw_frame d)"
  by (simp_all add: gw_position_defs gw_frame_defs)

lemma gw_keeps_frame:
  "keeps gw_frame m \<Longrightarrow> keeps gw_cylinder m" "keeps gw_frame m \<Longrightarrow> keeps gw_side m"
  "keeps gw_frame m \<Longrightarrow> keeps gw_limit m"
  "keeps gw_frame m \<Longrightarrow> keeps (\<lambda>d. (gw_cylinder d, gw_side d, gw_limit d)) m"
  by (rule keeps_proj, assumption, rule gw_frame_position)+

lemma gw_seek_bounded:
  assumes "gw_seek T c d = Some (r, d')"
  shows "gw_cylinder d' = gw_cylinder d \<or> gw_cylinder d' = c \<and> c < gw_limit d"
    and "r = Inr () \<Longrightarrow> gw_cylinder d' = c \<and> c < gw_limit d"
proof -
  have set: "gw_set_status (ds_cylinder_update (\<lambda>_. c)) d1 = Some (q, d2) \<Longrightarrow> q = Inr () \<and> gw_cylinder d2 = c"
    for q d1 d2 by (auto simp: gw_set_status_def io_run gw_cylinder_def)
  have frame: "m d1 = Some (q, d2) \<Longrightarrow> keeps gw_frame m \<Longrightarrow> gw_cylinder d2 = gw_cylinder d1"
    for m :: "('a greaseweazle, unit) io" and q d1 d2
    using gw_keeps_frame(1) [of m] by (auto simp: keeps_def)
  note frames = frame [OF _ keeps_gw_select] frame [OF _ keeps_gw_commands(2)] frame [OF _ keeps_gw_parts(2)]
  show "gw_cylinder d' = gw_cylinder d \<or> gw_cylinder d' = c \<and> c < gw_limit d"
    using assms unfolding gw_seek_def io_bind_returns_iff
    by (auto simp: io_run gw_limit_def not_le split: if_splits dest!: frames dest: set simp: io_bind_returns_iff)
  show "r = Inr () \<Longrightarrow> gw_cylinder d' = c \<and> c < gw_limit d"
    using assms unfolding gw_seek_def
    by (auto simp: io_run gw_limit_def not_le io_bind_ok_iff split: if_splits dest!: frames dest: set)
qed

lemma keeps_gw_seek: "keeps gw_side (gw_seek T c)" "keeps gw_limit (gw_seek T c)"
  unfolding gw_seek_def gw_set_status_def
  by (intro keeps_intros gw_keeps_frame; simp add: gw_position_defs)+

lemma keeps_gw_select_side: "keeps gw_cylinder (gw_select_side T s)" "keeps gw_limit (gw_select_side T s)"
  unfolding gw_select_side_def gw_set_status_def
  by (intro keeps_intros gw_keeps_frame; simp add: gw_position_defs)+

lemma gw_select_side_reaches:
  "gw_select_side T s d = Some (Inr (), d') \<Longrightarrow> gw_side d' = s"
  by (auto simp: gw_select_side_def io_bind_ok_iff gw_set_status_def io_run gw_side_def)

lemma gw_capture_valid:
  assumes "gw_read_track T mode density s = Some (Inr capture, s')"
  shows "capture_ok mode capture"
proof (cases "mode = Normal")
  case True
  then show ?thesis
    using assms
    by (auto simp: gw_read_track_def gw_read_stream_fast_def io_bind_ok_iff io_run
        capture_ok_def Let_def)
next
  case False
  then show ?thesis
    using assms
    by (auto simp: gw_read_track_def gw_read_stream_def io_bind_ok_iff io_run
        capture_ok_def Let_def split_def)
qed

lemma gw_keeps_read:
  "keeps (\<lambda>s. (gw_cylinder (fst s), gw_side (fst s), gw_limit (fst s))) (gw_read_track T mode density)"
  by (rule keeps_proj [OF keeps_gw_read_track]) (rule gw_frame_position(4))

interpretation greaseweazle: device_contract "gw_device T" gw_cylinder gw_side gw_limit for T
proof (unfold_locales, goal_cases)
  case (1 c d d')
  then show ?case using gw_seek_bounded(2) [of T c d] by (simp add: gw_device_def)
next
  case (2 c d r d')
  then show ?case by (simp add: gw_device_def gw_seek_bounded(1))
next
  case (13 dens mode s capture s')
  then show ?case by (auto simp: gw_device_def intro: gw_capture_valid)
qed (simp_all add: gw_device_def keeps_gw_seek keeps_gw_select_side gw_select_side_reaches
    gw_keeps_frame(4) keeps_gw_get_status keeps_gw_set_motor keeps_gw_write keeps_gw_no_click
    gw_keeps_read)

end
