(* ===== verification/Greaseweazle_Wire.thy ===== *)
theory Greaseweazle_Wire
  imports Greaseweazle_Device
begin

text \<open>
  What the Greaseweazle backend does on the wire, for any transport that obeys
  \<open>transport_laws\<close>: a command sends its packet and nothing else and consumes exactly its
  reply, the operations composed of commands return, and what a successful track write puts on
  the wire is the encoding of the track.
\<close>

section \<open>Commands\<close>

lemma wp_gw_link [wp_simps]:
  "io_wp (gw_link m) Q d \<longleftrightarrow> io_wp m (\<lambda>r w. Q r (d\<lparr>gw_world := w\<rparr>)) (gw_world d)"
  by (simp add: gw_link_def wp_zoom)

lemma wp_gw_set_status [wp_simps]:
  "io_wp (gw_set_status f) Q d \<longleftrightarrow> Q (Inr ()) (d\<lparr>gw_status := f (gw_status d)\<rparr>)"
  by (simp add: gw_set_status_def wp_basic)

lemma gw_packet_Inr:
  "gw_packet c ps = Inr packet \<longleftrightarrow>
     packet = gw_code c # of_nat (length ps + 2) # ps \<and> length ps + 2 < 256"
  by (auto simp: gw_packet_def try_u8_def)

lemma gw_map_ack_Inr: "gw_map_ack c a = Inr () \<longleftrightarrow> a = ACK_OK"
  by (simp add: gw_map_ack_def)

lemma two_bytes: "length bytes = 2 \<Longrightarrow> bytes = [bytes ! 0, bytes ! 1]"
  by (cases bytes rule: list.exhaust; cases "tl bytes" rule: list.exhaust) auto

text \<open>One exchange: the packet goes out, two bytes come back.\<close>

lemma wp_gw_exchange:
  assumes laws: "transport_laws T clock rx tx"
    and stop: "\<And>e w' sent got. talks clock rx tx w w' sent got \<Longrightarrow> Q (Inl e) w'"
    and reply: "\<And>deadline w' a b. talks clock rx tx w w' packet [a, b] \<Longrightarrow> io_wp (f deadline [a, b]) Q w'"
  shows "io_wp (io_bind (operation_deadline T) (\<lambda>deadline.
      io_then (write_all_until T packet deadline op)
        (io_bind (read_exact_until T 2 deadline op') (f deadline)))) Q w"
  unfolding wp_simps
proof (rule wp_operation_deadline [OF laws], unfold sum.case)
  fix w1 deadline assume w1: "talks clock rx tx w w1 [] []"
  show "io_wp (write_all_until T packet deadline op) (\<lambda>r t. case r of Inl e \<Rightarrow> Q (Inl e) t
      | Inr a \<Rightarrow> io_wp (read_exact_until T 2 deadline op') (\<lambda>r t. case r of Inl e \<Rightarrow> Q (Inl e) t
          | Inr a \<Rightarrow> io_wp (f deadline a) Q t) t) w1"
  proof (rule wp_write_all [OF laws], unfold sum.case)
    fix e w' k assume "talks clock rx tx w1 w' (take k packet) []"
    then show "Q (Inl e) w'" by (rule stop [OF talks_trans [OF w1]])
  next
    fix w2 assume "talks clock rx tx w1 w2 packet []"
    then have w2: "talks clock rx tx w w2 packet []" using talks_trans [OF w1] by fastforce
    show "io_wp (read_exact_until T 2 deadline op') (\<lambda>r t. case r of Inl e \<Rightarrow> Q (Inl e) t
          | Inr a \<Rightarrow> io_wp (f deadline a) Q t) w2"
    proof (rule wp_read_exact [OF laws], unfold sum.case)
      fix e w' got assume "talks clock rx tx w2 w' [] got"
      then show "Q (Inl e) w'" by (rule stop [OF talks_trans [OF w2]])
    next
      fix bytes w' assume "talks clock rx tx w2 w' [] bytes" "length bytes = 2"
      then show "io_wp (f deadline bytes) Q w'"
        using talks_trans [OF w2, of w' "[]" bytes] reply [of w' "bytes ! 0" "bytes ! 1" deadline]
          two_bytes [of bytes] by simp
    qed
  qed
qed

lemma wp_gw_run_command:
  assumes laws: "transport_laws T clock rx tx"
    and stop: "\<And>e w' sent got. talks clock rx tx (gw_world d) w' sent got \<Longrightarrow>
      Q (Inl e) (d\<lparr>gw_world := w'\<rparr>)"
    and reply: "\<And>w' payload. length ps < 254 \<Longrightarrow> length payload = extra \<Longrightarrow>
      talks clock rx tx (gw_world d) w' (gw_code c # of_nat (length ps + 2) # ps)
        (gw_code c # ACK_OK # payload) \<Longrightarrow> Q (Inr payload) (d\<lparr>gw_world := w'\<rparr>)"
  shows "io_wp (gw_run_command T c ps extra) Q d"
proof (cases "gw_packet c ps")
  case (Inl e)
  then show ?thesis
    using stop [OF talks_refl] by (simp add: gw_run_command_def wp_simps)
next
  case (Inr packet)
  note p = this [unfolded gw_packet_Inr]
  show ?thesis
    unfolding gw_run_command_def Inr io_bind_result wp_gw_link
  proof (rule wp_gw_exchange [OF laws], goal_cases)
    case (1 e w' sent got)
    then show ?case by (rule stop)
  next
    case (2 deadline w' a b)
    note t = 2
    show ?case
    proof (cases "a = gw_code c \<and> b = ACK_OK")
      case False
      then show ?thesis
        using stop [OF t] by (cases "gw_map_ack c b") (auto simp: wp_simps gw_map_ack_Inr)
    next
      case True
      have "Q (Inr []) (d\<lparr>gw_world := w'\<rparr>)" if "extra = 0"
        using reply [of "[]" w'] t p True that by simp
      moreover have "io_wp (read_exact_until T extra deadline op)
          (\<lambda>r w. Q r (d\<lparr>gw_world := w\<rparr>)) w'" for op
      proof (rule wp_read_exact [OF laws])
        fix e w2 got assume "talks clock rx tx w' w2 [] got"
        then show "Q (Inl e) (d\<lparr>gw_world := w2\<rparr>)" by (rule stop [OF talks_trans [OF t]])
      next
        fix bytes w2 assume "talks clock rx tx w' w2 [] bytes" "length bytes = extra"
        then show "Q (Inr bytes) (d\<lparr>gw_world := w2\<rparr>)"
          using talks_trans [OF t] p True by (intro reply) fastforce+
      qed
      ultimately show ?thesis using True by (simp add: wp_simps gw_map_ack_def)
    qed
  qed
qed

lemma wp_gw_expect_ok:
  assumes "transport_laws T clock rx tx"
    and "\<And>e w' sent got. talks clock rx tx (gw_world d) w' sent got \<Longrightarrow>
      Q (Inl e) (d\<lparr>gw_world := w'\<rparr>)"
    and "\<And>w'. length ps < 254 \<Longrightarrow>
      talks clock rx tx (gw_world d) w' (gw_code c # of_nat (length ps + 2) # ps) [gw_code c, ACK_OK] \<Longrightarrow>
      Q (Inr ()) (d\<lparr>gw_world := w'\<rparr>)"
  shows "io_wp (gw_expect_ok T c ps) Q d"
  unfolding gw_expect_ok_def wp_bind
  by (rule wp_gw_run_command [OF assms(1)]) (auto simp: wp_basic intro: assms(2,3))

lemma wp_gw_raw_command_ack:
  assumes laws: "transport_laws T clock rx tx"
    and stop: "\<And>e w' sent got. talks clock rx tx (gw_world d) w' sent got \<Longrightarrow>
      Q (Inl e) (d\<lparr>gw_world := w'\<rparr>)"
    and reply: "\<And>w' ack. length ps < 254 \<Longrightarrow>
      talks clock rx tx (gw_world d) w' (gw_code c # of_nat (length ps + 2) # ps) [gw_code c, ack] \<Longrightarrow>
      Q (Inr ack) (d\<lparr>gw_world := w'\<rparr>)"
  shows "io_wp (gw_raw_command_ack T c ps) Q d"
proof (cases "gw_packet c ps")
  case (Inl e)
  then show ?thesis
    using stop [OF talks_refl] by (simp add: gw_raw_command_ack_def wp_simps)
next
  case (Inr packet)
  note p = this [unfolded gw_packet_Inr]
  show ?thesis
    unfolding gw_raw_command_ack_def Inr io_bind_result wp_gw_link
    by (rule wp_gw_exchange [OF laws])
      (use p in \<open>auto simp: wp_basic intro: stop reply\<close>)
qed

lemma gw_halts_commands:
  assumes "transport_laws T clock rx tx"
  shows "io_halts (gw_run_command T c ps extra)" "io_halts (gw_expect_ok T c ps)"
    "io_halts (gw_raw_command_ack T c ps)"
  unfolding wp_halts
  by (auto intro: wp_gw_run_command [OF assms] wp_gw_expect_ok [OF assms]
      wp_gw_raw_command_ack [OF assms])

section \<open>Every operation returns\<close>

lemma halts_gw_set_status [io_halts_intros]: "io_halts (gw_set_status f)"
  by (simp add: wp_halts wp_simps)

lemma halts_gw_link [io_halts_intros]: "io_halts m \<Longrightarrow> io_halts (gw_link m)"
  unfolding gw_link_def by (rule io_halts_zoom)

lemma gw_halts_parts:
  assumes "transport_laws T clock rx tx"
  shows "io_halts (gw_select T b)" "io_halts (gw_check_pins T)" "io_halts (gw_update_delays T)"
    "io_halts (gw_release T)" "io_halts (gw_stream_deadline T)"
    "io_halts (gw_decode_at_density raw density)"
proof -
  note commands = gw_halts_commands [OF assms]
  show select: "io_halts (gw_select T b)" for b
    unfolding gw_select_def by (intro io_halts_intros commands)
  show "io_halts (gw_check_pins T)"
    unfolding gw_check_pins_def by (intro io_halts_intros commands select)
  show "io_halts (gw_update_delays T)"
    unfolding gw_update_delays_def by (intro io_halts_intros commands)
  show "io_halts (gw_release T)"
    unfolding gw_release_def by (intro io_halts_intros select)
  show "io_halts (gw_stream_deadline T)"
    unfolding gw_stream_deadline_def by (intro io_halts_intros transport_halts [OF assms])
  show "io_halts (gw_decode_at_density raw density)"
    unfolding gw_decode_at_density_def by (intro io_halts_intros)
qed

lemma gw_halts_operations:
  assumes "transport_laws T clock rx tx"
  shows "io_halts (gw_get_status T)" "io_halts (gw_set_motor T enabled quick)" "io_halts (gw_seek T c)"
    "io_halts (gw_select_side T s)" "io_halts (gw_no_click_step T)"
    "io_halts (gw_write_track T words bit_len from_index density)"
proof -
  note steps = gw_halts_commands [OF assms] gw_halts_parts [OF assms] transport_halts [OF assms]
  show "io_halts (gw_get_status T)"
    unfolding gw_get_status_def by (intro io_halts_intros steps)
  show "io_halts (gw_set_motor T enabled quick)"
    unfolding gw_set_motor_def Let_def by (intro io_halts_intros steps)
  show "io_halts (gw_seek T c)"
    unfolding gw_seek_def by (intro io_halts_intros steps)
  show "io_halts (gw_select_side T s)"
    unfolding gw_select_side_def by (intro io_halts_intros steps)
  show "io_halts (gw_no_click_step T)"
    unfolding gw_no_click_step_def by (intro io_halts_intros steps)
  show "io_halts (gw_write_track T words bit_len from_index density)"
    unfolding gw_write_track_def gw_write_stream_def by (intro io_halts_intros steps)
qed

lemma gw_frame_frequency: "gw_frame d' = gw_frame d \<Longrightarrow> gw_sample_frequency d' = gw_sample_frequency d"
  by (simp add: gw_frame_defs)

section \<open>Successful exchanges\<close>

text \<open>
  What a step that succeeded did to the device and to the wire: \<open>said d d' sent\<close> when the
  device differs in its world only, to which \<open>sent\<close> was added.
\<close>

definition said :: "('w \<Rightarrow> u8 list) \<Rightarrow> 'w greaseweazle \<Rightarrow> 'w greaseweazle \<Rightarrow> u8 list \<Rightarrow> bool" where
  "said tx d d' sent \<longleftrightarrow> (\<exists>w'. d' = d\<lparr>gw_world := w'\<rparr>) \<and> tx (gw_world d') = tx (gw_world d) @ sent"

lemma said_ok:
  assumes "transport_laws T clock rx tx"
  shows "gw_raw_command_ack T c ps d = Some (Inr ack, d') \<Longrightarrow>
      said tx d d' (gw_code c # of_nat (length ps + 2) # ps)"
    and "gw_expect_ok T c ps d = Some (Inr (), d') \<Longrightarrow>
      said tx d d' (gw_code c # of_nat (length ps + 2) # ps)"
    and "gw_link (write_all_until T stream deadline op) d = Some (Inr (), d') \<Longrightarrow> said tx d d' stream"
    and "gw_link (read_exact_until T len deadline op) d = Some (Inr bytes, d') \<Longrightarrow> said tx d d' []"
    and "gw_stream_deadline T d = Some (Inr deadline, d') \<Longrightarrow> said tx d d' []"
proof -
  have wp: "io_wp m (\<lambda>r d'. \<forall>a. r = Inr a \<longrightarrow> said tx d d' sent) d \<Longrightarrow> m d = Some (Inr a, d') \<Longrightarrow>
      said tx d d' sent" for m :: "('a greaseweazle, 'b) io" and a sent
    by (auto simp: io_wp_def)
  show "gw_raw_command_ack T c ps d = Some (Inr ack, d') \<Longrightarrow>
      said tx d d' (gw_code c # of_nat (length ps + 2) # ps)"
    by (erule wp [rotated], rule wp_gw_raw_command_ack [OF assms]) (auto simp: said_def talks_def)
  show "gw_expect_ok T c ps d = Some (Inr (), d') \<Longrightarrow>
      said tx d d' (gw_code c # of_nat (length ps + 2) # ps)"
    by (erule wp [rotated], rule wp_gw_expect_ok [OF assms]) (auto simp: said_def talks_def)
  show "gw_link (write_all_until T stream deadline op) d = Some (Inr (), d') \<Longrightarrow> said tx d d' stream"
    by (erule wp [rotated], unfold wp_gw_link, rule wp_write_all [OF assms])
      (auto simp: said_def talks_def)
  show "gw_link (read_exact_until T len deadline op) d = Some (Inr bytes, d') \<Longrightarrow> said tx d d' []"
    by (erule wp [rotated], unfold wp_gw_link, rule wp_read_exact [OF assms])
      (auto simp: said_def talks_def)
  show "gw_stream_deadline T d = Some (Inr deadline, d') \<Longrightarrow> said tx d d' []"
    by (erule wp [rotated], unfold gw_stream_deadline_def wp_gw_link wp_bind, rule wp_instant [OF assms])
      (auto simp: said_def talks_def wp_basic)
qed

lemma gw_select_ok:
  assumes "transport_laws T clock rx tx" and "gw_select T True d = Some (Inr (), d')"
  shows "gw_selected d' \<and> gw_fixed d' = gw_fixed d \<and>
    tx (gw_world d') = tx (gw_world d) @ (if gw_selected d then [] else [12, 3, gw_drive d])"
proof (cases "gw_selected d")
  case True
  then show ?thesis using assms(2) by (auto simp: gw_select_def io_bind_ok_iff io_run)
next
  case False
  then obtain d1 where "gw_expect_ok T Select [gw_drive d] d = Some (Inr (), d1)"
    "d' = d1\<lparr>gw_selected := True\<rparr>"
    using assms(2) by (auto simp: gw_select_def io_bind_ok_iff io_run)
  then show ?thesis using said_ok(2) [OF assms(1)] False by (fastforce simp: said_def gw_fixed_def)
qed

lemma gw_map_ack_not_ok: "a \<noteq> ACK_OK \<Longrightarrow> \<exists>e. gw_map_ack c a = Inl e"
  by (simp add: gw_map_ack_def)

lemma gw_map_ack_ok: "gw_map_ack c a = Inr u \<Longrightarrow> a = ACK_OK"
  by (rule ccontr) (auto dest: gw_map_ack_not_ok [of a c])

lemma gw_write_verdicts:
  "(if ack = ACK_OK then io_return () else if ack = ACK_WRITE_PROTECTED then io_throw WriteProtected
     else io_result (gw_map_ack c ack)) d = Some (Inr (), d') \<longleftrightarrow> ack = ACK_OK \<and> d' = d"
  "(if ack = ACK_OK then io_return () else if ack = ACK_WRITE_PROTECTED then io_throw WriteProtected
     else if ack = ACK_FLUX_UNDERFLOW then io_throw e else io_result (gw_map_ack c ack)) d =
     Some (Inr (), d') \<longleftrightarrow> ack = ACK_OK \<and> d' = d"
  by (auto simp: io_run dest: gw_map_ack_ok split: if_splits)

lemma gw_write_stream_ok:
  assumes laws: "transport_laws T clock rx tx"
    and run: "gw_write_stream T words bit_len from_index d = Some (Inr (), d')"
  shows "\<exists>timings stream.
    mfm_to_flux words bit_len (if gw_high_density d then 1000 else 2000) = Inr timings \<and>
    encode_timings (gw_sample_frequency d) timings [] = Inr stream \<and>
    tx (gw_world d') = tx (gw_world d) @ (if gw_selected d then [] else [12, 3, gw_drive d]) @
      [8, 4, of_bool from_index, 0] @ stream @ [9, 2]"
proof -
  obtain timings stream d1 d2 d3 d4 d5 ack1 ack2 deadline sync
    where enc: "mfm_to_flux words bit_len (if gw_high_density d then 1000 else 2000) = Inr timings"
      "encode_timings (gw_sample_frequency d) timings [] = Inr stream"
    and sel: "gw_select T True d = Some (Inr (), d1)"
    and ack: "gw_raw_command_ack T WriteFlux [of_bool from_index, 0] d1 = Some (Inr ack1, d2)"
    and deadline: "gw_stream_deadline T d2 = Some (Inr deadline, d3)"
    and sent: "gw_link (write_all_until T stream deadline ''Greaseweazle flux write'') d3 = Some (Inr (), d4)"
    and sync: "gw_link (read_exact_until T 1 deadline ''Greaseweazle write completion'') d4 =
      Some (Inr sync, d5)"
    and status: "gw_raw_command_ack T GetFluxStatus [] d5 = Some (Inr ack2, d')"
    using run
    by (auto simp: gw_write_stream_def io_bind_ok_iff io_run gw_write_verdicts)
  show ?thesis
    using enc gw_select_ok [OF laws sel] said_ok(1) [OF laws ack] said_ok(5) [OF laws deadline]
      said_ok(3) [OF laws sent] said_ok(4) [OF laws sync] said_ok(1) [OF laws status]
    by (auto simp: said_def)
qed

section \<open>Properties\<close>

text \<open>An open device over the scripted port, and a device whose firmware reports \<open>f\<close>.\<close>

definition demo_gw :: "u8 list \<Rightarrow> u32 \<Rightarrow> scripted_port greaseweazle" where
  "demo_gw input f =
     \<lparr>gw_world = fresh_port input, gw_port = PortId ''COM3'', gw_status = drive_status_default,
      gw_sample_frequency = f, gw_delays = replicate 5 0, gw_bus = 1, gw_drive = 0,
      gw_selected = False, gw_high_density = False\<rparr>"

text \<open>
  C31: A Greaseweazle command returns; when it succeeds it has sent its code, the length of the
  packet and its parameters and nothing else, and has consumed exactly the echoed code, a good
  acknowledgement and the payload asked for, which it returns.
\<close>

theorem gw_command_wire:
  assumes "transport_laws T clock rx tx"
  shows "\<exists>r d'. gw_run_command T c ps extra d = Some (r, d') \<and>
    (\<forall>payload. r = Inr payload \<longrightarrow> length ps < 254 \<and> length payload = extra \<and>
       tx (gw_world d') = tx (gw_world d) @ gw_code c # of_nat (length ps + 2) # ps \<and>
       rx (gw_world d') = rx (gw_world d) @ gw_code c # 0 # payload)"
proof -
  have "io_wp (gw_run_command T c ps extra) (\<lambda>r d'.
    \<forall>payload. r = Inr payload \<longrightarrow> length ps < 254 \<and> length payload = extra \<and>
       tx (gw_world d') = tx (gw_world d) @ gw_code c # of_nat (length ps + 2) # ps \<and>
       rx (gw_world d') = rx (gw_world d) @ gw_code c # 0 # payload) d"
    by (rule wp_gw_run_command [OF assms]) (auto simp: talks_def ACK_OK_def)
  then show ?thesis by (auto simp: io_wp_def)
qed

text \<open>Commands answered by the scripted port.\<close>

lemma scripted_command:
  assumes "sim_pending (gw_world d) = gw_code c # 0 # payload @ rest" and "length payload = extra"
    and "length ps < 254" and "extra + 2 \<le> burst"
  shows "gw_run_command (scripted burst) c ps extra d = Some (Inr payload, d\<lparr>gw_world :=
    \<lparr>sim_clock = sim_clock (gw_world d) + (if extra = 0 then 2 else 3), sim_pending = rest,
     sim_delivered = sim_delivered (gw_world d) @ gw_code c # 0 # payload,
     sim_taken = sim_taken (gw_world d) @ gw_code c # of_nat (length ps + 2) # ps\<rparr>\<rparr>)"
proof -
  obtain now pending delivered taken where w: "gw_world d = \<lparr>sim_clock = now, sim_pending = pending,
      sim_delivered = delivered, sim_taken = taken\<rparr>" by (cases "gw_world d")
  define packet where "packet = gw_code c # of_nat (length ps + 2) # ps"
  have packet: "gw_packet c ps = Inr packet" using assms(3) by (simp only: gw_packet_Inr packet_def) simp
  have sent: "write_all_until (scripted burst) packet (now + secs 2) op
      \<lparr>sim_clock = now, sim_pending = pending, sim_delivered = delivered, sim_taken = taken\<rparr> =
      Some (Inr (), \<lparr>sim_clock = Suc now, sim_pending = gw_code c # 0 # payload @ rest,
        sim_delivered = delivered, sim_taken = taken @ packet\<rparr>)" for op
    using assms(1) by (simp add: w write_all_until_def scripted_run sim_tick_def packet_def del: of_nat_add)
  have late: "Suc now \<le> now + secs 2" "Suc (Suc now) \<le> now + secs 2" by (simp_all add: secs_def)
  have got: "read_exact_until (scripted burst) 2 (now + secs 2) op \<lparr>sim_clock = Suc now,
      sim_pending = gw_code c # 0 # payload @ rest, sim_delivered = delivered, sim_taken = taken @ packet\<rparr> =
      Some (Inr [gw_code c, 0], \<lparr>sim_clock = Suc (Suc now), sim_pending = payload @ rest,
        sim_delivered = delivered @ [gw_code c, 0], sim_taken = taken @ packet\<rparr>)" for op
    using scripted_exact [of "\<lparr>sim_clock = Suc now, sim_pending = gw_code c # 0 # payload @ rest,
        sim_delivered = delivered, sim_taken = taken @ packet\<rparr>" "now + secs 2" "[gw_code c, 0]" "payload @ rest" 2]
      late assms(4) by simp
  have more: "read_exact_until (scripted burst) extra (now + secs 2) op \<lparr>sim_clock = Suc (Suc now),
      sim_pending = payload @ rest, sim_delivered = delivered @ [gw_code c, 0], sim_taken = taken @ packet\<rparr> =
      Some (Inr payload, \<lparr>sim_clock = Suc (Suc (Suc now)), sim_pending = rest,
        sim_delivered = (delivered @ [gw_code c, 0]) @ payload, sim_taken = taken @ packet\<rparr>)"
    if "0 < extra" for op
    using scripted_exact [of "\<lparr>sim_clock = Suc (Suc now), sim_pending = payload @ rest,
        sim_delivered = delivered @ [gw_code c, 0], sim_taken = taken @ packet\<rparr>" "now + secs 2" payload rest extra]
      late assms that by simp
  show ?thesis
    unfolding gw_run_command_def packet io_bind_result gw_link_def io_zoom_def packet_def [symmetric]
    using assms(2) more
    by (auto simp: io_bind_def operation_deadline_def scripted_instant sent got io_run w
        gw_map_ack_def ACK_OK_def)
qed

theorem gw_command_wire_witness:
  "\<exists>d'. gw_run_command (scripted 64) GetPin [28] 1 (demo_gw [20, 0, 1] 72000000) = Some (Inr [1], d') \<and>
     sim_taken (gw_world d') = [20, 3, 28] \<and> sim_delivered (gw_world d') = [20, 0, 1]"
proof -
  let ?call = "gw_run_command (scripted 64) GetPin [28] 1 (demo_gw [20, 0, 1] 72000000)"
  have "map_option fst ?call = Some (Inr [1])"
    by (subst scripted_command [where payload = "[1]" and rest = "[]"]) (simp_all add: demo_gw_def fresh_port_def)
  moreover obtain r d' where "?call = Some (r, d')"
    "\<forall>payload. r = Inr payload \<longrightarrow> length [28 :: u8] < 254 \<and> length payload = 1 \<and>
       sim_taken (gw_world d') = sim_taken (gw_world (demo_gw [20, 0, 1] 72000000)) @
         gw_code GetPin # of_nat (length [28 :: u8] + 2) # [28] \<and>
       sim_delivered (gw_world d') = sim_delivered (gw_world (demo_gw [20, 0, 1] 72000000)) @
         gw_code GetPin # 0 # payload"
    using gw_command_wire [OF scripted_laws [of 64], of GetPin "[28]" 1 "demo_gw [20, 0, 1] 72000000"]
    by (elim exE conjE) (rule that)
  ultimately show ?thesis by (simp add: demo_gw_def fresh_port_def)
qed

text \<open>
  C19: A track write that succeeds has put on the wire the write command and then exactly the flux
  stream encoded from the given cells at the cell length of the density in force, preceded by
  selecting the drive when it was not selected and followed by the request for its status.
\<close>

theorem gw_write_sends:
  assumes laws: "transport_laws T clock rx tx"
    and run: "gw_write_track T words bit_len from_index density d = Some (Inr (), d')"
  shows "\<exists>timings stream.
    mfm_to_flux words bit_len
      (if density = DensityHigh \<or> density = DensityAuto \<and> gw_high_density d then 1000 else 2000) =
      Inr timings \<and>
    encode_timings (gw_sample_frequency d) timings [] = Inr stream \<and>
    tx (gw_world d') = tx (gw_world d) @ (if gw_selected d then [] else [12, 3, gw_drive d]) @
      [8, 4, of_bool from_index, 0] @ stream @ [9, 2]"
proof -
  let ?d = "d\<lparr>gw_high_density := (density = DensityHigh \<or> density = DensityAuto \<and> gw_high_density d)\<rparr>"
  have "gw_write_stream T words bit_len from_index ?d = Some (Inr (), d')"
    using run by (simp add: gw_write_track_def io_bind_def io_run)
  moreover have "gw_high_density ?d = (density = DensityHigh \<or> density = DensityAuto \<and> gw_high_density d)"
    "gw_sample_frequency ?d = gw_sample_frequency d" "gw_selected ?d = gw_selected d"
    "gw_drive ?d = gw_drive d" "gw_world ?d = gw_world d" by simp_all
  ultimately show ?thesis using gw_write_stream_ok [OF laws, of words bit_len from_index ?d d'] by (simp only:)
qed

lemma scripted_raw_ack:
  assumes "sim_pending (gw_world d) = gw_code c # ack # rest" and "length ps < 254" and "2 \<le> burst"
  shows "gw_raw_command_ack (scripted burst) c ps d = Some (Inr ack, d\<lparr>gw_world :=
    \<lparr>sim_clock = sim_clock (gw_world d) + 2, sim_pending = rest,
     sim_delivered = sim_delivered (gw_world d) @ [gw_code c, ack],
     sim_taken = sim_taken (gw_world d) @ gw_code c # of_nat (length ps + 2) # ps\<rparr>\<rparr>)"
proof -
  obtain now pending delivered taken where w: "gw_world d = \<lparr>sim_clock = now, sim_pending = pending,
      sim_delivered = delivered, sim_taken = taken\<rparr>" by (cases "gw_world d")
  define packet where "packet = gw_code c # of_nat (length ps + 2) # ps"
  have packet: "gw_packet c ps = Inr packet" using assms(2) by (simp only: gw_packet_Inr packet_def) simp
  have sent: "write_all_until (scripted burst) packet (now + secs 2) op
      \<lparr>sim_clock = now, sim_pending = pending, sim_delivered = delivered, sim_taken = taken\<rparr> =
      Some (Inr (), \<lparr>sim_clock = Suc now, sim_pending = gw_code c # ack # rest,
        sim_delivered = delivered, sim_taken = taken @ packet\<rparr>)" for op
    using assms(1) by (simp add: w write_all_until_def scripted_run sim_tick_def packet_def del: of_nat_add)
  have got: "read_exact_until (scripted burst) 2 (now + secs 2) op \<lparr>sim_clock = Suc now,
      sim_pending = gw_code c # ack # rest, sim_delivered = delivered, sim_taken = taken @ packet\<rparr> =
      Some (Inr [gw_code c, ack], \<lparr>sim_clock = Suc (Suc now), sim_pending = rest,
        sim_delivered = delivered @ [gw_code c, ack], sim_taken = taken @ packet\<rparr>)" for op
    using scripted_exact [of "\<lparr>sim_clock = Suc now, sim_pending = gw_code c # ack # rest,
        sim_delivered = delivered, sim_taken = taken @ packet\<rparr>" "now + secs 2" "[gw_code c, ack]" rest 2]
      assms(3) by (simp add: secs_def)
  show ?thesis
    unfolding gw_raw_command_ack_def packet io_bind_result gw_link_def io_zoom_def packet_def [symmetric]
    by (simp add: io_bind_def operation_deadline_def scripted_instant sent got io_run w)
qed

lemma demo_write_runs:
  "\<exists>d'. gw_write_track (scripted 2) [0x8888] 16 True DensityDouble
    (demo_gw [12, 0, 8, 0, 0, 9, 0] 72000000) = Some (Inr (), d')"
proof -
  define d where "d = (demo_gw [12, 0, 8, 0, 0, 9, 0] 72000000)\<lparr>gw_high_density := False\<rparr>"
  have runs: "cell_runs 0 (unpack [0x8888] 16) = [1, 4, 4, 4, 3]" by code_simp
  obtain timings where flux: "mfm_to_flux [0x8888] 16 2000 = Inr timings"
    and ns: "map unat timings = map unat [2000 :: u32, 8000, 8000, 8000, 6000]"
    using mfm_to_flux_runs [of 16 "[0x8888]" 2000] by (auto simp: MAX_TRACK_BITS_def runs)
  have "inj (unat :: u32 \<Rightarrow> nat)" by (simp add: inj_def word_unat_eq_iff)
  from map_injective [OF ns this] have timings: "timings = [2000, 8000, 8000, 8000, 6000]" .
  obtain stream where stream: "encode_timings 72000000 timings [] = Inr stream" "stream \<noteq> []"
  proof -
    have "encode_timings 72000000 timings [] =
        Inr ([] @ concat (map encode_ticks [144, 576, 576, 576, 432]) @ [0])"
      by (simp add: timings ns_to_ticks_def try_u32_def)
    then show thesis by (rule that) simp
  qed
  obtain d1 where d1: "gw_select (scripted 2) True d = Some (Inr (), d1)"
    "sim_pending (gw_world d1) = [8, 0, 0, 9, 0]"
    using scripted_command [of d Select "[]" "[8, 0, 0, 9, 0]" 0 "[0]" 2]
    by (simp add: gw_select_def gw_expect_ok_def io_bind_def io_run d_def demo_gw_def fresh_port_def)
  obtain d2 where d2: "gw_raw_command_ack (scripted 2) WriteFlux [1, 0] d1 = Some (Inr 0, d2)"
    "sim_pending (gw_world d2) = [0, 9, 0]"
    using scripted_raw_ack [of d1 WriteFlux 0 "[0, 9, 0]" "[1, 0]" 2] d1(2) by simp
  have deadline: "gw_stream_deadline (scripted 2) d2 = Some (Inr (sim_clock (gw_world d2) + GW_STREAM_TIMEOUT), d2)"
    by (simp add: gw_stream_deadline_def gw_link_def io_zoom_def io_bind_def scripted_instant io_run)
  obtain d3 where d3: "gw_link (write_all_until (scripted 2) stream
        (sim_clock (gw_world d2) + GW_STREAM_TIMEOUT) ''Greaseweazle flux write'') d2 = Some (Inr (), d3)"
    "sim_pending (gw_world d3) = [0, 9, 0]" "sim_clock (gw_world d3) = Suc (sim_clock (gw_world d2))"
    using stream(2) d2(2) by (simp add: gw_link_def io_zoom_def write_all_until_def scripted_run sim_tick_def)
  obtain d4 where d4: "gw_link (read_exact_until (scripted 2) 1
        (sim_clock (gw_world d2) + GW_STREAM_TIMEOUT) ''Greaseweazle write completion'') d3 = Some (Inr [0], d4)"
    "sim_pending (gw_world d4) = [9, 0]"
    using scripted_exact [of "gw_world d3" "sim_clock (gw_world d2) + GW_STREAM_TIMEOUT" "[0]" "[9, 0]" 1 2] d3
    by (simp add: gw_link_def io_zoom_def GW_STREAM_TIMEOUT_def secs_def)
  obtain d5 where d5: "gw_raw_command_ack (scripted 2) GetFluxStatus [] d4 = Some (Inr 0, d5)"
    using scripted_raw_ack [of d4 GetFluxStatus 0 "[]" "[]" 2] d4(2) by simp
  have "gw_high_density d = False" "gw_sample_frequency d = 72000000" by (simp_all add: d_def demo_gw_def)
  then have "gw_write_stream (scripted 2) [0x8888] 16 True d = Some (Inr (), d5)"
    using flux stream(1) d1(1) d2(1) deadline d3(1) d4(1) d5
    by (simp add: gw_write_stream_def io_bind_def io_run ACK_OK_def)
  then show ?thesis by (simp add: gw_write_track_def io_bind_def io_run d_def)
qed

theorem gw_write_sends_witness:
  "\<exists>d' timings stream. gw_write_track (scripted 2) [0x8888] 16 True DensityDouble
      (demo_gw [12, 0, 8, 0, 0, 9, 0] 72000000) = Some (Inr (), d') \<and>
    mfm_to_flux [0x8888] 16 2000 = Inr timings \<and> encode_timings 72000000 timings [] = Inr stream \<and>
    sim_taken (gw_world d') = [12, 3, 0, 8, 4, 1, 0] @ stream @ [9, 2]"
proof -
  obtain d' where d': "gw_write_track (scripted 2) [0x8888] 16 True DensityDouble
      (demo_gw [12, 0, 8, 0, 0, 9, 0] 72000000) = Some (Inr (), d')"
    using demo_write_runs by blast
  have d: "gw_selected (demo_gw i f) = False" "gw_drive (demo_gw i f) = 0"
    "gw_sample_frequency (demo_gw i f) = f" "sim_taken (gw_world (demo_gw i f)) = []" for i f
    by (simp_all add: demo_gw_def fresh_port_def)
  show ?thesis
    using gw_write_sends [OF scripted_laws d'] d' unfolding d by auto
qed

end
