(* ===== verification/Greaseweazle_Read.thy ===== *)
theory Greaseweazle_Read
  imports Greaseweazle_Wire
begin

text \<open>
  Reading a track with the Greaseweazle: the partial captures published while an immediate
  capture is drained only grow, the retry loop ends, and with it every operation of the device
  returns, except for the panic on an absurd sample frequency.
\<close>

section \<open>The published partial captures\<close>

lemma read_28bit_loop_append:
  "read_28bit_loop shifts queue acc = Inr (v, rest) \<Longrightarrow>
     read_28bit_loop shifts (queue @ tail) acc = Inr (v, rest @ tail)"
  by (induction shifts queue acc rule: read_28bit_loop.induct) auto

lemma read_28bit_append:
  "read_28bit queue = Inr (v, rest) \<Longrightarrow> read_28bit (queue @ tail) = Inr (v, rest @ tail)"
  unfolding read_28bit_def by (rule read_28bit_loop_append)

text \<open>One token of a stream that decodes: what follows it is decoded from the state it leaves.\<close>

lemma decode_loop_token:
  assumes "decode_loop f (byte # queue) (ticks, index, events) = Inr r"
  obtains queue' ticks' index' new where "length queue' \<le> length queue"
    and "decode_loop f queue' (ticks', index', events @ new) = Inr r"
    and "\<And>tail. decode_loop f (byte # queue @ tail) (ticks, index, events) =
      decode_loop f (queue' @ tail) (ticks', index', events @ new)"
proof (cases "byte < 250")
  case True
  then have "byte \<noteq> 255" by auto
  then show ?thesis
    using assms True that [of queue 0 False]
    by (auto simp: decode_loop.simps(2) Let_def split: option.splits)
next
  case False
  note big = this
  obtain next_byte queue2 where q: "queue = next_byte # queue2"
    using assms False by (cases queue) (auto simp: decode_loop.simps(2) split: if_splits)
  consider "byte \<noteq> 255" | "byte = 255" "next_byte = 1 \<or> next_byte = 2" | "byte = 255" "next_byte = 3"
    using assms q by (auto simp: decode_loop.simps(2) split: if_splits)
  then show ?thesis
  proof cases
    case 1
    then show ?thesis
      using assms big q that [of queue2 0 False]
      by (auto simp: decode_loop.simps(2) Let_def split: option.splits)
  next
    case 2
    then obtain v queue3 where v: "read_28bit queue2 = Inr (v, queue3)"
      using assms q by (cases "read_28bit queue2") (auto simp: decode_loop.simps(2))
    have "length queue3 \<le> length queue" using read_28bit_shorter [OF v] q by simp
    then show ?thesis
      using assms q 2 v that [of queue3 _ _ "[]"]
      by (auto simp: decode_loop.simps(2) Let_def read_28bit_append)
  next
    case 3
    then obtain period queue3 where "queue2 = period # queue3"
      using assms q by (cases queue2) (auto simp: decode_loop.simps(2))
    then show ?thesis
      using assms q 3 that [of queue3 ticks index "[]"] by (auto simp: decode_loop.simps(2))
  qed
qed

lemma decode_loop_append:
  "decode_loop f queue (ticks, index, events) = Inr r \<Longrightarrow> prefix events r \<and>
     (\<exists>ticks' index'. \<forall>tail. decode_loop f (queue @ tail) (ticks, index, events) =
       decode_loop f tail (ticks', index', r))"
proof (induction "length queue" arbitrary: queue ticks index events rule: less_induct)
  case less
  show ?case
  proof (cases queue)
    case Nil
    then show ?thesis using less.prems by auto
  next
    case (Cons byte queue1)
    from less.prems [unfolded Cons] show ?thesis
    proof (rule decode_loop_token)
      fix queue' ticks' index' new
      assume q: "length queue' \<le> length queue1"
        and d: "decode_loop f queue' (ticks', index', events @ new) = Inr r"
        and eq: "\<And>tail. decode_loop f (byte # queue1 @ tail) (ticks, index, events) =
          decode_loop f (queue' @ tail) (ticks', index', events @ new)"
      have "length queue' < length queue" using q Cons by simp
      from less.hyps [OF this d] show ?thesis
        unfolding Cons append_Cons eq by (auto dest: append_prefixD)
    qed
  qed
qed

lemma decode_stream_prefix:
  assumes "prefix raw raw'" and "decode_stream raw f = Inr events" and "decode_stream raw' f = Inr events'"
  shows "prefix events events'"
proof -
  obtain tail where raw': "raw' = raw @ tail" using assms(1) by (auto simp: prefix_def)
  obtain ticks index where "decode_stream raw' f = decode_loop f tail (ticks, index, events)"
    using decode_loop_append [OF assms(2) [unfolded decode_stream_def]]
    unfolding decode_stream_def raw' by metis
  then show ?thesis using decode_loop_append [of f tail ticks index events] assms(3) by metis
qed

lemma decode_cells_prefix:
  assumes "prefix events events'" shows "prefix (decode_cells events) (decode_cells events')"
proof -
  obtain tail where "events' = events @ tail" using assms by (auto simp: prefix_def)
  moreover obtain p out where "pll_events events (pll_new, []) = (p, out)" by fastforce
  ultimately show ?thesis
    using pll_events_append [of tail p out]
    by (auto simp: decode_cells_def pll_events_concat split_def Let_def)
qed


lemma gw_link_bind: "gw_link (io_bind m f) = io_bind (gw_link m) (\<lambda>a. gw_link (f a))"
  by (rule ext) (auto simp: gw_link_def io_zoom_def io_bind_def split: option.splits sum.splits)

definition at_density :: "bool \<Rightarrow> flux_event list \<Rightarrow> flux_event list" where
  "at_density high events = (if high then map double_delay events else events)"

lemma at_density_prefix: "prefix events events' \<Longrightarrow> prefix (at_density h events) (at_density h events')"
  by (simp add: at_density_def map_mono_prefix)

lemma wp_gw_decode:
  "io_wp (gw_decode_at_density raw density) Q d \<longleftrightarrow>
     (case decode_stream raw (gw_sample_frequency d) of
        Inl e \<Rightarrow> Q (Inl e) d
      | Inr events \<Rightarrow>
          Q (Inr (at_density (resolve_density density events (gw_high_density d)) events))
            (d\<lparr>gw_high_density := resolve_density density events (gw_high_density d)\<rparr>))"
  by (auto simp: gw_decode_at_density_def wp_simps at_density_def Let_def split: sum.split)

lemma gw_drain_step:
  "gw_drain_loop T deadline density raw published =
     (if length raw \<ge> GW_MAX_STREAM_BYTES
      then io_throw (TrackTooLarge (length raw * 8) (GW_MAX_STREAM_BYTES * 8))
      else io_bind (on_device (gw_link (io_then (arm_timeout T deadline ''Greaseweazle flux stream'')
           (attempt (tr_read T CHUNK))))) (\<lambda>r.
         case r of
           Inl e \<Rightarrow>
             if try_again e then gw_drain_loop T deadline density raw published
             else io_throw (Io e)
         | Inr bytes \<Rightarrow>
             if bytes = [] then io_throw Disconnected
             else if 0 \<in> set bytes then
                 io_bind (on_device (gw_decode_at_density (raw @ takeWhile (\<lambda>byte. byte \<noteq> 0) bytes) density))
                   (\<lambda>events.
                   io_then (progress (pack_bits (decode_cells events)) (length (decode_cells events)))
                     (io_return (decode_cells events)))
             else if length (raw @ bytes) \<ge> published + 4 * 1024 then
                 io_bind (on_device (attempt (gw_decode_at_density (raw @ bytes) density))) (\<lambda>r.
                   case r of
                     Inl e \<Rightarrow> gw_drain_loop T deadline density (raw @ bytes) published
                   | Inr events \<Rightarrow>
                       io_then (progress (pack_bits (decode_cells events)) (length (decode_cells events)))
                         (gw_drain_loop T deadline density (raw @ bytes) (length (raw @ bytes))))
             else gw_drain_loop T deadline density (raw @ bytes) published))"
proof -
  have tw: "0 \<notin> set bytes \<Longrightarrow> takeWhile (\<lambda>byte. byte \<noteq> 0) bytes = bytes" for bytes :: "u8 list"
    by (auto simp: takeWhile_eq_all_conv)
  show ?thesis (is "_ = (if ?full then ?large else io_bind ?read ?body)")
  proof (rule ext)
    fix s
    have body: "(\<lambda>r s. case r of
           Inl e \<Rightarrow>
             if try_again e then gw_drain_loop T deadline density raw published s
             else io_throw (Io e) s
         | Inr bytes \<Rightarrow>
             if bytes = [] then io_throw Disconnected s
             else
               let raw = raw @ takeWhile (\<lambda>byte. byte \<noteq> 0) bytes in
               if 0 \<in> set bytes then
                 io_bind (on_device (gw_decode_at_density raw density)) (\<lambda>events.
                   let bits = decode_cells events in
                   io_then (progress (pack_bits bits) (length bits)) (io_return bits)) s
               else if length raw \<ge> published + 4 * 1024 then
                 io_bind (on_device (attempt (gw_decode_at_density raw density))) (\<lambda>r s.
                   case r of
                     Inl e \<Rightarrow> gw_drain_loop T deadline density raw published s
                   | Inr events \<Rightarrow>
                       let bits = decode_cells events in
                       io_then (progress (pack_bits bits) (length bits))
                         (gw_drain_loop T deadline density raw (length raw)) s) s
               else gw_drain_loop T deadline density raw published s) = ?body" (is "?lhs = _")
    proof (rule ext)
      fix r
      show "?lhs r = ?body r"
      proof (cases r)
        case (Inr bytes)
        show ?thesis
        proof (cases "0 \<in> set bytes")
          case True
          then show ?thesis by (auto simp: Inr Let_def fun_eq_iff)
        next
          case False
          show ?thesis
            unfolding Inr Let_def sum.case tw [OF False] case_sum_fun using False by auto
        qed
      qed (auto simp: fun_eq_iff)
    qed
    show "gw_drain_loop T deadline density raw published s = (if ?full then ?large else io_bind ?read ?body) s"
      unfolding gw_link_bind on_device_bind io_bind_assoc body [symmetric]
      by (subst gw_drain_loop.simps) (rule if_distribR [symmetric])
  qed
qed

text \<open>
  \<open>grows\<close>: every one of the published decodes extends those before it and extends the
  decode of any earlier part of the stream.
\<close>

definition grows :: "u32 \<Rightarrow> bool \<Rightarrow> u8 list \<Rightarrow> bool list list \<Rightarrow> bool" where
  "grows f high raw parts \<longleftrightarrow> sorted_wrt prefix parts \<and>
     (\<forall>raw0 events. prefix raw0 raw \<longrightarrow> decode_stream raw0 f = Inr events \<longrightarrow>
        (\<forall>part \<in> set parts. prefix (decode_cells (at_density high events)) part))"

lemma grows_Nil: "grows f high raw []"
  by (simp add: grows_def)

lemma grows_mono: "grows f high (raw @ bytes) parts \<Longrightarrow> grows f high raw parts"
  unfolding grows_def by (meson prefix_prefix)

lemma grows_Cons:
  assumes "decode_stream raw f = Inr events" and "grows f high raw parts"
  shows "grows f high raw (decode_cells (at_density high events) # parts)"
  using assms decode_stream_prefix [OF _ _ assms(1)]
  by (auto simp: grows_def intro: decode_cells_prefix at_density_prefix)

definition publish_log :: "bool list list \<Rightarrow> progress_log" where
  "publish_log parts = map (\<lambda>bits. (pack_bits bits, length bits)) parts"

definition drained ::
  "u32 \<Rightarrow> density_mode \<Rightarrow> u8 list \<Rightarrow> progress_log \<Rightarrow> error + bool list \<Rightarrow> progress_log \<Rightarrow> bool" where
  "drained f density raw log r log' \<longleftrightarrow> (\<exists>parts. log' = log @ publish_log parts \<and>
     (\<forall>bits. r = Inr bits \<longrightarrow> parts \<noteq> [] \<and> last parts = bits) \<and>
     (density \<noteq> DensityAuto \<longrightarrow> grows f (density = DensityHigh) raw parts))"

lemma drained_stop: "drained f density raw log (Inl e) log"
  unfolding drained_def by (intro exI [of _ "[]"]) (simp add: publish_log_def grows_Nil)

lemma drained_later: "drained f density (raw @ bytes) log r log' \<Longrightarrow> drained f density raw log r log'"
  unfolding drained_def using grows_mono by blast

lemma resolve_forced: "density \<noteq> DensityAuto \<Longrightarrow> resolve_density density events current = (density = DensityHigh)"
  by (cases density) (simp_all add: resolve_density_def)

lemma drained_publish:
  assumes "decode_stream raw f = Inr events"
    and "bits = decode_cells (at_density (resolve_density density events current) events)"
    and "drained f density raw (log @ [(pack_bits bits, length bits)]) r log'"
  shows "drained f density raw log r log'"
proof -
  obtain parts where parts: "log' = (log @ [(pack_bits bits, length bits)]) @ publish_log parts"
    "\<forall>b. r = Inr b \<longrightarrow> parts \<noteq> [] \<and> last parts = b"
    "density \<noteq> DensityAuto \<longrightarrow> grows f (density = DensityHigh) raw parts"
    using assms(3) by (auto simp: drained_def)
  then show ?thesis
    unfolding drained_def
    by (intro exI [of _ "bits # parts"])
      (auto simp: publish_log_def assms(2) resolve_forced intro: grows_Cons [OF assms(1)])
qed

lemma drained_done:
  assumes "decode_stream raw f = Inr events"
    and "bits = decode_cells (at_density (resolve_density density events current) events)"
  shows "drained f density raw log (Inr bits) (log @ [(pack_bits bits, length bits)])"
  unfolding drained_def
  by (intro exI [of _ "[bits]"])
    (auto simp: publish_log_def assms(2) resolve_forced intro: grows_Cons [OF assms(1) grows_Nil])

lemma gw_drain_spec:
  assumes laws: "transport_laws T clock rx tx" and "gw_sample_frequency (fst s) = f"
  shows "io_wp (gw_drain_loop T deadline density raw published)
     (\<lambda>r s'. drained f density raw (snd s) r (snd s')) s"
  using assms(2)
proof (induction "Suc deadline - clock (gw_world (fst s))" arbitrary: s raw published rule: less_induct)
  case less
  show ?case
  proof (cases "GW_MAX_STREAM_BYTES \<le> length raw")
    case True
    then show ?thesis by (simp add: gw_drain_step wp_simps drained_stop)
  next
    case False
    let ?D = "\<lambda>raw published s. io_wp (gw_drain_loop T deadline density raw published)
        (\<lambda>r s'. drained f density raw (snd s) r (snd s')) s"
    have again: "?D raw' published' s'"
      if "clock (gw_world (fst s)) \<le> deadline" "clock (gw_world (fst s)) < clock (gw_world (fst s'))"
        "gw_sample_frequency (fst s') = f" for raw' published' s'
      using less.hyps [of s' raw' published'] that by (simp add: diff_less_mono2)
    show ?thesis
    proof (subst gw_drain_step, unfold if_not_P [OF False] wp_bind wp_on_device wp_gw_link,
        rule wp_armed_read [OF laws, unfolded wp_bind], goal_cases)
      case (1 e w1)
      then show ?case by (simp add: drained_stop)
    next
      case (2 e w1)
      then show ?case
        using again [of "((fst s)\<lparr>gw_world := w1\<rparr>, snd s)" raw published] less.prems
        by (simp add: wp_simps drained_stop)
    next
      case (3 bytes w1)
      let ?s = "((fst s)\<lparr>gw_world := w1\<rparr>, snd s)"
      have d: "?D raw' published' (d, log)"
        if "gw_world d = w1" "gw_sample_frequency d = f" for raw' published' d log
        using again [of "(d, log)"] 3 that by simp
      consider "bytes = []" | "bytes \<noteq> []" "0 \<in> set bytes" | "bytes \<noteq> []" "0 \<notin> set bytes" by blast
      then show ?case
      proof cases
        case 1
        then show ?thesis by (simp add: wp_simps drained_stop)
      next
        case 2
        show ?thesis
          using 2 less.prems
          by (auto simp: wp_simps wp_gw_decode drained_stop
              intro: drained_later [OF drained_done] split: sum.split)
      next
        case 3
        have keep: "io_wp (gw_drain_loop T deadline density (raw @ bytes) published')
            (\<lambda>r s'. drained f density raw log r (snd s')) (d, log)"
          if "gw_world d = w1" "gw_sample_frequency d = f" for published' d log
          by (rule wp_conseq [OF d [OF that]]) (simp add: drained_later)
        have pub: "io_wp (gw_drain_loop T deadline density (raw @ bytes) published')
            (\<lambda>r s'. drained f density raw log r (snd s')) (d, log @ [(pack_bits bits, length bits)])"
          if "gw_world d = w1" "gw_sample_frequency d = f" "decode_stream (raw @ bytes) f = Inr events"
            "bits = decode_cells (at_density (resolve_density density events current) events)"
          for published' d log bits events current
          by (rule wp_conseq [OF d [OF that(1,2)]])
            (simp add: drained_later [OF drained_publish [OF that(3,4)]])
        show ?thesis
          using 3 by (auto simp: wp_simps wp_gw_decode less.prems split: sum.split intro: keep pub)
      qed
    qed
  qed
qed

section \<open>The retry loop\<close>

text \<open>What is made of the firmware's verdict on a capture, \<open>again\<close> being the next attempt.\<close>

definition gw_capture_verdict ::
  "'w transport \<Rightarrow> ('w greaseweazle \<times> progress_log, unit) io \<Rightarrow> ('w greaseweazle \<times> progress_log, 'a) io \<Rightarrow>
     nat \<Rightarrow> 'a \<Rightarrow> u8 \<Rightarrow> ('w greaseweazle \<times> progress_log, 'a) io" where
  "gw_capture_verdict T withdraw again attempts stream status =
     (if status = ACK_OK then
        io_then (on_device (gw_set_status (\<lambda>s. s\<lparr>ds_disk_present := True, ds_ready := True\<rparr>)))
          (io_return stream)
      else if status = ACK_NO_INDEX then
        io_then (on_device (gw_set_status (ds_disk_present_update (\<lambda>_. False))))
          (io_throw (Timeout ''Greaseweazle index pulse''))
      else if status = ACK_FLUX_OVERFLOW \<and> attempts + 1 < 3 then
        io_then (on_device (gw_link (tr_purge T))) (io_then withdraw again)
      else if status = ACK_FLUX_OVERFLOW then
        io_throw (Protocol ''Greaseweazle flux receive buffer overflowed'')
      else io_then (io_result (gw_map_ack GetFluxStatus status)) again)"

lemma gw_capture_step:
  "gw_capture_loop T header drain withdraw attempts =
     io_then (on_device (gw_expect_ok T ReadFlux header))
      (io_bind drain (\<lambda>stream.
        io_bind (on_device (gw_raw_command_ack T GetFluxStatus []))
          (gw_capture_verdict T withdraw (gw_capture_loop T header drain withdraw (attempts + 1))
             attempts stream)))"
proof (rule ext)
  fix s
  let ?again = "gw_capture_loop T header drain withdraw (attempts + 1)"
  have verdict: "gw_capture_verdict T withdraw ?again attempts stream = (\<lambda>status s.
      if status = ACK_OK then
        io_then (on_device (gw_set_status (\<lambda>s. s\<lparr>ds_disk_present := True, ds_ready := True\<rparr>)))
          (io_return stream) s
      else if status = ACK_NO_INDEX then
        io_then (on_device (gw_set_status (ds_disk_present_update (\<lambda>_. False))))
          (io_throw (Timeout ''Greaseweazle index pulse'')) s
      else if status = ACK_FLUX_OVERFLOW \<and> attempts + 1 < 3 then
        io_then (on_device (gw_link (tr_purge T))) (io_then withdraw ?again) s
      else if status = ACK_FLUX_OVERFLOW then
        io_throw (Protocol ''Greaseweazle flux receive buffer overflowed'') s
      else io_then (io_result (gw_map_ack GetFluxStatus status)) ?again s)" for stream
    by (intro ext) (simp only: gw_capture_verdict_def if_distribR)
  show "gw_capture_loop T header drain withdraw attempts s =
     io_then (on_device (gw_expect_ok T ReadFlux header))
      (io_bind drain (\<lambda>stream.
        io_bind (on_device (gw_raw_command_ack T GetFluxStatus []))
          (gw_capture_verdict T withdraw ?again attempts stream))) s"
    unfolding verdict by (rule gw_capture_loop.simps)
qed

text \<open>The parts of the state that the exchanges around a capture leave alone.\<close>

definition same_data :: "'w greaseweazle \<times> 'p \<Rightarrow> 'w greaseweazle \<times> 'p \<Rightarrow> bool" where
  "same_data s s' \<longleftrightarrow> snd s' = snd s \<and> gw_sample_frequency (fst s') = gw_sample_frequency (fst s) \<and>
     gw_high_density (fst s') = gw_high_density (fst s)"

lemma same_data_world: "same_data s ((fst s)\<lparr>gw_world := w\<rparr>, snd s)"
  by (simp add: same_data_def)

lemma gw_ack_distinct:
  "ACK_OK \<noteq> ACK_NO_INDEX" "ACK_OK \<noteq> ACK_FLUX_OVERFLOW" "ACK_NO_INDEX \<noteq> ACK_OK"
  "ACK_NO_INDEX \<noteq> ACK_FLUX_OVERFLOW" "ACK_FLUX_OVERFLOW \<noteq> ACK_OK" "ACK_FLUX_OVERFLOW \<noteq> ACK_NO_INDEX"
  by (simp_all add: ACK_OK_def ACK_NO_INDEX_def ACK_FLUX_OVERFLOW_def)

lemma wp_gw_capture_verdict:
  assumes laws: "transport_laws T clock rx tx"
    and closed: "\<And>s s'. J s \<Longrightarrow> same_data s s' \<Longrightarrow> J s'"
    and stop: "\<And>s e. J s \<Longrightarrow> Q (Inl e) s" and finish: "\<And>s. J s \<Longrightarrow> Q (Inr stream) s"
    and retry: "\<And>s. attempts + 1 < 3 \<Longrightarrow> J s \<Longrightarrow> io_wp (io_then withdraw again) Q s"
    and start: "J s"
  shows "io_wp (gw_capture_verdict T withdraw again attempts stream status) Q s"
proof -
  have J: "J (d, snd s)" if "same_data s (d, snd s)" for d by (rule closed [OF start that])
  consider "status = ACK_OK" | "status = ACK_NO_INDEX" | "status = ACK_FLUX_OVERFLOW" "attempts + 1 < 3"
    | "status = ACK_FLUX_OVERFLOW" "\<not> attempts + 1 < 3"
    | "status \<noteq> ACK_OK" "status \<noteq> ACK_NO_INDEX" "status \<noteq> ACK_FLUX_OVERFLOW" by blast
  then show ?thesis
  proof cases
    case 1
    then show ?thesis
      by (simp add: gw_capture_verdict_def wp_simps finish J same_data_def)
  next
    case 2
    then show ?thesis
      by (simp add: gw_capture_verdict_def gw_ack_distinct wp_simps stop J same_data_def)
  next
    case 3
    have "io_wp (io_then (on_device (gw_link (tr_purge T))) (io_then withdraw again)) Q s"
      unfolding wp_bind [of "on_device _"] wp_on_device wp_gw_link
    proof (rule wp_quiet [OF transport_purge [OF laws]])
      fix r w'
      have "J ((fst s)\<lparr>gw_world := w'\<rparr>, snd s)" by (rule closed [OF start same_data_world])
      then show "case r of Inl e \<Rightarrow> Q (Inl e) ((fst s)\<lparr>gw_world := w'\<rparr>, snd s)
          | Inr a \<Rightarrow> io_wp (io_then withdraw again) Q ((fst s)\<lparr>gw_world := w'\<rparr>, snd s)"
        using stop retry [OF 3(2)] by (simp split: sum.split)
    qed
    then show ?thesis using 3 by (simp add: gw_capture_verdict_def gw_ack_distinct)
  next
    case 4
    then show ?thesis
      by (simp add: gw_capture_verdict_def gw_ack_distinct wp_simps stop start)
  next
    case 5
    then show ?thesis
      using gw_map_ack_not_ok [OF 5(1), of GetFluxStatus]
      by (auto simp: gw_capture_verdict_def wp_simps stop start)
  qed
qed

text \<open>\<open>I\<close> holds when an attempt begins, \<open>J\<close> when its stream has been drained.\<close>

lemma wp_gw_capture_loop:
  assumes laws: "transport_laws T clock rx tx"
    and drain: "\<And>k s. k < 3 \<Longrightarrow> I k s \<Longrightarrow>
      io_wp drain (\<lambda>r s'. case r of Inl e \<Rightarrow> Q (Inl e) s' | Inr a \<Rightarrow> J k a s') s"
    and withdraw: "\<And>k a s. k + 1 < 3 \<Longrightarrow> J k a s \<Longrightarrow>
      io_wp withdraw (\<lambda>r s'. case r of Inl e \<Rightarrow> Q (Inl e) s' | Inr _ \<Rightarrow> I (k + 1) s') s"
    and same: "\<And>k s s'. I k s \<Longrightarrow> same_data s s' \<Longrightarrow> I k s'"
      "\<And>k a s s'. J k a s \<Longrightarrow> same_data s s' \<Longrightarrow> J k a s'"
    and stop: "\<And>k s e. I k s \<Longrightarrow> Q (Inl e) s" "\<And>k a s e. J k a s \<Longrightarrow> Q (Inl e) s"
    and finish: "\<And>k a s. J k a s \<Longrightarrow> Q (Inr a) s"
    and start: "k < 3" "I k s"
  shows "io_wp (gw_capture_loop T header drain withdraw k) Q s"
  using start
proof (induction "3 - k" arbitrary: k s rule: less_induct)
  case less
  let ?again = "gw_capture_loop T header drain withdraw (k + 1)"
  have retry: "io_wp (io_then withdraw ?again) Q t" if "k + 1 < 3" "J k a t" for a t
  proof -
    have "I (k + 1) t' \<Longrightarrow> io_wp ?again Q t'" for t'
      using less.hyps [of "k + 1" t'] that(1) by simp
    then show ?thesis
      unfolding wp_bind by (intro wp_conseq [OF withdraw [OF that]]) (auto split: sum.splits)
  qed
  have verdict: "io_wp (gw_capture_verdict T withdraw ?again k a status) Q t" if "J k a t" for a status t
    by (rule wp_gw_capture_verdict [OF laws, where J = "J k a"])
      (blast intro: same(2) stop(2) finish retry that)+
  have asked: "io_wp (io_bind (on_device (gw_raw_command_ack T GetFluxStatus []))
        (gw_capture_verdict T withdraw ?again k a)) Q t" if "J k a t" for a t
    unfolding wp_bind wp_on_device
    by (rule wp_gw_raw_command_ack [OF laws])
      (simp_all only: sum.case verdict same(2) [OF that same_data_world]
        stop(2) [OF same(2) [OF that same_data_world]])
  show ?case
  proof (subst gw_capture_step, unfold wp_bind [of "on_device (gw_expect_ok _ _ _)"] wp_on_device,
      rule wp_gw_expect_ok [OF laws], unfold sum.case)
    fix e w' show "Q (Inl e) ((fst s)\<lparr>gw_world := w'\<rparr>, snd s)"
      by (rule stop(1), rule same(1) [OF less.prems(2) same_data_world])
  next
    fix w' let ?s = "((fst s)\<lparr>gw_world := w'\<rparr>, snd s)"
    have "I k ?s" by (rule same(1) [OF less.prems(2) same_data_world])
    from drain [OF less.prems(1) this] show "io_wp (io_bind drain (\<lambda>stream.
        io_bind (on_device (gw_raw_command_ack T GetFluxStatus []))
          (gw_capture_verdict T withdraw ?again k stream))) Q ?s"
      unfolding wp_bind [of drain] by (rule wp_conseq) (auto simp del: One_nat_def intro: asked split: sum.splits)
  qed
qed

section \<open>Reading a track\<close>

definition captured ::
  "density_mode \<Rightarrow> progress_log \<Rightarrow> progress_log \<Rightarrow> bool list list list \<Rightarrow> bool list list \<Rightarrow> bool" where
  "captured density log log' failed final \<longleftrightarrow>
     log' = log @ concat (map (\<lambda>parts. publish_log parts @ [([], 0)]) failed) @ publish_log final \<and>
     (density \<noteq> DensityAuto \<longrightarrow> (\<forall>parts \<in> set (failed @ [final]). sorted_wrt prefix parts))"

lemma captured_start: "captured density log log [] []"
  by (simp add: captured_def publish_log_def)

lemma captured_withdraw:
  "captured density log log' failed final \<Longrightarrow>
     captured density log (log' @ [([], 0)]) (failed @ [final]) []"
  by (simp add: captured_def publish_log_def)

lemma captured_drained:
  assumes "captured density log log' failed []" and "drained f density [] log' r log''"
  shows "\<exists>final. captured density log log'' failed final \<and>
    (\<forall>bits. r = Inr bits \<longrightarrow> final \<noteq> [] \<and> last final = bits)"
proof -
  obtain parts where parts: "log'' = log' @ publish_log parts"
    "\<forall>bits. r = Inr bits \<longrightarrow> parts \<noteq> [] \<and> last parts = bits"
    "density \<noteq> DensityAuto \<longrightarrow> sorted_wrt prefix parts"
    using assms(2) by (auto simp: drained_def grows_def)
  then show ?thesis
    using assms(1) by (intro exI [of _ parts]) (auto simp: captured_def publish_log_def)
qed

lemma gw_fast_drain:
  assumes laws: "transport_laws T clock rx tx" and "captured density log (snd s) failed []"
  shows "io_wp (io_bind (on_device (gw_stream_deadline T)) (\<lambda>deadline. gw_drain_fast_stream T deadline density))
    (\<lambda>r s'. \<exists>final. captured density log (snd s') failed final \<and>
       (\<forall>bits. r = Inr bits \<longrightarrow> final \<noteq> [] \<and> last final = bits)) s"
  unfolding wp_bind wp_on_device
proof (rule wp_halts_keeps [OF gw_halts_parts(5) [OF laws] keeps_gw_parts(3)])
  fix r :: "error + nat" and d'
  show "case r of Inl e \<Rightarrow> \<exists>final. captured density log (snd (d', snd s)) failed final \<and>
          (\<forall>bits. Inl e = Inr bits \<longrightarrow> final \<noteq> [] \<and> last final = bits)
      | Inr deadline \<Rightarrow> io_wp (gw_drain_fast_stream T deadline density)
          (\<lambda>r s'. \<exists>final. captured density log (snd s') failed final \<and>
             (\<forall>bits. r = Inr bits \<longrightarrow> final \<noteq> [] \<and> last final = bits)) (d', snd s)"
    unfolding gw_drain_fast_stream_def
    using assms(2) wp_conseq [OF gw_drain_spec [OF laws refl] captured_drained [OF assms(2)]]
    by (auto split: sum.split)
qed

lemma gw_fast_capture:
  assumes laws: "transport_laws T clock rx tx"
  shows "io_wp (gw_capture_loop T header
        (io_bind (on_device (gw_stream_deadline T)) (\<lambda>deadline. gw_drain_fast_stream T deadline density))
        (progress [] 0) 0)
    (\<lambda>r s'. \<exists>failed final. captured density (snd s) (snd s') failed final \<and> length failed < 3 \<and>
       (\<forall>bits. r = Inr bits \<longrightarrow> final \<noteq> [] \<and> last final = bits)) s"
    (is "io_wp _ ?Q s")
proof -
  let ?I = "\<lambda>k s'. k < 3 \<and> (\<exists>failed. length failed = k \<and> captured density (snd s) (snd s') failed [])"
  let ?J = "\<lambda>k bits s'. k < 3 \<and> (\<exists>failed final. length failed = k \<and>
      captured density (snd s) (snd s') failed final \<and> final \<noteq> [] \<and> last final = bits)"
  show ?thesis
  proof (rule wp_gw_capture_loop [OF laws, where I = ?I and J = ?J], goal_cases)
    case (1 k s')
    then obtain failed where f: "length failed = k" "captured density (snd s) (snd s') failed []" by blast
    show ?case
      by (rule wp_conseq [OF gw_fast_drain [OF laws f(2)]])
        (use f(1) 1 in \<open>fastforce split: sum.split\<close>)
  next
    case (2 k a s')
    then obtain failed final where "length failed = k" "captured density (snd s) (snd s') failed final" by blast
    then show ?case
      using 2(1) captured_withdraw [of density "snd s" "snd s'" failed final]
      by (auto simp: wp_progress intro!: exI [of _ "failed @ [final]"])
  next
    case 9
    show ?case using captured_start by auto
  qed (auto simp: same_data_def)
qed

lemma frequency_ticks: "\<exists>ticks. try_u32 (unat (f :: u32) * 232 div 1000) = Some ticks"
  using unat_bound [of f] by (simp add: try_u32_def)

lemma gw_read_fast_spec:
  fixes s :: "'a greaseweazle \<times> progress_log"
  assumes laws: "transport_laws T clock rx tx"
  shows "io_wp (gw_read_stream_fast T density)
    (\<lambda>r s'. \<exists>failed final. captured density (snd s) (snd s') failed final \<and> length failed < 3 \<and>
       (\<forall>capture. r = Inr capture \<longrightarrow> final \<noteq> [] \<and> (\<exists>high joined.
          bits_to_unaligned_revolution (last final) high = Inr joined \<and>
          rc_words capture = pack_bits joined \<and> rc_bit_len capture = length joined))) s"
proof -
  define Q :: "error + raw_capture \<Rightarrow> 'a greaseweazle \<times> progress_log \<Rightarrow> bool" where "Q = (\<lambda>r s'. \<exists>failed final. captured density (snd s) (snd s') failed final \<and> length failed < 3 \<and>
       (\<forall>capture. r = Inr capture \<longrightarrow> final \<noteq> [] \<and> (\<exists>high joined.
          bits_to_unaligned_revolution (last final) high = Inr joined \<and>
          rc_words capture = pack_bits joined \<and> rc_bit_len capture = length joined)))"
  have error: "Q (Inl e) (d', snd s)" for e and d' :: "'a greaseweazle"
    unfolding Q_def by (intro exI [of _ "[]"]) (auto intro: captured_start)
  let ?after = "\<lambda>bits. io_then (on_device (gw_release T))
             (io_bind (on_device (io_gets gw_high_density)) (\<lambda>high.
               io_bind (io_result (bits_to_unaligned_revolution bits high)) (\<lambda>joined.
                 let capture = \<lparr>rc_words = pack_bits joined, rc_bit_len = length joined,
                                rc_index_aligned = False\<rparr>
                 in io_then (io_result (validate_capture capture)) (io_return capture))))"
  have after: "io_wp (?after bits) Q t"
    if "captured density (snd s) (snd t) failed final" "length failed < 3" "final \<noteq> []" "last final = bits"
    for t bits failed final
    unfolding wp_bind [of "on_device (gw_release T)"] wp_on_device
    by (rule wp_halts_keeps [OF gw_halts_parts(4) [OF laws] keeps_gw_parts(2)])
      (use that in \<open>auto simp: wp_simps Q_def Let_def split: sum.splits\<close>)
  have capture: "io_wp (io_bind (gw_capture_loop T header
        (io_bind (on_device (gw_stream_deadline T)) (\<lambda>deadline. gw_drain_fast_stream T deadline density))
        (progress [] 0) 0) ?after) Q (d', snd s)" for header d'
    unfolding wp_bind [of "gw_capture_loop _ _ _ _ _"]
  proof (rule wp_conseq [OF gw_fast_capture [OF laws]], elim exE conjE)
    fix r :: "error + bool list" and t :: "'a greaseweazle \<times> progress_log" and failed final
    assume t: "captured density (snd (d', snd s)) (snd t) failed final" "length failed < 3"
      and bits: "\<forall>bits. r = Inr bits \<longrightarrow> final \<noteq> [] \<and> last final = bits"
    show "case r of Inl e \<Rightarrow> Q (Inl e) t | Inr bits \<Rightarrow> io_wp (?after bits) Q t"
    proof (cases r)
      case (Inl e)
      then show ?thesis using t by (auto simp: Q_def)
    next
      case (Inr b)
      show ?thesis unfolding Inr sum.case by (rule after [OF t [unfolded snd_conv]]) (use bits Inr in simp_all)
    qed
  qed
  have "io_wp (gw_read_stream_fast T density) Q s"
    unfolding gw_read_stream_fast_def wp_bind [of "on_device (gw_select T True)"] wp_on_device
  proof (rule wp_halts_keeps [OF gw_halts_parts(1) [OF laws] keeps_gw_select])
    fix r :: "error + unit" and d' :: "'a greaseweazle"
    obtain ticks where "try_u32 (unat (gw_sample_frequency d') * 232 div 1000) = Some ticks"
      using frequency_ticks by blast
    then show "case r of Inl e \<Rightarrow> Q (Inl e) (d', snd s)
        | Inr u \<Rightarrow> io_wp (io_bind (on_device (io_gets gw_sample_frequency)) (\<lambda>frequency.
            io_bind (io_expect (try_u32 (unat frequency * 232 div 1000))) (\<lambda>ticks.
              io_bind (gw_capture_loop T (gw_flux_header ticks 0 0)
                (io_bind (on_device (gw_stream_deadline T)) (\<lambda>deadline.
                  gw_drain_fast_stream T deadline density)) (progress [] 0) 0) ?after))) Q (d', snd s)"
      using error capture by (simp only: wp_gets_device wp_expect_bind fst_conv split: sum.split) blast
  qed
  then show ?thesis unfolding Q_def .
qed
lemma gw_capture_halts:
  assumes laws: "transport_laws T clock rx tx" and "io_halts drain" "io_halts withdraw"
  shows "io_halts (gw_capture_loop T header drain withdraw 0)"
  unfolding wp_halts
proof
  fix s
  show "io_wp (gw_capture_loop T header drain withdraw 0) (\<lambda>_ _. True) s"
    by (rule wp_gw_capture_loop [OF laws, where I = "\<lambda>_ _. True" and J = "\<lambda>_ _ _. True"])
      (use assms(2,3) in \<open>auto simp: wp_halts elim!: allE wp_conseq split: sum.splits\<close>)
qed

lemma gw_index_ticks:
  assumes "f < (0x80000000 :: u32)"
  shows "\<exists>t. try_u32 (unat f * 2) = Some t" "\<exists>t. try_u32 (unat f * 20 div 1000) = Some t"
  using assms unat_bound [of f] by (simp_all add: try_u32_def word_less_nat_alt)

lemma wp_then_frequency:
  fixes m :: "('w greaseweazle, unit) io"
  assumes "io_halts m" and "keeps gw_frame m" and "io_halts (K (gw_sample_frequency (fst s)))"
  shows "io_wp (io_then (on_device m) (io_bind (on_device (io_gets gw_sample_frequency)) K)) (\<lambda>_ _. True) s"
  unfolding wp_bind [of "on_device m"] wp_on_device
proof (rule wp_halts_keeps [OF assms(1,2)])
  fix r :: "error + unit" and d' :: "'w greaseweazle"
  assume "gw_frame d' = gw_frame (fst s)"
  from gw_frame_frequency [OF this]
  show "case r of Inl e \<Rightarrow> True
      | Inr u \<Rightarrow> io_wp (io_bind (on_device (io_gets gw_sample_frequency)) K) (\<lambda>_ _. True) (d', snd s)"
    using assms(3) by (simp add: wp_gets_device wp_halts split: sum.split)
qed

lemma gw_read_stream_returns:
  assumes laws: "transport_laws T clock rx tx"
    and f: "mode = Normal \<or> gw_sample_frequency (fst s) < 0x80000000"
  shows "io_wp (gw_read_stream T mode density) (\<lambda>_ _. True) s"
proof -
  note steps = gw_halts_commands [OF laws] gw_halts_parts [OF laws] transport_halts [OF laws]
    gw_capture_halts [OF laws] io_halts_expect frequency_ticks gw_index_ticks
  show ?thesis
    unfolding gw_read_stream_def Let_def
    apply (rule wp_then_frequency)
    apply (intro io_halts_intros steps keeps_gw_select)+
    using f apply simp_all
    done
qed

text \<open>The panic: the two-second window of an indexed read does not fit its field.\<close>

lemma gw_read_overflow:
  fixes s :: "'w greaseweazle \<times> progress_log"
  assumes "mode \<noteq> Normal" and "0x80000000 \<le> gw_sample_frequency (fst s)"
    and "gw_select T True (fst s) = Some (Inr (), d')"
  shows "gw_read_track T mode density s = None"
proof -
  have "gw_frame d' = gw_frame (fst s)" using assms(3) keeps_gw_select [of T True] by (auto simp: keeps_def)
  from gw_frame_frequency [OF this] have "try_u32 (unat (gw_sample_frequency d') * 2) = None"
    using assms(2) by (simp add: try_u32_def word_le_nat_alt)
  then have panic: "io_bind (io_expect (try_u32 (unat (gw_sample_frequency d') * 2))) K = io_panic"
    for K :: "u32 \<Rightarrow> ('w greaseweazle \<times> progress_log, 'a) io"
    by (simp add: io_expect_def io_panic_bind)
  have "on_device (gw_select T True) s = Some (Inr (), (d', snd s))"
    using assms(3) by (simp add: on_device_def io_zoom_def)
  then have run: "io_bind (on_device (gw_select T True)) K s = K () (d', snd s)"
    for K :: "unit \<Rightarrow> ('w greaseweazle \<times> progress_log, raw_capture) io"
    by (simp add: io_bind_def)
  show ?thesis
    unfolding gw_read_track_def gw_read_stream_def if_not_P [OF assms(1)] run gets_device_bind fst_conv
      panic io_panic_bind by (simp add: io_panic_def)
qed

section \<open>Properties\<close>

text \<open>
  C30: Every operation of an open Greaseweazle returns, with a value or an error, whatever the
  interface answers and however slowly; reading a track too, provided that the sample frequency
  the firmware reported is not zero, which opening the device makes sure of, and that it is below
  \<^verbatim>\<open>2^31\<close> or the read does not wait for the index. Reads that wait for the index at
  a higher frequency are excluded: they panic.
\<close>

theorem gw_operations_return:
  assumes laws: "transport_laws T clock rx tx"
  shows "io_halts (dv_status (gw_device T)) \<and> io_halts (dv_set_motor (gw_device T) enabled quick) \<and>
    io_halts (dv_seek (gw_device T) c) \<and> io_halts (dv_select_side (gw_device T) side) \<and>
    io_halts (dv_no_click_step (gw_device T)) \<and>
    io_halts (dv_write_track (gw_device T) words bit_len from_index density) \<and>
    (0 < gw_sample_frequency d \<and> (mode = Normal \<or> gw_sample_frequency d < 0x80000000) \<longrightarrow>
       dv_read_track (gw_device T) mode density (d, log) \<noteq> None)"
proof -
  have "dv_read_track (gw_device T) mode density (d, log) \<noteq> None"
    if "mode = Normal \<or> gw_sample_frequency d < 0x80000000"
  proof (cases "mode = Normal")
    case True
    have "io_wp (gw_read_stream_fast T density) (\<lambda>_ _. True) (d, log)"
      by (rule wp_conseq [OF gw_read_fast_spec [OF laws]]) simp
    then show ?thesis using True by (auto simp: gw_device_def gw_read_track_def io_wp_def)
  next
    case False
    then have "io_wp (gw_read_stream T mode density) (\<lambda>_ _. True) (d, log)"
      using that by (intro gw_read_stream_returns [OF laws]) simp_all
    then show ?thesis using False by (auto simp: gw_device_def gw_read_track_def io_wp_def)
  qed
  then show ?thesis using gw_halts_operations [OF laws] by (simp add: gw_device_def)
qed

theorem gw_operations_return_witness:
  "dv_read_track (gw_device (scripted 64)) Compatible DensityAuto (demo_gw [] 72000000, []) \<noteq> None \<and>
   dv_status (gw_device (scripted 64)) (demo_gw [12, 0, 20] 72000000) \<noteq> None"
proof -
  have "gw_sample_frequency (demo_gw [] 72000000) < 0x80000000" by (simp add: demo_gw_def)
  moreover have "0 < gw_sample_frequency (demo_gw [] 72000000)" by (simp add: demo_gw_def)
  moreover note gw_operations_return [OF scripted_laws [of 64]]
  ultimately show ?thesis unfolding io_halts_def by blast
qed



text \<open>
  C32: A read that waits for the index never returns on an interface that reports a sample
  frequency of \<^verbatim>\<open>2^31\<close> or more: the tick count of its two-second window does not fit its
  field and the conversion panics, although opening the device accepted the frequency.
\<close>

theorem gw_read_overflow_panics:
  assumes "mode \<noteq> Normal" and "0x80000000 \<le> gw_sample_frequency d"
    and "gw_select T True d = Some (Inr (), d1)"
  shows "gw_read_track T mode density (d, log) = None"
  using gw_read_overflow [OF assms(1), of "(d, log)" T d1] assms(2,3) by simp

theorem gw_read_overflow_panics_witness:
  "gw_read_track (scripted 2) Compatible DensityAuto ((demo_gw [] 0x80000000)\<lparr>gw_selected := True\<rparr>, []) = None \<and>
   gw_check_version [0, 27, 1, 0, 0, 0, 0, 0x80] = Inr 0x80000000"
proof
  show "gw_check_version [0, 27, 1, 0, 0, 0, 0, 0x80] = Inr 0x80000000" by code_simp
  have "gw_select (scripted 2) True ((demo_gw [] 0x80000000)\<lparr>gw_selected := True\<rparr>) =
      Some (Inr (), (demo_gw [] 0x80000000)\<lparr>gw_selected := True\<rparr>)"
    by (simp add: gw_select_def io_bind_def io_run)
  then show "gw_read_track (scripted 2) Compatible DensityAuto
      ((demo_gw [] 0x80000000)\<lparr>gw_selected := True\<rparr>, []) = None"
    by (intro gw_read_overflow_panics [of Compatible]) (simp_all add: demo_gw_def)
qed

end
