(* ===== verification/Stream_Window.thy ===== *)
theory Stream_Window
  imports Device
begin

text \<open>
  Waiting for a pattern in the bytes a port delivers: the loops with which the DrawBridge and
  SuperCard Pro backends find the firmware's version and the end of a stopped stream read one
  byte at a time into a sliding window.
\<close>

definition ascii :: "char \<Rightarrow> u8" where
  "ascii c = of_nat (of_char c)"

definition ascii_bytes :: "string \<Rightarrow> u8 list" where
  "ascii_bytes s = map ascii s"

definition is_ascii_digit :: "u8 \<Rightarrow> bool" where
  "is_ascii_digit b \<longleftrightarrow> ascii (CHR ''0'') \<le> b \<and> b \<le> ascii (CHR ''9'')"

text \<open>One byte before a deadline.\<close>

definition read_byte_until :: "'w transport \<Rightarrow> nat \<Rightarrow> string \<Rightarrow> ('w, u8) io" where
  "read_byte_until T deadline operation =
     io_bind (read_exact_until T 1 deadline operation) (\<lambda>bytes. io_return (bytes ! 0))"

text \<open>
  \<open>verdict\<close> inspects the window after each byte: an error ends the call, a value ends the
  loop, nothing reads on.
\<close>

partial_function (option) await_window ::
  "'w transport \<Rightarrow> nat \<Rightarrow> string \<Rightarrow> (u8 list \<Rightarrow> error + 'a option) \<Rightarrow> u8 list \<Rightarrow> ('w, 'a) io" where
  "await_window T deadline operation verdict window w =
     io_bind (read_byte_until T deadline operation) (\<lambda>byte w.
       let window = tl window @ [byte] in
       case verdict window of
         Inl e \<Rightarrow> io_throw e w
       | Inr (Some a) \<Rightarrow> io_return a w
       | Inr None \<Rightarrow> await_window T deadline operation verdict window w) w"

text \<open>A call with a deadline some time from now.\<close>

definition within :: "'w transport \<Rightarrow> nat \<Rightarrow> (nat \<Rightarrow> ('w, 'a) io) \<Rightarrow> ('w, 'a) io" where
  "within T timeout f = io_bind (tr_instant T) (\<lambda>now. f (now + timeout))"

text \<open>\<^verbatim>\<open>u16::to_be_bytes\<close>.\<close>

definition be16 :: "u16 \<Rightarrow> u8 list" where
  "be16 w = [ucast (drop_bit 8 w), ucast w]"

lemma halts_within [io_halts_intros]:
  assumes "io_halts (tr_instant T)" and "\<And>deadline. io_halts (f deadline)"
  shows "io_halts (within T timeout f)"
  unfolding within_def by (intro io_halts_intros assms)

lemma wp_within:
  assumes "transport_laws T clock rx tx"
    and "\<And>w1 deadline. talks clock rx tx w w1 [] [] \<Longrightarrow> io_wp (f deadline) Q w1"
  shows "io_wp (within T timeout f) Q w"
  unfolding within_def wp_bind by (rule wp_instant [OF assms(1)]) (simp add: assms(2))

lemma wp_read_byte_until:
  assumes "transport_laws T clock rx tx"
    and "\<And>e w' got. talks clock rx tx w w' [] got \<Longrightarrow> Q (Inl e) w'"
    and "\<And>b w'. talks clock rx tx w w' [] [b] \<Longrightarrow> clock w \<le> deadline \<Longrightarrow> clock w < clock w' \<Longrightarrow>
      Q (Inr b) w'"
  shows "io_wp (read_byte_until T deadline operation) Q w"
  unfolding read_byte_until_def wp_bind
  by (rule wp_read_byte [OF assms(1)]) (auto simp: wp_basic intro: assms(2,3))

text \<open>
  The loop always returns; when it succeeds, what it consumed puts an accepted window at the end,
  and no earlier window was accepted.
\<close>

definition windows :: "u8 list \<Rightarrow> u8 list \<Rightarrow> u8 list" where
  "windows window bytes = drop (length bytes) (window @ bytes)"

lemma windows_step: "window \<noteq> [] \<Longrightarrow> windows (tl window @ [b]) bytes = windows window (b # bytes)"
  by (cases window) (simp_all add: windows_def)

lemma await_window_spec:
  assumes laws: "transport_laws T clock rx tx" and "window \<noteq> []"
  shows "io_wp (await_window T deadline operation verdict window)
    (\<lambda>r w'. \<exists>got. talks clock rx tx w w' [] got \<and>
       (\<forall>a. r = Inr a \<longrightarrow> got \<noteq> [] \<and> verdict (windows window got) = Inr (Some a) \<and>
          (\<forall>k. 0 < k \<longrightarrow> k < length got \<longrightarrow> verdict (windows window (take k got)) = Inr None))) w"
  using assms(2)
proof (induction "Suc deadline - clock w" arbitrary: w window rule: less_induct)
  case less
  let ?P = "\<lambda>window w (r :: error + 'b) w'. \<exists>got. talks clock rx tx w w' [] got \<and>
       (\<forall>a. r = Inr a \<longrightarrow> got \<noteq> [] \<and> verdict (windows window got) = Inr (Some a) \<and>
          (\<forall>k. 0 < k \<longrightarrow> k < length got \<longrightarrow> verdict (windows window (take k got)) = Inr None))"
  have eq: "io_wp (await_window T deadline operation verdict window) Q w =
      io_wp (io_bind (read_byte_until T deadline operation) (\<lambda>byte w.
        let window = tl window @ [byte] in
        case verdict window of
          Inl e \<Rightarrow> io_throw e w
        | Inr (Some a) \<Rightarrow> io_return a w
        | Inr None \<Rightarrow> await_window T deadline operation verdict window w)) Q w" for Q
    by (simp add: io_wp_def await_window.simps [of T deadline operation verdict window])
  show ?case
    unfolding eq wp_bind
  proof (rule wp_read_byte_until [OF laws], unfold sum.case)
    fix e w' got assume "talks clock rx tx w w' [] got"
    then show "?P window w (Inl e) w'" by auto
  next
    fix b w1 assume t: "talks clock rx tx w w1 [] [b]" and late: "clock w \<le> deadline" "clock w < clock w1"
    let ?window = "tl window @ [b]"
    have step: "windows ?window bytes = windows window (b # bytes)" for bytes
      by (rule windows_step [OF less.prems])
    have one: "windows window [b] = ?window" using step [of "[]"] by (simp add: windows_def)
    show "io_wp (\<lambda>w. let window = ?window in
        case verdict window of
          Inl e \<Rightarrow> io_throw e w
        | Inr (Some a) \<Rightarrow> io_return a w
        | Inr None \<Rightarrow> await_window T deadline operation verdict window w) (?P window w) w1"
    proof (cases "verdict ?window")
      case (Inl e)
      then show ?thesis using t by (auto simp: io_wp_def io_run)
    next
      case (Inr found)
      show ?thesis
      proof (cases found)
        case (Some a)
        then show ?thesis using t Inr one by (auto simp: io_wp_def io_run intro!: exI [of _ "[b]"])
      next
        case None
        have "Suc deadline - clock w1 < Suc deadline - clock w" using late by linarith
        from less.hyps [OF this, of ?window]
        have "io_wp (await_window T deadline operation verdict ?window) (?P window w) w1"
        proof (rule wp_conseq [OF _ _], simp, elim exE conjE)
          fix r :: "error + 'b" and w' got
          assume t1: "talks clock rx tx w1 w' [] got"
            and ok: "\<forall>a. r = Inr a \<longrightarrow> got \<noteq> [] \<and> verdict (windows ?window got) = Inr (Some a) \<and>
              (\<forall>k. 0 < k \<longrightarrow> k < length got \<longrightarrow> verdict (windows ?window (take k got)) = Inr None)"
          have "talks clock rx tx w w' [] (b # got)" using talks_trans [OF t t1] by simp
          moreover have "verdict (windows window (take k (b # got))) = Inr None"
            if "0 < k" "k < Suc (length got)" "r = Inr a" for k a
          proof (cases "k = 1")
            case True
            then show ?thesis using one Inr None by simp
          next
            case False
            then have "0 < k - 1" "k - 1 < length got" using that by linarith+
            then have "verdict (windows ?window (take (k - 1) got)) = Inr None" using ok that(3) by blast
            then show ?thesis using that(1) step [of "take (k - 1) got"] by (simp add: take_Cons')
          qed
          ultimately show "?P window w r w'"
            using ok step by (intro exI [of _ "b # got"]) auto
        qed
        then show ?thesis using Inr None by (simp add: io_wp_def Let_def)
      qed
    qed
  qed
qed

lemma wp_await_window:
  assumes laws: "transport_laws T clock rx tx" and "window \<noteq> []"
    and "\<And>e w' got. talks clock rx tx w w' [] got \<Longrightarrow> Q (Inl e) w'"
    and "\<And>a w' got. talks clock rx tx w w' [] got \<Longrightarrow> verdict (windows window got) = Inr (Some a) \<Longrightarrow>
      Q (Inr a) w'"
  shows "io_wp (await_window T deadline operation verdict window) Q w"
proof (rule wp_conseq [OF await_window_spec [OF assms(1,2)]], elim exE conjE)
  fix r :: "error + 'b" and w' got
  assume t: "talks clock rx tx w w' [] got"
    and "\<forall>a. r = Inr a \<longrightarrow> got \<noteq> [] \<and> verdict (windows window got) = Inr (Some a) \<and>
       (\<forall>k. 0 < k \<longrightarrow> k < length got \<longrightarrow> verdict (windows window (take k got)) = Inr None)"
  then show "Q r w'" by (cases r) (auto intro: assms(3,4))
qed

lemma halts_windows:
  assumes "transport_laws T clock rx tx"
  shows "io_halts (read_byte_until T deadline operation)"
    and "window \<noteq> [] \<Longrightarrow> io_halts (await_window T deadline operation verdict window)"
  unfolding wp_halts by (auto intro: wp_read_byte_until [OF assms] wp_await_window [OF assms])

section \<open>On the scripted port\<close>

lemma scripted_byte:
  assumes "sim_clock p \<le> deadline" and "sim_pending p = b # rest" and "0 < burst"
  shows "read_byte_until (scripted burst) deadline op p =
    Some (Inr b, \<lparr>sim_clock = Suc (sim_clock p), sim_pending = rest,
      sim_delivered = sim_delivered p @ [b], sim_taken = sim_taken p\<rparr>)"
  using scripted_exact [of p deadline "[b]" rest 1 burst op] assms
  by (simp add: read_byte_until_def io_bind_def io_run)

lemma scripted_await:
  assumes "sim_clock p + length bytes \<le> deadline" and "sim_pending p = bytes @ rest" and "0 < burst"
    and "bytes \<noteq> []" and "window \<noteq> []" and "verdict (windows window bytes) = Inr (Some a)"
    and "\<forall>k. 0 < k \<longrightarrow> k < length bytes \<longrightarrow> verdict (windows window (take k bytes)) = Inr None"
  shows "await_window (scripted burst) deadline op verdict window p =
    Some (Inr a, \<lparr>sim_clock = sim_clock p + length bytes, sim_pending = rest,
      sim_delivered = sim_delivered p @ bytes, sim_taken = sim_taken p\<rparr>)"
  using assms
proof (induction bytes arbitrary: p window)
  case (Cons b bytes)
  let ?p = "\<lparr>sim_clock = Suc (sim_clock p), sim_pending = bytes @ rest,
      sim_delivered = sim_delivered p @ [b], sim_taken = sim_taken p\<rparr>"
  let ?window = "tl window @ [b]"
  have read: "read_byte_until (scripted burst) deadline op p = Some (Inr b, ?p)"
    using scripted_byte [of p deadline b "bytes @ rest" burst op] Cons.prems by simp
  have step: "windows ?window bs = windows window (b # bs)" for bs
    by (rule windows_step [OF Cons.prems(5)])
  have one: "windows window [b] = ?window" using step [of "[]"] by (simp add: windows_def)
  show ?case
  proof (cases "bytes = []")
    case True
    then show ?thesis
      using Cons.prems(6) one
      by (subst await_window.simps) (simp add: io_bind_def read io_run Let_def)
  next
    case False
    have "verdict ?window = Inr None"
      using Cons.prems(7) [rule_format, of 1] False one by (cases bytes) simp_all
    moreover have "await_window (scripted burst) deadline op verdict ?window ?p =
      Some (Inr a, \<lparr>sim_clock = sim_clock ?p + length bytes, sim_pending = rest,
        sim_delivered = sim_delivered ?p @ bytes, sim_taken = sim_taken ?p\<rparr>)"
    proof (rule Cons.IH)
      show "\<forall>k. 0 < k \<longrightarrow> k < length bytes \<longrightarrow> verdict (windows ?window (take k bytes)) = Inr None"
      proof (intro allI impI)
        fix k assume "0 < k" "k < length bytes"
        then show "verdict (windows ?window (take k bytes)) = Inr None"
          using Cons.prems(7) [rule_format, of "Suc k"] step [of "take k bytes"] by simp
      qed
    qed (use Cons.prems False step [of bytes] in simp_all)
    ultimately show ?thesis
      by (subst await_window.simps) (simp add: io_bind_def read Let_def)
  qed
qed simp

end
