(* ===== verification/DrawBridge_Codec.thy ===== *)
theory DrawBridge_Codec
  imports Stream_Window
begin

text \<open>
  The byte formats of the DrawBridge firmware (\<^verbatim>\<open>src/device/drawbridge.rs\<close>): the cell
  sequences a track is read as, with its index marks, and the transition counts it is written as.
\<close>

section \<open>Reading: cell sequences\<close>

definition append_sequence :: "bool list \<Rightarrow> u8 \<Rightarrow> bool list" where
  "append_sequence bits code =
     (if code = 0 then bits @ [False, False, False]
      else if code = 1 then bits @ [False, True]
      else if code = 2 then bits @ [False, False, True]
      else bits @ [False, False, False, True])"

text \<open>
  One byte of the stream, as one pass of the loop of \<^verbatim>\<open>read_stream\<close> consumes it. The
  state holds the cells, whether an index mark was seen and whether the capture is complete.
\<close>

type_synonym db_capture = "bool list \<times> bool \<times> bool"

fun db_feed_hd :: "read_mode \<Rightarrow> nat list \<Rightarrow> u8 \<Rightarrow> db_capture \<Rightarrow> db_capture" where
  "db_feed_hd mode [] byte capture = capture"
| "db_feed_hd mode (shift # shifts) byte (bits, first_index, complete) =
     (let code = drop_bit shift byte AND 3;
          at_index = (code = 3 \<and> mode \<noteq> Normal)
      in if at_index \<and> first_index then (bits, first_index, True)
         else db_feed_hd mode shifts byte
           (append_sequence (if at_index then [] else bits) (if code = 3 then 1 else code + 1),
            first_index \<or> at_index, complete))"

fun db_feed_dd :: "read_mode \<Rightarrow> u8 \<Rightarrow> db_capture \<Rightarrow> db_capture" where
  "db_feed_dd mode byte (bits, first_index, complete) =
     (let at_index = (byte AND 0x80 \<noteq> 0 \<and> mode \<noteq> Normal)
      in if at_index \<and> first_index then (bits, first_index, True)
         else
           (append_sequence
              (append_sequence (if at_index then [] else bits) (drop_bit 5 byte AND 3))
              (drop_bit 3 byte AND 3),
            first_index \<or> at_index, complete))"

definition db_target_bits :: "bool \<Rightarrow> nat" where
  "db_target_bits high = (if high then 240000 else 120000)"

definition db_feed :: "read_mode \<Rightarrow> bool \<Rightarrow> u8 \<Rightarrow> db_capture \<Rightarrow> db_capture" where
  "db_feed mode high byte capture =
     (let (bits, first_index, complete) =
        (if high then db_feed_hd mode [6, 4, 2, 0] byte capture else db_feed_dd mode byte capture)
      in if mode = Normal \<and> length bits \<ge> db_target_bits high
         then (take (db_target_bits high) bits, first_index, True)
         else (bits, first_index, complete))"

section \<open>Writing: transition counts\<close>

definition db_bit_at :: "u16 list \<Rightarrow> nat \<Rightarrow> nat \<Rightarrow> bool" where
  "db_bit_at words bit_len position =
     (if position \<ge> bit_len then even (position - bit_len) else packed_bit words position)"

fun transition_loop :: "u16 list \<Rightarrow> nat \<Rightarrow> u8 \<Rightarrow> nat list \<Rightarrow> u8 \<Rightarrow> u8 list \<Rightarrow> u8 list" where
  "transition_loop words bit_len limit [] count counts = counts"
| "transition_loop words bit_len limit (position # ps) count counts =
     (let count = sat_add8 count 1 in
      if db_bit_at words bit_len position
      then transition_loop words bit_len limit ps 0 (counts @ [max 2 (min count limit)])
      else transition_loop words bit_len limit ps count counts)"

definition transition_counts :: "u16 list \<Rightarrow> nat \<Rightarrow> u8 \<Rightarrow> u8 list result" where
  "transition_counts words bit_len limit =
     (if bit_len = 0 \<or> bit_len > length words * 16
      then Inl (InvalidConfig ''DrawBridge write bit length does not fit its words'')
      else Inr (transition_loop words bit_len limit [0..<bit_len + 8] 0 []))"

text \<open>\<^verbatim>\<open>chunks(n)\<close> of a slice.\<close>

function chunks :: "nat \<Rightarrow> 'a list \<Rightarrow> 'a list list" where
  "chunks n xs = (if n = 0 \<or> xs = [] then [] else take n xs # chunks n (drop n xs))"
  by pat_completeness auto
termination by (relation "measure (\<lambda>(n, xs). length xs)") auto

declare chunks.simps [simp del]

definition dd_adjustment :: "bool \<Rightarrow> u8 \<Rightarrow> u8 \<Rightarrow> u8" where
  "dd_adjustment precomp previous count =
     (if precomp then
        if previous = 2 \<and> count \<ge> 4 then 0x04
        else if previous \<ge> 4 \<and> count = 2 then 0x08
        else 0
      else 0)"

fun dd_byte :: "bool \<Rightarrow> (nat \<times> u8) list \<Rightarrow> u8 \<times> u8 \<Rightarrow> u8 \<times> u8" where
  "dd_byte precomp [] (byte, previous) = (byte, previous)"
| "dd_byte precomp ((index, count) # rest) (byte, previous) =
     dd_byte precomp rest
       (byte OR push_bit (index * 4) ((previous - 2) OR dd_adjustment precomp previous count), count)"

fun dd_bytes :: "bool \<Rightarrow> u8 list list \<Rightarrow> u8 \<Rightarrow> u8 list \<Rightarrow> u8 list" where
  "dd_bytes precomp [] previous encoded = encoded"
| "dd_bytes precomp (chunk # rest) previous encoded =
     (let (byte, previous) = dd_byte precomp (List.enumerate 0 chunk) (0, previous)
      in dd_bytes precomp rest previous (encoded @ [byte]))"

definition encode_dd :: "u16 list \<Rightarrow> nat \<Rightarrow> bool \<Rightarrow> u8 list result" where
  "encode_dd words bit_len precomp =
     (case transition_counts words bit_len 5 of
        Inl e \<Rightarrow> Inl e
      | Inr counts \<Rightarrow> Inr (dd_bytes precomp (chunks 2 counts) 2 []))"

definition hd_shift :: "nat \<Rightarrow> nat" where
  "hd_shift index = (if index = 0 then 4 else if index = 1 then 2 else if index = 2 then 0 else 6)"

fun hd_byte :: "(nat \<times> u8) list \<Rightarrow> u8 \<Rightarrow> u8" where
  "hd_byte [] byte = byte"
| "hd_byte ((index, count) # rest) byte = hd_byte rest (byte OR push_bit (hd_shift index) (count - 1))"

definition encode_hd :: "u16 list \<Rightarrow> nat \<Rightarrow> u8 list result" where
  "encode_hd words bit_len =
     (case transition_counts words bit_len 4 of
        Inl e \<Rightarrow> Inl e
      | Inr counts \<Rightarrow>
          Inr (map (\<lambda>chunk. hd_byte (List.enumerate 0 chunk) 0) (chunks 4 counts) @ [0]))"

section \<open>The counts are the distances between transitions\<close>

text \<open>
  \<open>gaps\<close>: the number of cells up to and including each transition. The run-out after the
  track is eight alternating cells.
\<close>

fun gaps :: "nat \<Rightarrow> bool list \<Rightarrow> nat list" where
  "gaps n [] = []"
| "gaps n (b # bs) = (if b then Suc n # gaps 0 bs else gaps (Suc n) bs)"

definition run_out :: "bool list" where
  "run_out = [True, False, True, False, True, False, True, False]"

definition clamped :: "nat \<Rightarrow> nat \<Rightarrow> nat" where
  "clamped limit g = max 2 (min g limit)"

lemma unat_max_min:
  fixes a b :: "'a::len word"
  shows "unat (max a b) = max (unat a) (unat b)" "unat (min a b) = min (unat a) (unat b)"
  by (auto simp: max_def min_def word_le_nat_alt)

lemma transition_loop_gaps:
  assumes "2 \<le> unat limit" and "unat count = min n 255"
  shows "map unat (transition_loop words bit_len limit ps count counts) =
    map unat counts @ map (clamped (unat limit)) (gaps n (map (db_bit_at words bit_len) ps))"
  using assms
proof (induction words bit_len limit ps count counts arbitrary: n rule: transition_loop.induct)
  case (2 words bit_len limit position ps count counts)
  have next_count: "unat (sat_add8 count 1) = min (Suc n) 255"
    using "2.prems"(2) by (simp add: word_arith)
  have limit: "2 \<le> unat limit" "unat limit \<le> 255" using "2.prems"(1) unat_bound [of limit] by simp_all
  have "unat (max 2 (min (sat_add8 count 1) limit)) = clamped (unat limit) (Suc n)"
    using limit by (simp add: unat_max_min next_count clamped_def)
  then show ?case
    using "2.IH"(1) [OF refl _ limit(1), of 0] "2.IH"(2) [OF refl _ limit(1), of "Suc n"] next_count by (simp add: Let_def)
qed simp

lemma db_bits: "map (db_bit_at words n) [0..<n + 8] = unpack words n @ run_out"
proof -
  have "[0..<n + 8] = [0..<n] @ [n, n + 1, n + 2, n + 3, n + 4, n + 5, n + 6, n + 7]"
    using upt_add_eq_append [of 0 n 8] by (simp add: upt_rec)
  then show ?thesis by (simp add: unpack_def run_out_def db_bit_at_def)
qed

lemma transition_counts_gaps:
  assumes "transition_counts words n limit = Inr counts" and "2 \<le> unat limit"
  shows "map unat counts = map (clamped (unat limit)) (gaps 0 (unpack words n @ run_out))"
  using assms transition_loop_gaps [OF assms(2), of 0 0 words n "[0..<n + 8]" "[]"]
  unfolding db_bits by (auto simp: transition_counts_def split: if_splits)

section \<open>The write formats hold the counts\<close>

text \<open>The fields of a byte, in the order the firmware plays them.\<close>

definition hd_fields :: "u8 \<Rightarrow> u8 list" where
  "hd_fields byte =
     filter (\<lambda>field. field \<noteq> 0)
       [drop_bit 4 byte AND 3, drop_bit 2 byte AND 3, byte AND 3, drop_bit 6 byte AND 3]"

definition dd_fields :: "u8 \<Rightarrow> u8 list" where
  "dd_fields byte = [byte AND 3, drop_bit 4 byte AND 3]"

lemma hd_byte_cases:
  "\<forall>a \<in> set [2, 3, 4]. hd_fields (hd_byte [(0, a)] 0) = [a - 1] \<and>
     (\<forall>b \<in> set [2, 3, 4]. hd_fields (hd_byte [(0, a), (1, b)] 0) = [a - 1, b - 1] \<and>
       (\<forall>c \<in> set [2, 3, 4]. hd_fields (hd_byte [(0, a), (1, b), (2, c)] 0) = [a - 1, b - 1, c - 1] \<and>
         (\<forall>d \<in> set [2, 3, 4]. hd_fields (hd_byte [(0, a), (1, b), (2, c), (3, d)] 0) =
            [a - 1, b - 1, c - 1, d - 1])))"
  by code_simp

lemma dd_byte_cases:
  "\<forall>precomp \<in> set [False, True]. \<forall>p \<in> set [2, 3, 4, 5]. \<forall>a \<in> set [2, 3, 4, 5].
     dd_byte precomp [(0, a)] (0, p) = (fst (dd_byte precomp [(0, a)] (0, p)), a) \<and>
     hd (dd_fields (fst (dd_byte precomp [(0, a)] (0, p)))) = p - 2 \<and>
     (\<forall>b \<in> set [2, 3, 4, 5]. snd (dd_byte precomp [(0, a), (1, b)] (0, p)) = b \<and>
        dd_fields (fst (dd_byte precomp [(0, a), (1, b)] (0, p))) = [p - 2, a - 2])"
  by code_simp


lemma chunks_step:
  "chunks n [] = []"
  "0 < n \<Longrightarrow> xs \<noteq> [] \<Longrightarrow> chunks n xs = take n xs # chunks n (drop n xs)"
  by (simp_all add: chunks.simps [of n])

lemma chunks_4:
  "chunks 4 [a] = [[a]]" "chunks 4 [a, b] = [[a, b]]" "chunks 4 [a, b, c] = [[a, b, c]]"
  "chunks 4 (a # b # c # d # rest) = [a, b, c, d] # chunks 4 rest"
  by (subst chunks_step(2); simp add: chunks_step(1) numeral_eq_Suc)+

lemma chunks_2: "chunks 2 [a] = [[a]]" "chunks 2 (a # b # rest) = [a, b] # chunks 2 rest"
  by (subst chunks_step(2); simp add: chunks_step(1) numeral_eq_Suc)+

lemma enumerated:
  "List.enumerate 0 [a] = [(0, a)]" "List.enumerate 0 [a, b] = [(0, a), (1, b)]"
  "List.enumerate 0 [a, b, c] = [(0, a), (1, b), (2, c)]"
  "List.enumerate 0 [a, b, c, d] = [(0, a), (1, b), (2, c), (3, d)]"
  by (simp_all add: numeral_eq_Suc)

lemma hd_fields_byte:
  assumes "a \<in> {2, 3, 4}"
  shows "hd_fields (hd_byte [(0, a)] 0) = [a - 1]"
    and "b \<in> {2, 3, 4} \<Longrightarrow> hd_fields (hd_byte [(0, a), (1, b)] 0) = [a - 1, b - 1]"
    and "b \<in> {2, 3, 4} \<Longrightarrow> c \<in> {2, 3, 4} \<Longrightarrow>
      hd_fields (hd_byte [(0, a), (1, b), (2, c)] 0) = [a - 1, b - 1, c - 1]"
    and "b \<in> {2, 3, 4} \<Longrightarrow> c \<in> {2, 3, 4} \<Longrightarrow> d \<in> {2, 3, 4} \<Longrightarrow>
      hd_fields (hd_byte [(0, a), (1, b), (2, c), (3, d)] 0) = [a - 1, b - 1, c - 1, d - 1]"
  using hd_byte_cases [unfolded list.set] assms by blast+

lemma hd_bytes_fields:
  assumes "set counts \<subseteq> {2, 3, 4}"
  shows "concat (map (\<lambda>chunk. hd_fields (hd_byte (List.enumerate 0 chunk) 0)) (chunks 4 counts)) =
      map (\<lambda>c. c - 1) counts \<and>
    (\<forall>chunk \<in> set (chunks 4 counts). hd_fields (hd_byte (List.enumerate 0 chunk) 0) \<noteq> [])"
  using assms
proof (induction "length counts" arbitrary: counts rule: less_induct)
  case less
  consider "counts = []" | a where "counts = [a]" | a b where "counts = [a, b]"
    | a b c where "counts = [a, b, c]" | a b c d rest where "counts = a # b # c # d # rest"
    by (metis list.exhaust)
  then show ?case
  proof cases
    case 1
    then show ?thesis by (simp add: chunks_step)
  next
    case (5 a b c d rest)
    then have "set rest \<subseteq> {2, 3, 4}" "length rest < length counts"
      and d: "a \<in> {2, 3, 4}" "b \<in> {2, 3, 4}" "c \<in> {2, 3, 4}" "d \<in> {2, 3, 4}"
      using less.prems by auto
    with less.hyps [of rest] show ?thesis
      by (simp only: 5 chunks_4 list.simps concat.simps list.set ball_simps enumerated
          hd_fields_byte(4) [OF d] append.simps) simp
  qed (use less.prems in \<open>simp_all only: chunks_4 list.simps concat.simps enumerated hd_fields_byte
      insert_subset append_Nil2 ball_simps simp_thms\<close>)
qed

lemma dd_byte_one:
  assumes "p \<in> {2, 3, 4, 5}" and "a \<in> {2, 3, 4, 5}"
  shows "snd (dd_byte precomp [(0, a)] (0, p)) = a"
    and "hd (dd_fields (fst (dd_byte precomp [(0, a)] (0, p)))) = p - 2"
    and "b \<in> {2, 3, 4, 5} \<Longrightarrow> snd (dd_byte precomp [(0, a), (1, b)] (0, p)) = b"
    and "b \<in> {2, 3, 4, 5} \<Longrightarrow> dd_fields (fst (dd_byte precomp [(0, a), (1, b)] (0, p))) = [p - 2, a - 2]"
proof -
  have "precomp \<in> {False, True}" by blast
  note cases = dd_byte_cases [unfolded list.set, THEN bspec, OF this, THEN bspec, OF assms(1), THEN bspec,
      OF assms(2)]
  show "snd (dd_byte precomp [(0, a)] (0, p)) = a"
    "hd (dd_fields (fst (dd_byte precomp [(0, a)] (0, p)))) = p - 2"
    "b \<in> {2, 3, 4, 5} \<Longrightarrow> snd (dd_byte precomp [(0, a), (1, b)] (0, p)) = b"
    "b \<in> {2, 3, 4, 5} \<Longrightarrow> dd_fields (fst (dd_byte precomp [(0, a), (1, b)] (0, p))) = [p - 2, a - 2]"
    using cases by (metis snd_conv, blast, blast, blast)
qed

lemma dd_bytes_step:
  "dd_bytes precomp (chunk # rest) previous encoded =
     dd_bytes precomp rest (snd (dd_byte precomp (List.enumerate 0 chunk) (0, previous)))
       (encoded @ [fst (dd_byte precomp (List.enumerate 0 chunk) (0, previous))])"
  by (simp add: split_def Let_def)

lemma dd_bytes_fields:
  assumes "set counts \<subseteq> {2, 3, 4, 5}" and "previous \<in> {2, 3, 4, 5}"
  shows "\<exists>bytes. dd_bytes precomp (chunks 2 counts) previous encoded = encoded @ bytes \<and>
    take (length counts) (concat (map dd_fields bytes)) = map (\<lambda>c. c - 2) (butlast (previous # counts))"
  using assms
proof (induction "length counts" arbitrary: counts previous encoded rule: less_induct)
  case less
  consider "counts = []" | a where "counts = [a]" | a b rest where "counts = a # b # rest"
    by (metis list.exhaust)
  then show ?case
  proof cases
    case 1
    then show ?thesis by (simp add: chunks_step)
  next
    case (2 a)
    let ?byte = "fst (dd_byte precomp [(0, a)] (0, previous))"
    have "dd_bytes precomp (chunks 2 counts) previous encoded = encoded @ [?byte]"
      unfolding 2 chunks_2 dd_bytes_step enumerated by simp
    moreover have "hd (dd_fields ?byte) = previous - 2" using less.prems 2 by (intro dd_byte_one) auto
    then have "take 1 (dd_fields ?byte) = [previous - 2]" by (simp add: dd_fields_def)
    ultimately show ?thesis using 2 by (intro exI [of _ "[?byte]"]) simp
  next
    case (3 a b rest)
    let ?byte = "fst (dd_byte precomp [(0, a), (1, b)] (0, previous))"
    have ab: "a \<in> {2, 3, 4, 5}" "b \<in> {2, 3, 4, 5}" "set rest \<subseteq> {2, 3, 4, 5}" using less.prems 3 by auto
    have step: "dd_bytes precomp (chunks 2 counts) previous encoded =
        dd_bytes precomp (chunks 2 rest) b (encoded @ [?byte])"
      unfolding 3 chunks_2 dd_bytes_step enumerated dd_byte_one(3) [OF less.prems(2) ab(1,2)] ..
    obtain bytes where "dd_bytes precomp (chunks 2 rest) b (encoded @ [?byte]) = (encoded @ [?byte]) @ bytes"
      "take (length rest) (concat (map dd_fields bytes)) = map (\<lambda>c. c - 2) (butlast (b # rest))"
      using less.hyps [of rest b "encoded @ [?byte]"] ab 3 by auto
    then show ?thesis
      using 3 dd_byte_one(4) [OF less.prems(2) ab(1,2), of precomp] step
      by (intro exI [of _ "?byte # bytes"]) simp
  qed
qed

lemma clamped_range: "2 \<le> clamped limit g" "2 \<le> limit \<Longrightarrow> clamped limit g \<le> limit"
  by (simp_all add: clamped_def)

lemma counts_members:
  fixes counts :: "u8 list"
  assumes "map unat counts = map (clamped limit) gs"
  shows "limit = 4 \<Longrightarrow> set counts \<subseteq> {2, 3, 4}" and "limit = 5 \<Longrightarrow> set counts \<subseteq> {2, 3, 4, 5}"
proof -
  have range: "2 \<le> unat c" "2 \<le> limit \<Longrightarrow> unat c \<le> limit" if "c \<in> set counts" for c
  proof -
    have "unat c \<in> set (map (clamped limit) gs)" unfolding assms [symmetric] using that by simp
    then show "2 \<le> unat c" "2 \<le> limit \<Longrightarrow> unat c \<le> limit" using clamped_range by auto
  qed
  show "set counts \<subseteq> {2, 3, 4}" if "limit = 4"
  proof
    fix c assume "c \<in> set counts"
    with range [OF this] that have "unat c = 2 \<or> unat c = 3 \<or> unat c = 4" by auto
    then show "c \<in> {2, 3, 4}" by (auto simp: word_unat_eq_iff)
  qed
  show "set counts \<subseteq> {2, 3, 4, 5}" if "limit = 5"
  proof
    fix c assume "c \<in> set counts"
    with range [OF this] that have "unat c = 2 \<or> unat c = 3 \<or> unat c = 4 \<or> unat c = 5" by auto
    then show "c \<in> {2, 3, 4, 5}" by (auto simp: word_unat_eq_iff)
  qed
qed

section \<open>Index marks\<close>

text \<open>What a byte stands for: cells in order, each with whether an index mark precedes it.\<close>

definition db_symbols :: "bool \<Rightarrow> u8 \<Rightarrow> (bool \<times> bool list) list" where
  "db_symbols high byte =
     (if high
      then map (\<lambda>shift. let code = drop_bit shift byte AND 3 in
             (code = 3, append_sequence [] (if code = 3 then 1 else code + 1))) [6, 4, 2, 0]
      else [(byte AND 0x80 \<noteq> 0,
             append_sequence (append_sequence [] (drop_bit 5 byte AND 3)) (drop_bit 3 byte AND 3))])"

text \<open>The reference: collecting symbols from one mark to the next.\<close>

fun collect :: "(bool \<times> bool list) list \<Rightarrow> bool list \<times> bool \<times> bool \<Rightarrow> bool list \<times> bool \<times> bool" where
  "collect [] (bits, first, complete) = (bits, first, complete)"
| "collect ((mark, cells) # symbols) (bits, first, complete) =
     (if mark \<and> first then (bits, first, True)
      else collect symbols (if mark then cells else bits @ cells, first \<or> mark, complete))"

lemma append_sequence_append: "append_sequence bits code = bits @ append_sequence [] code"
  by (simp add: append_sequence_def)

lemma db_feed_hd_collect:
  "mode \<noteq> Normal \<Longrightarrow> db_feed_hd mode shifts byte (bits, first, complete) =
     collect (map (\<lambda>shift. let code = drop_bit shift byte AND 3 in
             (code = 3, append_sequence [] (if code = 3 then 1 else code + 1))) shifts) (bits, first, complete)"
proof (induction shifts arbitrary: bits first complete)
  case (Cons shift shifts)
  show ?case
    using Cons.prems append_sequence_append [of bits "(drop_bit shift byte AND 3) + 1"]
    by (simp add: Let_def Cons.IH)
qed simp

lemma db_feed_collect:
  assumes "mode \<noteq> Normal"
  shows "db_feed mode high byte (bits, first, complete) = collect (db_symbols high byte) (bits, first, complete)"
proof (cases high)
  case True
  then show ?thesis
    using assms by (simp add: db_feed_def db_symbols_def db_feed_hd_collect split_def
        del: db_feed_hd.simps list.map)
next
  case False
  have "append_sequence (append_sequence bits a) b = bits @ append_sequence (append_sequence [] a) b" for a b
    using append_sequence_append [of bits a] append_sequence_append [of "append_sequence bits a" b]
      append_sequence_append [of "append_sequence [] a" b] by simp
  then show ?thesis
    using assms False by (simp add: db_feed_def db_symbols_def Let_def)
qed


text \<open>A fold over the bytes, stopping when the capture is complete.\<close>

fun db_feed_all :: "read_mode \<Rightarrow> bool \<Rightarrow> u8 list \<Rightarrow> db_capture \<Rightarrow> db_capture" where
  "db_feed_all mode high [] capture = capture"
| "db_feed_all mode high (byte # bytes) capture =
     (if snd (snd capture) then capture else db_feed_all mode high bytes (db_feed mode high byte capture))"

lemma collect_append:
  "collect (xs @ ys) (bits, first, False) =
     (let s = collect xs (bits, first, False) in if snd (snd s) then s else collect ys s)"
  by (induction xs arbitrary: bits first) (auto simp: Let_def)

lemma db_feed_all_collect:
  assumes "mode \<noteq> Normal"
  shows "db_feed_all mode high bytes (bits, first, False) =
    collect (concat (map (db_symbols high) bytes)) (bits, first, False)"
proof (induction bytes arbitrary: bits first)
  case (Cons byte bytes)
  obtain b f c where s: "collect (db_symbols high byte) (bits, first, False) = (b, f, c)" by (metis prod_cases3)
  have stop: "db_feed_all mode high bytes (b, f, True) = (b, f, True)" by (cases bytes) simp_all
  show ?case
    using Cons.IH [of b f] by (cases c) (simp_all add: db_feed_collect [OF assms] collect_append s stop Let_def)
qed simp

lemma collect_shape:
  assumes "collect symbols (bits, first, False) = (bits', first', True)"
  shows "first' \<and> (if first
    then \<exists>mid c rest. symbols = mid @ (True, c) # rest \<and> (\<forall>(m, _) \<in> set mid. \<not> m) \<and>
      bits' = bits @ concat (map snd mid)
    else \<exists>pre c mid c' rest. symbols = pre @ (True, c) # mid @ (True, c') # rest \<and>
      (\<forall>(m, _) \<in> set (pre @ mid). \<not> m) \<and> bits' = c @ concat (map snd mid))"
  using assms
proof (induction symbols arbitrary: bits first)
  case (Cons s symbols)
  obtain mark cells where s: "s = (mark, cells)" by fastforce
  consider "mark" "first" | "mark" "\<not> first" | "\<not> mark" by blast
  then show ?case
  proof cases
    case 1
    then show ?thesis using Cons.prems s by (auto intro: exI [of _ "[]"])
  next
    case 2
    then have "collect symbols (cells, True, False) = (bits', first', True)" using Cons.prems s by simp
    from Cons.IH [OF this] obtain mid c rest where "symbols = mid @ (True, c) # rest"
      "\<forall>(m, _) \<in> set mid. \<not> m" "bits' = cells @ concat (map snd mid)" "first'" by auto
    then have "s # symbols = [] @ (True, cells) # mid @ (True, c) # rest"
      "\<forall>(m, _) \<in> set ([] @ mid). \<not> m" "bits' = cells @ concat (map snd mid)" "first'"
      using 2 s by simp_all
    then show ?thesis using 2(2) by metis
  next
    case 3
    then have "collect symbols (bits @ cells, first, False) = (bits', first', True)" using Cons.prems s by simp
    note IH = Cons.IH [OF this]
    show ?thesis
    proof (cases first)
      case True
      then obtain mid c rest where "symbols = mid @ (True, c) # rest"
        "\<forall>(m, _) \<in> set mid. \<not> m" "bits' = (bits @ cells) @ concat (map snd mid)" "first'" using IH by auto
      then show ?thesis using 3 s True by (auto intro!: exI [of _ "(False, cells) # mid"])
    next
      case False
      then obtain pre c mid c' rest where "symbols = pre @ (True, c) # mid @ (True, c') # rest"
        "\<forall>(m, _) \<in> set (pre @ mid). \<not> m" "bits' = c @ concat (map snd mid)" "first'" using IH by auto
      then have "s # symbols = ((False, cells) # pre) @ (True, c) # mid @ (True, c') # rest"
        "\<forall>(m, _) \<in> set (((False, cells) # pre) @ mid). \<not> m" "bits' = c @ concat (map snd mid)" "first'"
        using 3 s by simp_all
      then show ?thesis using False by metis
    qed
  qed
qed simp

section \<open>Properties\<close>

text \<open>
  C38: What a high-density track write sends: the bytes before the terminator are never zero, and
  the fields the firmware plays from them are the distances between the transitions of the track
  and of its run-out, each moved into the range the format can hold.
\<close>

theorem encode_hd_fields:
  assumes "encode_hd words n = Inr encoded"
  shows "\<exists>data. encoded = data @ [0] \<and> 0 \<notin> set data \<and>
    map (\<lambda>field. unat field + 1) (concat (map hd_fields data)) =
      map (clamped 4) (gaps 0 (unpack words n @ run_out))"
proof -
  obtain counts where counts: "transition_counts words n 4 = Inr counts"
    and enc: "encoded = map (\<lambda>chunk. hd_byte (List.enumerate 0 chunk) 0) (chunks 4 counts) @ [0]"
    using assms by (auto simp: encode_hd_def split: sum.splits)
  have gs: "map unat counts = map (clamped 4) (gaps 0 (unpack words n @ run_out))"
    using transition_counts_gaps [OF counts] by simp
  let ?data = "map (\<lambda>chunk. hd_byte (List.enumerate 0 chunk) 0) (chunks 4 counts)"
  note members = counts_members(1) [OF gs refl]
  note fields = hd_bytes_fields [OF members]
  have "hd_fields 0 = []" by code_simp
  then have "0 \<notin> set ?data" using fields by auto
  moreover have "unat (c - 1) + 1 = unat c" if "c \<in> set counts" for c
    using that members by auto
  then have "map (\<lambda>field. unat field + 1) (concat (map hd_fields ?data)) = map unat counts"
    using fields by (simp add: comp_def cong: map_cong)
  ultimately show ?thesis using enc gs by auto
qed

theorem encode_hd_fields_witness:
  "\<exists>data. encode_hd [0x9200] 8 = Inr (data @ [0]) \<and> 0 \<notin> set data \<and>
     map (\<lambda>field. unat field + 1) (concat (map hd_fields data)) = [2, 3, 3, 2, 2, 2, 2]"
proof -
  have enc: "encode_hd [0x9200] 8 = Inr [90, 21, 0]" by code_simp
  have gs: "map (clamped 4) (gaps 0 (unpack [0x9200] 8 @ run_out)) = [2, 3, 3, 2, 2, 2, 2]" by code_simp
  show ?thesis using encode_hd_fields [OF enc] unfolding gs by (metis enc)
qed

text \<open>
  C37: What a double-density track write sends: the fields the firmware plays are a leading
  two-cell interval followed by the distances between the transitions of the track and of its
  run-out but for the last, each moved into the range the format can hold, whether or not write
  precompensation is on.
\<close>

theorem encode_dd_fields:
  assumes "encode_dd words n precomp = Inr encoded"
  defines "distances \<equiv> map (clamped 5) (gaps 0 (unpack words n @ run_out))"
  shows "map (\<lambda>field. unat field + 2) (take (length distances) (concat (map dd_fields encoded))) =
      2 # butlast distances \<and> last distances = 2"
proof -
  obtain counts where counts: "transition_counts words n 5 = Inr counts"
    and enc: "encoded = dd_bytes precomp (chunks 2 counts) 2 []"
    using assms(1) by (auto simp: encode_dd_def split: sum.splits)
  have gs: "map unat counts = distances"
    using transition_counts_gaps [OF counts] by (simp add: distances_def)
  have members: "set counts \<subseteq> {2, 3, 4, 5}"
    using counts_members(2) [of counts 5 "gaps 0 (unpack words n @ run_out)"] gs by (simp add: distances_def)
  have last_gap: "\<exists>gs. gaps k (bs @ run_out) = gs @ [2, 2, 2]" for k bs
  proof (induction bs arbitrary: k)
    case (Cons b bs)
    obtain gs where "gaps 0 (bs @ run_out) = gs @ [2, 2, 2]" using Cons by blast
    then have "gaps k ((True # bs) @ run_out) = (Suc k # gs) @ [2, 2, 2]" by simp
    moreover obtain gs' where "gaps (Suc k) (bs @ run_out) = gs' @ [2, 2, 2]" using Cons by blast
    then have "gaps k ((False # bs) @ run_out) = gs' @ [2, 2, 2]" by simp
    ultimately show ?case by (cases b) metis+
  qed (simp add: run_out_def numeral_eq_Suc)
  then obtain gs2 where "gaps 0 (unpack words n @ run_out) = gs2 @ [2, 2, 2]" by blast
  then have init: "distances = map (clamped 5) gs2 @ [2, 2, 2]" by (simp add: distances_def clamped_def)
  have "counts \<noteq> []" using gs init by auto
  have len: "length counts = length distances" using gs by (metis length_map)
  have "take (length counts) (concat (map dd_fields encoded)) = map (\<lambda>c. c - 2) (butlast (2 # counts))"
    using dd_bytes_fields [OF members, of 2 precomp "[]"] by (auto simp: enc)
  moreover have "unat (c - 2) + 2 = unat c" if "c \<in> set (butlast (2 # counts))" for c
    using in_set_butlastD [OF that] members by auto
  then have "map (\<lambda>field. unat field + 2) (map (\<lambda>c. c - 2) (butlast (2 # counts))) =
      map unat (butlast (2 # counts))"
    by (simp add: comp_def cong: map_cong)
  also have "\<dots> = 2 # butlast distances"
    using \<open>counts \<noteq> []\<close> by (simp add: map_butlast gs [symmetric])
  ultimately show ?thesis using init by (simp add: len)
qed

theorem encode_dd_fields_witness:
  "encode_dd [0x9210] 12 True = Inr [0, 17, 11, 0] \<and>
   map (\<lambda>field. unat field + 2) (take 8 (concat (map dd_fields [0, 17, 11, 0]))) = [2, 2, 3, 3, 5, 2, 2, 2]"
proof
  show enc: "encode_dd [0x9210] 12 True = Inr [0, 17, 11, 0]" by code_simp
  have gs: "map (clamped 5) (gaps 0 (unpack [0x9210] 12 @ run_out)) = [2, 3, 3, 5, 2, 2, 2, 2]" by code_simp
  have len: "length [2, 3, 3, 5, 2, 2, 2, 2 :: nat] = 8" by simp
  show "map (\<lambda>field. unat field + 2) (take 8 (concat (map dd_fields [0, 17, 11, 0]))) = [2, 2, 3, 3, 5, 2, 2, 2]"
    using encode_dd_fields [OF enc] unfolding gs len butlast.simps by simp
qed

end
