(* ===== verification/DrawBridge_Device.thy ===== *)
theory DrawBridge_Device
  imports DrawBridge_Codec Flux_Join "HOL-Library.Product_Lexorder"
begin

text \<open>
  The DrawBridge backend (\<^verbatim>\<open>src/device/drawbridge.rs\<close>) over a transport \<open>T\<close>.
\<close>

section \<open>The device\<close>

definition DB_BAUD :: u32 where "DB_BAUD = 2000000"
definition DB_COMMAND_TIMEOUT :: nat where "DB_COMMAND_TIMEOUT = secs 2"
definition DB_STREAM_TIMEOUT :: nat where "DB_STREAM_TIMEOUT = secs 3"
definition DB_MAX_STREAM_BYTES :: nat where "DB_MAX_STREAM_BYTES = 1024 * 1024"
definition FLAG_DENSITY_DETECT :: u8 where "FLAG_DENSITY_DETECT = 8"

record 'w drawbridge =
  db_world :: 'w
  db_port :: port_id
  db_status :: drive_status
  db_firmware :: "u8 \<times> u8 \<times> u8"
  db_flags :: u8
  db_full_control :: bool
  db_high_density :: bool

definition db_link :: "('w, 'a) io \<Rightarrow> ('w drawbridge, 'a) io" where
  "db_link m = io_zoom db_world (\<lambda>w d. d\<lparr>db_world := w\<rparr>) m"

definition db_set_status :: "(drive_status \<Rightarrow> drive_status) \<Rightarrow> ('w drawbridge, unit) io" where
  "db_set_status f = io_modify (\<lambda>d. d\<lparr>db_status := f (db_status d)\<rparr>)"

section \<open>Commands\<close>

definition db_send :: "'w transport \<Rightarrow> u8 list \<Rightarrow> string \<Rightarrow> ('w drawbridge, unit) io" where
  "db_send T bytes operation =
     db_link (within T DB_COMMAND_TIMEOUT (\<lambda>deadline. write_all_until T bytes deadline operation))"

definition db_read_byte :: "'w transport \<Rightarrow> string \<Rightarrow> ('w drawbridge, u8) io" where
  "db_read_byte T operation =
     db_link (within T DB_COMMAND_TIMEOUT (\<lambda>deadline. read_byte_until T deadline operation))"

text \<open>The commands are graphic characters, which the debug format prints between quotes.\<close>

definition db_expect_command :: "'w transport \<Rightarrow> char \<Rightarrow> ('w drawbridge, unit) io" where
  "db_expect_command T command =
     io_then (db_send T [ascii command] ''DrawBridge command'')
      (io_bind (db_read_byte T ''DrawBridge command response'') (\<lambda>response.
        if response = ascii (CHR ''1'') then io_return ()
        else if response = ascii (CHR ''0'')
        then io_throw (Protocol (''DrawBridge rejected command '' @
               [CHR 0x27, command, CHR 0x27]))
        else io_throw (Protocol (''DrawBridge returned unexpected response '' @
               hex_byte response))))"

definition db_check_disk :: "'w transport \<Rightarrow> ('w drawbridge, unit) io" where
  "db_check_disk T =
     io_bind (io_gets db_firmware) (\<lambda>(major, minor, patch).
       if (major, minor) < (1, 8) then io_return ()
       else io_then (db_send T (ascii_bytes ''^'') ''DrawBridge disk status'')
        (io_bind (db_read_byte T ''DrawBridge disk status'') (\<lambda>disk.
          io_bind (db_read_byte T ''DrawBridge write-protect status'') (\<lambda>write_protect.
            io_then
              (if disk = ascii (CHR ''1'') then db_set_status (ds_disk_present_update (\<lambda>_. True))
               else if disk = ascii (CHR ''#'') then db_set_status (ds_disk_present_update (\<lambda>_. False))
               else io_throw (Protocol (''DrawBridge returned invalid disk status '' @ hex_byte disk)))
              (if write_protect = ascii (CHR ''1'')
               then db_set_status (ds_write_protected_update (\<lambda>_. True))
               else if write_protect = ascii (CHR ''#'') \<or> write_protect = ascii (CHR ''0'')
               then db_set_status (ds_write_protected_update (\<lambda>_. False))
               else io_return ())))))"

definition db_drive_type :: "bool \<Rightarrow> drive_type" where
  "db_drive_type high = (if high then Hd35 else Dd35)"

definition db_choose_density :: "'w transport \<Rightarrow> density_mode \<Rightarrow> ('w drawbridge, unit) io" where
  "db_choose_density T density =
     io_bind (io_gets db_flags) (\<lambda>flags.
       io_bind
         (case density of
            DensityDouble \<Rightarrow> io_return False
          | DensityHigh \<Rightarrow> io_return True
          | DensityAuto \<Rightarrow>
              if flags AND FLAG_DENSITY_DETECT \<noteq> 0
              then io_then (db_expect_command T (CHR ''T''))
                (io_bind (db_read_byte T ''DrawBridge density response'') (\<lambda>response.
                  if response = ascii (CHR ''H'') then io_return True
                  else if response = ascii (CHR ''D'') then io_return False
                  else if response = ascii (CHR ''x'')
                  then io_then (db_set_status (ds_disk_present_update (\<lambda>_. False))) (io_return False)
                  else io_throw (Protocol (''DrawBridge returned invalid density '' @
                         hex_byte response))))
              else io_return False) (\<lambda>high.
         io_bind (io_gets db_high_density) (\<lambda>current.
           io_when (high \<noteq> current)
             (io_then (db_expect_command T (if high then CHR ''H'' else CHR ''D''))
               (io_then (io_modify (\<lambda>d. d\<lparr>db_high_density := high\<rparr>))
                 (db_set_status (ds_drive_type_update (\<lambda>_. db_drive_type high))))))))"

section \<open>Reading\<close>

text \<open>
  The loop of \<^verbatim>\<open>read_stream\<close>: one byte at a time, at most \<open>DB_MAX_STREAM_BYTES\<close>
  of them.
\<close>

function db_stream_loop ::
  "'w transport \<Rightarrow> nat \<Rightarrow> read_mode \<Rightarrow> bool \<Rightarrow> nat \<Rightarrow> db_capture \<Rightarrow> ('w, bool list \<times> bool) io" where
  "db_stream_loop T deadline mode high bytes_seen (bits, first_index, complete) =
     (if complete then io_return (bits, first_index)
      else if bytes_seen \<ge> DB_MAX_STREAM_BYTES
      then io_throw (TrackTooLarge (bytes_seen * 8) (DB_MAX_STREAM_BYTES * 8))
      else io_bind (read_byte_until T deadline ''DrawBridge track stream'') (\<lambda>byte.
        db_stream_loop T deadline mode high (Suc bytes_seen)
          (db_feed mode high byte (bits, first_index, complete))))"
  by pat_completeness auto
termination
  by (relation "measure (\<lambda>(_, _, _, _, bytes_seen, _). DB_MAX_STREAM_BYTES - bytes_seen)") auto

declare db_stream_loop.simps [simp del]

definition db_stop_verdict :: "u8 list \<Rightarrow> error + unit option" where
  "db_stop_verdict window =
     Inr (if window = ascii_bytes ''XYZx1'' then Some () else None)"

definition db_read_stream :: "'w transport \<Rightarrow> read_mode \<Rightarrow> ('w drawbridge, raw_capture) io" where
  "db_read_stream T mode =
     io_then (db_expect_command T (CHR ''{''))
      (io_bind (db_link (within T DB_STREAM_TIMEOUT io_return)) (\<lambda>deadline.
        io_bind (io_gets db_high_density) (\<lambda>high.
          io_bind (db_link (db_stream_loop T deadline mode high 0 ([], False, False)))
            (\<lambda>(bits, first_index).
              io_then (db_send T (ascii_bytes ''x'') ''DrawBridge stop stream'')
               (io_then (db_link (await_window T deadline ''DrawBridge stop acknowledgement''
                   db_stop_verdict (replicate 5 0)))
                 (io_then (db_link (tr_purge T))
                   (if length bits < 64
                    then io_throw (Protocol
                           ''DrawBridge stream did not contain a complete revolution'')
                    else io_bind
                      (if mode = Normal then io_result (bits_to_unaligned_revolution bits high)
                       else io_return bits) (\<lambda>bits.
                        let capture = \<lparr>rc_words = pack_bits bits, rc_bit_len = length bits,
                                       rc_index_aligned = (mode \<noteq> Normal \<and> first_index)\<rparr>
                        in io_then (io_result (validate_capture capture))
                          (io_then (db_set_status (\<lambda>s. s\<lparr>ds_disk_present := True, ds_ready := True\<rparr>))
                            (io_return capture))))))))))"

section \<open>Writing\<close>

definition db_write_stream ::
  "'w transport \<Rightarrow> u16 list \<Rightarrow> nat \<Rightarrow> bool \<Rightarrow> ('w drawbridge, unit) io" where
  "db_write_stream T words bit_len from_index =
     io_bind (io_gets id) (\<lambda>d.
       io_bind (io_result
           (if db_high_density d then encode_hd words bit_len
            else encode_dd words bit_len (ds_cylinder (db_status d) \<ge> 40))) (\<lambda>encoded.
         io_then (db_expect_command T (if db_high_density d then CHR ''>'' else CHR ''}''))
          (io_bind (db_read_byte T ''DrawBridge write permission'') (\<lambda>response.
            io_then
              (if response = ascii (CHR ''N'')
               then io_then (db_set_status (ds_write_protected_update (\<lambda>_. True)))
                      (io_throw WriteProtected)
               else if response = ascii (CHR ''Y'') then io_return ()
               else io_throw (Protocol (''DrawBridge returned invalid write permission '' @
                      hex_byte response)))
              (io_then
                (io_when (\<not> db_high_density d)
                  (case try_u16 (length encoded) of
                     None \<Rightarrow> io_throw (TrackTooLarge bit_len MAX_TRACK_BITS)
                   | Some len \<Rightarrow> db_send T (be16 len) ''DrawBridge write length''))
                (io_then (db_send T [of_bool from_index] ''DrawBridge write alignment'')
                  (io_bind (db_read_byte T ''DrawBridge write ready'') (\<lambda>ready.
                    if ready \<noteq> ascii (CHR ''!'')
                    then io_throw (Protocol ''DrawBridge did not become ready for write data'')
                    else io_then
                      (db_link (within T DB_STREAM_TIMEOUT (\<lambda>deadline.
                         write_all_until T encoded deadline ''DrawBridge track write'')))
                      (io_bind
                        (db_link (within T DB_STREAM_TIMEOUT (\<lambda>deadline.
                           read_byte_until T deadline ''DrawBridge write completion''))) (\<lambda>result.
                        if result = ascii (CHR ''1'') then io_return ()
                        else if result = ascii (CHR ''X'')
                        then io_throw (Timeout ''DrawBridge track write'')
                        else if result = ascii (CHR ''Y'')
                        then io_throw (Protocol ''DrawBridge write framing error'')
                        else if result = ascii (CHR ''Z'')
                        then io_throw (Protocol ''DrawBridge serial write overrun'')
                        else io_throw (Protocol (''DrawBridge returned invalid write result '' @
                               hex_byte result))))))))))))"


section \<open>The device interface\<close>

definition db_get_status :: "'w transport \<Rightarrow> ('w drawbridge, drive_status) io" where
  "db_get_status T =
     io_then (db_check_disk T)
      (io_then (db_set_status (\<lambda>s. s\<lparr>ds_working := True,
          ds_ready := (ds_motor_running s \<and> ds_disk_present s)\<rparr>))
        (io_gets db_status))"

definition db_set_motor :: "'w transport \<Rightarrow> bool \<Rightarrow> bool \<Rightarrow> ('w drawbridge, unit) io" where
  "db_set_motor T enabled quick =
     io_then (db_expect_command T
         (if enabled then if quick then CHR ''*'' else CHR ''+'' else CHR ''-''))
      (db_set_status (\<lambda>s. s\<lparr>ds_motor_running := enabled, ds_ready := (enabled \<and> ds_disk_present s)\<rparr>))"

text \<open>Two digits at least, as \<^verbatim>\<open>{:02}\<close> prints them.\<close>

definition dec2 :: "nat \<Rightarrow> string" where
  "dec2 n = (if n < 10 then ''0'' else []) @ dec_string n"

text \<open>The media bits that follow a step.\<close>

definition db_step_status :: "'w transport \<Rightarrow> string \<Rightarrow> string \<Rightarrow> ('w drawbridge, unit) io" where
  "db_step_status T disk_operation protect_operation =
     io_bind (db_read_byte T disk_operation) (\<lambda>disk.
       io_bind (db_read_byte T protect_operation) (\<lambda>protected.
         io_then (io_when (disk \<noteq> ascii (CHR ''x''))
             (db_set_status (ds_disk_present_update (\<lambda>_. disk = ascii (CHR ''1'')))))
           (db_set_status (ds_write_protected_update (\<lambda>_. protected = ascii (CHR ''1''))))))"

definition db_seek :: "'w transport \<Rightarrow> u8 \<Rightarrow> ('w drawbridge, unit) io" where
  "db_seek T cylinder =
     io_bind (io_gets (\<lambda>d. ds_max_cylinders (db_status d))) (\<lambda>max_cylinders.
       if cylinder \<ge> max_cylinders
       then io_throw (InvalidConfig (''DrawBridge cylinder '' @ dec_string (unat cylinder) @
              '' is out of range''))
       else io_then
         (db_send T (ascii_bytes (''='' @ dec2 (unat cylinder) @ [CHR 0x07])) ''DrawBridge seek'')
         (io_bind (db_read_byte T ''DrawBridge seek response'') (\<lambda>response.
           io_then
             (if response = ascii (CHR ''2'') then io_return ()
              else if response = ascii (CHR ''1'')
              then db_step_status T ''DrawBridge seek disk status''
                     ''DrawBridge seek write-protect status''
              else if response = ascii (CHR ''0'')
              then io_throw (Protocol ''DrawBridge seek failed'')
              else io_throw (Protocol (''DrawBridge returned invalid seek status '' @
                     hex_byte response)))
             (db_set_status (ds_cylinder_update (\<lambda>_. cylinder))))))"

definition db_select_side :: "'w transport \<Rightarrow> side \<Rightarrow> ('w drawbridge, unit) io" where
  "db_select_side T side =
     io_then (db_expect_command T (if side = Lower then CHR ''['' else CHR '']''))
       (db_set_status (ds_side_update (\<lambda>_. side)))"

definition db_no_click_step :: "'w transport \<Rightarrow> ('w drawbridge, unit) io" where
  "db_no_click_step T =
     io_bind (io_gets db_full_control) (\<lambda>full_control.
       if \<not> full_control then io_return ()
       else io_then (db_expect_command T (CHR ''O''))
         (db_step_status T ''DrawBridge no-click disk status''
            ''DrawBridge no-click write-protect status''))"

definition db_read_track ::
  "'w transport \<Rightarrow> read_mode \<Rightarrow> density_mode \<Rightarrow>
     ('w drawbridge \<times> progress_log, raw_capture) io" where
  "db_read_track T mode density =
     on_device (io_then (db_choose_density T density) (db_read_stream T mode))"

definition db_write_track ::
  "'w transport \<Rightarrow> u16 list \<Rightarrow> nat \<Rightarrow> bool \<Rightarrow> density_mode \<Rightarrow> ('w drawbridge, unit) io" where
  "db_write_track T words bit_len from_index density =
     io_then (db_choose_density T density) (db_write_stream T words bit_len from_index)"

definition db_device :: "'w transport \<Rightarrow> 'w drawbridge device" where
  "db_device T =
     \<lparr>dv_selected_port = db_port, dv_status = db_get_status T, dv_set_motor = db_set_motor T,
      dv_seek = db_seek T, dv_select_side = db_select_side T,
      dv_no_click_step = db_no_click_step T, dv_read_track = db_read_track T,
      dv_write_track = db_write_track T\<rparr>"

definition db_drop :: "'w transport \<Rightarrow> ('w drawbridge, unit) io" where
  "db_drop T = io_ignore (db_expect_command T (CHR ''-''))"

section \<open>Opening\<close>

definition db_version_verdict :: "u8 list \<Rightarrow> error + ((u8 \<times> u8 \<times> u8) \<times> bool) option" where
  "db_version_verdict window =
     Inr (if window ! 0 = ascii (CHR ''1'') \<and> window ! 1 = ascii (CHR ''V'') \<and>
             is_ascii_digit (window ! 2) \<and>
             (window ! 3 = ascii (CHR ''.'') \<or> window ! 3 = ascii (CHR '','')) \<and>
             is_ascii_digit (window ! 4)
          then Some ((window ! 2 - ascii (CHR ''0''), window ! 4 - ascii (CHR ''0''), 0),
                     window ! 3 = ascii (CHR '',''))
          else None)"

definition db_sync_version :: "'w transport \<Rightarrow> ('w, (u8 \<times> u8 \<times> u8) \<times> bool) io" where
  "db_sync_version T =
     io_then (within T (secs 1) (\<lambda>deadline.
         write_all_until T (ascii_bytes ''xR?'') deadline ''DrawBridge version request''))
      (within T (secs 1) (\<lambda>deadline.
        io_bind (await_window T deadline ''DrawBridge version response'' db_version_verdict
            (replicate 5 0)) (\<lambda>version.
          io_then (tr_purge T) (io_return version))))"

definition db_sleep :: "'w port_lib \<Rightarrow> nat \<Rightarrow> ('w, unit) io" where
  "db_sleep L time = io_modify (pl_sleep L time)"

definition db_initial ::
  "port_id \<Rightarrow> bridge_config \<Rightarrow> u8 \<times> u8 \<times> u8 \<Rightarrow> bool \<Rightarrow> 'w \<Rightarrow> 'w drawbridge" where
  "db_initial port config firmware full_control w =
     \<lparr>db_world = w, db_port = port, db_status = drive_status_default\<lparr>ds_max_cylinders := 84\<rparr>,
      db_firmware = firmware, db_flags = 0, db_full_control = full_control,
      db_high_density = (cfg_density config = DensityHigh)\<rparr>"

definition db_setup :: "'w transport \<Rightarrow> u8 \<times> u8 \<times> u8 \<Rightarrow> ('w drawbridge, unit) io" where
  "db_setup T firmware =
     (let (major, minor, patch) = firmware in
      io_then (db_link (tr_set_timeout T DB_COMMAND_TIMEOUT))
       (io_then (db_link (tr_purge T))
        (io_then
          (io_when ((major, minor) \<ge> (1, 9))
            (io_then (db_expect_command T (CHR ''@''))
              (io_bind (db_link (within T DB_COMMAND_TIMEOUT (\<lambda>deadline.
                  read_exact_until T 3 deadline ''DrawBridge feature flags''))) (\<lambda>features.
                io_modify (\<lambda>d. d\<lparr>db_flags := features ! 0,
                                 db_firmware := (major, minor, features ! 2)\<rparr>)))))
          (io_then (db_expect_command T (CHR ''.''))
            (io_bind (io_gets db_high_density) (\<lambda>high.
              io_then (db_set_status (\<lambda>s. s\<lparr>ds_cylinder := 0, ds_working := True,
                  ds_drive_type := db_drive_type high\<rparr>))
                (io_ignore (db_check_disk T))))))))"

definition db_open ::
  "features \<Rightarrow> 'w port_lib \<Rightarrow> port_id \<Rightarrow> bridge_config \<Rightarrow> ('w, 'w transport \<times> 'w drawbridge) io" where
  "db_open feats L port config =
     io_bind (transport_open feats L port DB_BAUD (millis 250)) (\<lambda>T.
       io_then (tr_set_cts_flow_control T True)
        (io_then (tr_purge T)
         (io_bind
           (io_or_else (db_sync_version T)
             (io_then (tr_set_dtr T False)
               (io_then (tr_set_rts T False)
                 (io_then (db_sleep L (millis 10))
                   (io_then (tr_set_dtr T True)
                     (io_then (tr_set_rts T True)
                       (io_then (db_sleep L (millis 150))
                         (io_then (tr_purge T) (db_sync_version T))))))))) (\<lambda>(firmware, full_control).
           let (major, minor, patch) = firmware in
           if (major, minor) < (1, 8)
           then io_throw (UnsupportedFirmware (''DrawBridge firmware '' @ dec_string (unat major) @ ''.'' @
                  dec_string (unat minor) @ ''; version 1.8 or later is required''))
           else io_bind (construct (db_initial port config firmware full_control) db_world
                    (db_setup T firmware) (db_drop T)) (\<lambda>d.
             io_return (T, d))))))"

section \<open>What the operations leave unchanged\<close>

definition db_pos :: "'w drawbridge \<Rightarrow> u8 \<times> side \<times> u8" where
  "db_pos d = (ds_cylinder (db_status d), ds_side (db_status d), ds_max_cylinders (db_status d))"

definition db_kind :: "'w drawbridge \<Rightarrow> drive_type \<times> bool" where
  "db_kind d = (ds_drive_type (db_status d), db_high_density d)"

definition db_frame :: "'w drawbridge \<Rightarrow> (u8 \<times> side \<times> u8) \<times> drive_type \<times> bool" where
  "db_frame d = (db_pos d, db_kind d)"

lemmas db_frame_defs = db_frame_def db_pos_def db_kind_def

lemma keeps_db_link [keeps_intros]: "keeps db_frame (db_link m)"
  by (auto simp: keeps_def db_link_def io_zoom_returns_iff db_frame_defs)

lemma keeps_db_set_status:
  "(\<And>s. ds_cylinder (f s) = ds_cylinder s \<and> ds_side (f s) = ds_side s \<and>
         ds_max_cylinders (f s) = ds_max_cylinders s \<and> ds_drive_type (f s) = ds_drive_type s) \<Longrightarrow>
     keeps db_frame (db_set_status f)"
  unfolding db_set_status_def by (rule keeps_modify) (simp add: db_frame_defs)

lemma keeps_db_commands [keeps_intros]:
  "keeps db_frame (db_send T bytes operation)" "keeps db_frame (db_read_byte T operation)"
  "keeps db_frame (db_expect_command T command)"
  unfolding db_expect_command_def db_send_def db_read_byte_def by (intro keeps_intros)+

lemma keeps_db_check_disk [keeps_intros]: "keeps db_frame (db_check_disk T)"
  unfolding db_check_disk_def split_def by (intro keeps_intros keeps_db_set_status) simp_all

lemma keeps_db_step_status [keeps_intros]: "keeps db_frame (db_step_status T a b)"
  unfolding db_step_status_def by (intro keeps_intros keeps_db_set_status) simp_all

lemma keeps_db_simple:
  "keeps db_frame (db_get_status T)" "keeps db_frame (db_set_motor T enabled quick)"
  "keeps db_frame (db_no_click_step T)" "keeps db_frame (db_read_stream T mode)"
  "keeps db_frame (db_write_stream T words bit_len from_index)"
  unfolding db_get_status_def db_set_motor_def db_no_click_step_def db_read_stream_def
    db_write_stream_def Let_def option.case_eq_if split_def
  by (intro keeps_intros keeps_db_set_status; simp)+

text \<open>Choosing the density moves nothing.\<close>

lemma keeps_pos: "keeps db_frame m \<Longrightarrow> keeps db_pos m"
  by (erule keeps_proj [where h = fst]) (simp add: db_frame_def)

lemma keeps_db_choose_density: "keeps db_pos (db_choose_density T density)"
  unfolding db_choose_density_def db_set_status_def
  by (cases density; simp only: density_mode.case;
      intro keeps_intros keeps_pos; simp add: db_pos_def)

section \<open>The contract\<close>

definition db_cylinder :: "'w drawbridge \<Rightarrow> u8" where
  "db_cylinder d = ds_cylinder (db_status d)"

definition db_side :: "'w drawbridge \<Rightarrow> side" where
  "db_side d = ds_side (db_status d)"

definition db_limit :: "'w drawbridge \<Rightarrow> u8" where
  "db_limit d = ds_max_cylinders (db_status d)"

lemmas db_position_defs = db_cylinder_def db_side_def db_limit_def

lemma db_pos_position:
  "db_cylinder d = fst (db_pos d)" "db_side d = fst (snd (db_pos d))" "db_limit d = snd (snd (db_pos d))"
  "(db_cylinder d, db_side d, db_limit d) = db_pos d"
  by (simp_all add: db_position_defs db_pos_def)

lemma db_keeps_pos:
  "keeps db_pos m \<Longrightarrow> keeps db_cylinder m" "keeps db_pos m \<Longrightarrow> keeps db_side m"
  "keeps db_pos m \<Longrightarrow> keeps db_limit m" "keeps db_pos m \<Longrightarrow> keeps (\<lambda>d. (db_cylinder d, db_side d, db_limit d)) m"
  by (rule keeps_proj, assumption, rule db_pos_position)+

lemma db_seek_bounded:
  assumes "db_seek T c d = Some (r, d')"
  shows "db_cylinder d' = db_cylinder d \<or> db_cylinder d' = c \<and> c < db_limit d"
    and "r = Inr () \<Longrightarrow> db_cylinder d' = c \<and> c < db_limit d"
proof -
  have frame: "m d1 = Some (q, d2) \<Longrightarrow> keeps db_frame m \<Longrightarrow> db_cylinder d2 = db_cylinder d1"
    for m :: "('a drawbridge, 'b) io" and q d1 d2
    using db_keeps_pos(1) [OF keeps_pos, of m] by (auto simp: keeps_def)
  note frames = frame [OF _ keeps_db_commands(1)] frame [OF _ keeps_db_commands(2)]
    frame [OF _ keeps_db_step_status]
  show "db_cylinder d' = db_cylinder d \<or> db_cylinder d' = c \<and> c < db_limit d"
    using assms unfolding db_seek_def io_bind_returns_iff
    by (auto simp: io_run db_limit_def not_le db_set_status_def io_bind_returns_iff split: if_splits
        dest!: frames simp: db_cylinder_def)
  show "r = Inr () \<Longrightarrow> db_cylinder d' = c \<and> c < db_limit d"
    using assms
    by (auto simp: db_seek_def io_bind_ok_iff io_run db_set_status_def db_position_defs not_le split: if_splits)
qed

lemma db_select_side_reaches: "db_select_side T s d = Some (Inr (), d') \<Longrightarrow> db_side d' = s"
  by (auto simp: db_select_side_def io_bind_ok_iff db_set_status_def io_run db_side_def)

lemma keeps_db_moves:
  "keeps db_side (db_seek T c)" "keeps db_limit (db_seek T c)"
  "keeps db_cylinder (db_select_side T s)" "keeps db_limit (db_select_side T s)"
  unfolding db_seek_def db_select_side_def db_set_status_def
  by (intro keeps_intros db_keeps_pos keeps_pos; simp add: db_position_defs)+

lemma keeps_db_tracks:
  "keeps db_pos (db_write_track T words bit_len from_index density)"
  "keeps db_pos (io_then (db_choose_density T density) (db_read_stream T mode))"
  unfolding db_write_track_def by (intro keeps_bind keeps_db_choose_density keeps_pos keeps_db_simple)+

lemma db_capture_valid:
  assumes "db_read_stream T mode d = Some (Inr capture, d')"
  shows "capture_ok mode capture"
  using assms
  by (auto simp: db_read_stream_def io_bind_ok_iff io_run capture_ok_def Let_def split_def split: if_splits)

interpretation drawbridge: device_contract "db_device T" db_cylinder db_side db_limit for T
proof (unfold_locales, goal_cases)
  case (1 c d d')
  then show ?case using db_seek_bounded(2) [of T c d] by (simp add: db_device_def)
next
  case (2 c d r d')
  then show ?case by (simp add: db_device_def db_seek_bounded(1))
next
  case (11 mode density)
  have "keeps (\<lambda>d. (db_cylinder d, db_side d, db_limit d)) (io_then (db_choose_density T density) (db_read_stream T mode))"
    by (rule db_keeps_pos(4) [OF keeps_db_tracks(2)])
  from keeps_on_device [OF this] show ?case by (simp add: db_device_def db_read_track_def)
next
  case (13 mode density dl capture dl')
  then show ?case
    by (auto simp: db_device_def db_read_track_def on_device_def io_zoom_returns_iff io_bind_ok_iff
        intro: db_capture_valid)
qed (simp_all add: db_device_def keeps_db_moves db_select_side_reaches db_keeps_pos(4) keeps_pos
    keeps_db_simple keeps_db_tracks)

end
