(* ===== verification/DrawBridge_Wire.thy ===== *)
theory DrawBridge_Wire
  imports DrawBridge_Device
begin

text \<open>
  The DrawBridge backend on the wire: every operation returns, an indexed read captures exactly
  the cells between two index marks, and the state the backend keeps stays consistent.
\<close>

section \<open>Every operation returns\<close>

lemma halts_db_link [io_halts_intros]: "io_halts m \<Longrightarrow> io_halts (db_link m)"
  unfolding db_link_def by (rule io_halts_zoom)

lemma halts_db_set_status [io_halts_intros]: "io_halts (db_set_status f)"
  unfolding db_set_status_def by (rule io_halts_basic)

lemma db_halts_commands:
  assumes "transport_laws T clock rx tx"
  shows "io_halts (db_send T bytes operation)" "io_halts (db_read_byte T operation)"
    "io_halts (db_expect_command T command)" "io_halts (db_check_disk T)" "io_halts (db_step_status T a b)"
proof -
  note steps = transport_halts [OF assms] halts_windows [OF assms]
  show send: "io_halts (db_send T bytes operation)" for bytes operation
    unfolding db_send_def by (intro io_halts_intros steps)
  show byte: "io_halts (db_read_byte T operation)" for operation
    unfolding db_read_byte_def by (intro io_halts_intros steps)
  show "io_halts (db_expect_command T command)"
    unfolding db_expect_command_def by (intro io_halts_intros send byte)
  show "io_halts (db_check_disk T)"
    unfolding db_check_disk_def by (intro io_halts_intros send byte)
  show "io_halts (db_step_status T a b)"
    unfolding db_step_status_def by (intro io_halts_intros send byte)
qed

text \<open>The stream loop consumes bytes until the capture is complete.\<close>

lemma db_stream_loop_spec:
  assumes laws: "transport_laws T clock rx tx"
  shows "io_wp (db_stream_loop T deadline mode high bytes_seen capture)
    (\<lambda>r w'. \<exists>bytes. talks clock rx tx w w' [] bytes \<and> (\<forall>bits first_index.
       r = Inr (bits, first_index) \<longrightarrow> db_feed_all mode high bytes capture = (bits, first_index, True))) w"
  using laws
proof (induction T deadline mode high bytes_seen capture arbitrary: w rule: db_stream_loop.induct)
  case (1 T deadline mode high bytes_seen bits first_index complete)
  let ?P = "\<lambda>capture w r w'. \<exists>bytes. talks clock rx tx w w' [] bytes \<and> (\<forall>bits first_index.
       r = Inr (bits, first_index) \<longrightarrow> db_feed_all mode high bytes capture = (bits, first_index, True))"
  let ?capture = "(bits, first_index, complete)"
  consider "complete" | "\<not> complete" "DB_MAX_STREAM_BYTES \<le> bytes_seen"
    | "\<not> complete" "\<not> DB_MAX_STREAM_BYTES \<le> bytes_seen" by blast
  then show ?case
  proof cases
    case 1
    then show ?thesis
      by (simp add: db_stream_loop.simps wp_simps) (rule exI [of _ "[]"], simp add: talks_refl)
  next
    case 2
    then show ?thesis by (auto simp: db_stream_loop.simps wp_simps intro: talks_refl)
  next
    case 3
    have "io_wp (io_bind (read_byte_until T deadline ''DrawBridge track stream'') (\<lambda>byte.
        db_stream_loop T deadline mode high (Suc bytes_seen) (db_feed mode high byte ?capture))) (?P ?capture w) w"
      unfolding wp_bind
    proof (rule wp_read_byte_until [OF "1.prems"], unfold sum.case)
      fix e w' got assume "talks clock rx tx w w' [] got"
      then show "?P ?capture w (Inl e) w'" by auto
    next
      fix b w1 assume t: "talks clock rx tx w w1 [] [b]"
      show "io_wp (db_stream_loop T deadline mode high (Suc bytes_seen) (db_feed mode high b ?capture))
          (?P ?capture w) w1"
      proof (rule wp_conseq [OF "1.IH" [OF 3 "1.prems"]], elim exE conjE)
        fix r :: "error + bool list \<times> bool" and w' bytes
        assume "talks clock rx tx w1 w' [] bytes" and ok:
          "\<forall>bits first_index. r = Inr (bits, first_index) \<longrightarrow>
             db_feed_all mode high bytes (db_feed mode high b ?capture) = (bits, first_index, True)"
        then have "talks clock rx tx w w' [] (b # bytes)" using talks_trans [OF t] by fastforce
        then show "?P ?capture w r w'"
          using ok 3(1) by (intro exI [of _ "b # bytes"]) simp
      qed
    qed
    then show ?thesis using 3 by (simp add: db_stream_loop.simps)
  qed
qed

lemma db_halts_operations:
  assumes "transport_laws T clock rx tx"
  shows "io_halts (db_get_status T)" "io_halts (db_set_motor T enabled quick)" "io_halts (db_seek T c)"
    "io_halts (db_select_side T s)" "io_halts (db_no_click_step T)" "io_halts (db_read_track T mode density)"
    "io_halts (db_write_track T words bit_len from_index density)"
proof -
  note steps = db_halts_commands [OF assms] transport_halts [OF assms] halts_windows [OF assms]
  have stream: "io_halts (db_stream_loop T deadline mode high n capture)" for deadline high n capture
    unfolding wp_halts using db_stream_loop_spec [OF assms] by (blast intro: wp_conseq)
  have window: "replicate 5 (0 :: u8) \<noteq> []" by simp
  have density: "io_halts (db_choose_density T density)"
    unfolding db_choose_density_def by (cases density; simp only: density_mode.case; intro io_halts_intros steps)
  have read: "io_halts (db_read_stream T mode)"
    unfolding db_read_stream_def Let_def by (intro io_halts_intros steps stream window)
  have sent: "io_halts (db_write_stream T words bit_len from_index)"
    unfolding db_write_stream_def option.case_eq_if by (intro io_halts_intros steps)
  show "io_halts (db_get_status T)"
    unfolding db_get_status_def by (intro io_halts_intros steps)
  show "io_halts (db_set_motor T enabled quick)"
    unfolding db_set_motor_def by (intro io_halts_intros steps)
  show "io_halts (db_seek T c)"
    unfolding db_seek_def by (intro io_halts_intros steps)
  show "io_halts (db_select_side T s)"
    unfolding db_select_side_def by (intro io_halts_intros steps)
  show "io_halts (db_no_click_step T)"
    unfolding db_no_click_step_def by (intro io_halts_intros steps)
  show "io_halts (db_read_track T mode density)"
    unfolding db_read_track_def by (intro io_halts_intros density read)
  show "io_halts (db_write_track T words bit_len from_index density)"
    unfolding db_write_track_def by (intro io_halts_intros density sent)
qed

section \<open>Successful exchanges\<close>

definition db_talks ::
  "('w \<Rightarrow> nat) \<Rightarrow> ('w \<Rightarrow> u8 list) \<Rightarrow> ('w \<Rightarrow> u8 list) \<Rightarrow> 'w drawbridge \<Rightarrow> 'w drawbridge \<Rightarrow> u8 list \<Rightarrow>
     u8 list \<Rightarrow> bool" where
  "db_talks clock rx tx d d' sent got \<longleftrightarrow>
     (\<exists>w'. d' = d\<lparr>db_world := w'\<rparr>) \<and> talks clock rx tx (db_world d) (db_world d') sent got"

lemma db_talks_trans:
  "db_talks clock rx tx d d1 s1 g1 \<Longrightarrow> db_talks clock rx tx d1 d2 s2 g2 \<Longrightarrow>
     db_talks clock rx tx d d2 (s1 @ s2) (g1 @ g2)"
  by (auto simp: db_talks_def intro: talks_trans)

lemma db_link_ok:
  assumes "io_wp m (\<lambda>r w'. \<forall>a. r = Inr a \<longrightarrow> (\<exists>got. talks clock rx tx (db_world d) w' sent got \<and> P a got)) (db_world d)"
    and "db_link m d = Some (Inr a, d')"
  shows "\<exists>got. db_talks clock rx tx d d' sent got \<and> P a got"
  using assms by (fastforce simp: db_talks_def db_link_def io_zoom_returns_iff io_wp_def)

lemma talks_quiet_trans:
  "talks clock rx tx w w1 [] [] \<Longrightarrow> talks clock rx tx w1 w2 sent got \<Longrightarrow> talks clock rx tx w w2 sent got"
  using talks_trans [of clock rx tx w w1 "[]" "[]" w2 sent got] by simp

lemma db_steps_ok:
  assumes laws: "transport_laws T clock rx tx"
  shows db_send_ok: "db_send T bytes operation d = Some (Inr (), d') \<Longrightarrow> db_talks clock rx tx d d' bytes []"
    and db_read_byte_ok: "db_read_byte T operation d = Some (Inr b, d') \<Longrightarrow> db_talks clock rx tx d d' [] [b]"
    and db_deadline_ok: "db_link (within T timeout io_return) d = Some (Inr deadline, d') \<Longrightarrow>
      db_talks clock rx tx d d' [] []"
    and db_purge_ok: "db_link (tr_purge T) d = Some (Inr (), d') \<Longrightarrow> db_talks clock rx tx d d' [] []"
    and db_stream_ok: "db_link (db_stream_loop T deadline mode high n capture) d =
        Some (Inr (bits, first_index), d') \<Longrightarrow>
      \<exists>bytes. db_talks clock rx tx d d' [] bytes \<and> db_feed_all mode high bytes capture = (bits, first_index, True)"
    and db_stop_ok: "db_link (await_window T deadline operation verdict (replicate 5 0)) d = Some (Inr a, d') \<Longrightarrow>
      \<exists>bytes. db_talks clock rx tx d d' [] bytes \<and> verdict (windows (replicate 5 0) bytes) = Inr (Some a)"
proof -
  show "db_talks clock rx tx d d' bytes []" if "db_send T bytes operation d = Some (Inr (), d')"
  proof -
    have "\<exists>got. db_talks clock rx tx d d' bytes got \<and> got = []"
      by (rule db_link_ok [OF _ that [unfolded db_send_def]], rule wp_within [OF laws], rule wp_write_all [OF laws])
        (auto intro: talks_quiet_trans)
    then show ?thesis by simp
  qed
  show "db_talks clock rx tx d d' [] [b]" if "db_read_byte T operation d = Some (Inr b, d')"
  proof -
    have "\<exists>got. db_talks clock rx tx d d' [] got \<and> got = [b]"
      by (rule db_link_ok [OF _ that [unfolded db_read_byte_def]], rule wp_within [OF laws],
          rule wp_read_byte_until [OF laws]) (auto intro: talks_quiet_trans)
    then show ?thesis by simp
  qed
  show "db_talks clock rx tx d d' [] []" if "db_link (within T timeout io_return) d = Some (Inr deadline, d')"
  proof -
    have "\<exists>got. db_talks clock rx tx d d' [] got \<and> got = []"
      by (rule db_link_ok [OF _ that], rule wp_within [OF laws]) (simp add: wp_basic)
    then show ?thesis by simp
  qed
  show "db_talks clock rx tx d d' [] []" if "db_link (tr_purge T) d = Some (Inr (), d')"
  proof -
    have "\<exists>got. db_talks clock rx tx d d' [] got \<and> got = []"
      by (rule db_link_ok [OF _ that], rule wp_quiet [OF transport_purge [OF laws]]) simp
    then show ?thesis by simp
  qed
  show "\<exists>bytes. db_talks clock rx tx d d' [] bytes \<and> db_feed_all mode high bytes capture = (bits, first_index, True)"
    if "db_link (db_stream_loop T deadline mode high n capture) d = Some (Inr (bits, first_index), d')"
  proof -
    let ?P = "\<lambda>a bytes. db_feed_all mode high bytes capture = (fst a, snd a, True)"
    have "\<exists>bytes. db_talks clock rx tx d d' [] bytes \<and> ?P (bits, first_index) bytes"
      by (rule db_link_ok [OF wp_conseq [OF db_stream_loop_spec [OF laws]] that]) auto
    then show ?thesis by simp
  qed
  show "\<exists>bytes. db_talks clock rx tx d d' [] bytes \<and> verdict (windows (replicate 5 0) bytes) = Inr (Some a)"
    if "db_link (await_window T deadline operation verdict (replicate 5 0)) d = Some (Inr a, d')"
    by (rule db_link_ok [OF wp_await_window [OF laws] that]) auto
qed

lemma db_expect_ok:
  assumes laws: "transport_laws T clock rx tx" and "db_expect_command T c d = Some (Inr (), d')"
  shows "db_talks clock rx tx d d' [ascii c] [ascii (CHR ''1'')]"
proof -
  obtain d1 where "db_send T [ascii c] ''DrawBridge command'' d = Some (Inr (), d1)"
    "db_read_byte T ''DrawBridge command response'' d1 = Some (Inr (ascii (CHR ''1'')), d')"
    using assms(2) by (auto simp: db_expect_command_def io_bind_ok_iff io_run split: if_splits)
  then show ?thesis
    using db_talks_trans [OF db_send_ok [OF laws] db_read_byte_ok [OF laws]] by fastforce
qed

lemma db_indexed_read_ok:
  assumes laws: "transport_laws T clock rx tx" and "mode \<noteq> Normal"
    and run: "db_read_stream T mode d = Some (Inr capture, d')"
  shows "\<exists>bits first_index bytes tail.
    db_feed_all mode (db_high_density d) bytes ([], False, False) = (bits, first_index, True) \<and>
    windows (replicate 5 0) tail = ascii_bytes ''XYZx1'' \<and>
    capture = \<lparr>rc_words = pack_bits bits, rc_bit_len = length bits, rc_index_aligned = first_index\<rparr> \<and>
    tx (db_world d') = tx (db_world d) @ ascii_bytes ''{x'' \<and>
    rx (db_world d') = rx (db_world d) @ ascii (CHR ''1'') # bytes @ tail"
proof -
  obtain d1 d2 d3 d4 d5 d6 deadline bits first_index
    where start: "db_expect_command T (CHR ''{'') d = Some (Inr (), d1)"
    and deadline: "db_link (within T DB_STREAM_TIMEOUT io_return) d1 = Some (Inr deadline, d2)"
    and stream: "db_link (db_stream_loop T deadline mode (db_high_density d2) 0 ([], False, False)) d2 =
      Some (Inr (bits, first_index), d3)"
    and stop: "db_send T (ascii_bytes ''x'') ''DrawBridge stop stream'' d3 = Some (Inr (), d4)"
    and ack: "db_link (await_window T deadline ''DrawBridge stop acknowledgement'' db_stop_verdict
      (replicate 5 0)) d4 = Some (Inr (), d5)"
    and purge: "db_link (tr_purge T) d5 = Some (Inr (), d6)"
    and fin: "capture = \<lparr>rc_words = pack_bits bits, rc_bit_len = length bits, rc_index_aligned = first_index\<rparr>"
      "db_world d' = db_world d6"
    using run assms(2)
    by (auto simp: db_read_stream_def io_bind_ok_iff io_run Let_def split_def db_set_status_def split: if_splits)
  note t1 = db_expect_ok [OF laws start] and t2 = db_deadline_ok [OF laws deadline]
  have high: "db_high_density d2 = db_high_density d" using t1 t2 by (auto simp: db_talks_def)
  obtain bytes where t3: "db_talks clock rx tx d2 d3 [] bytes"
    and feed: "db_feed_all mode (db_high_density d) bytes ([], False, False) = (bits, first_index, True)"
    using db_stream_ok [OF laws stream] high by auto
  obtain tail where t5: "db_talks clock rx tx d4 d5 [] tail"
    and win: "windows (replicate 5 0) tail = ascii_bytes ''XYZx1''"
    using db_stop_ok [OF laws ack] by (auto simp: db_stop_verdict_def split: if_splits)
  have "db_talks clock rx tx d d6 (ascii_bytes ''{x'') (ascii (CHR ''1'') # bytes @ tail)"
    using db_talks_trans [OF db_talks_trans [OF db_talks_trans [OF db_talks_trans [OF db_talks_trans [OF t1 t2] t3]
          db_send_ok [OF laws stop]] t5] db_purge_ok [OF laws purge]] by (simp add: ascii_bytes_def)
  then show ?thesis
    using feed win fin by (auto simp: db_talks_def talks_def)
qed

section \<open>The state kept\<close>

text \<open>The drive type reported follows the density in force, and the head is on the drive.\<close>

definition db_consistent :: "'w drawbridge \<Rightarrow> bool" where
  "db_consistent d \<longleftrightarrow> ds_drive_type (db_status d) = db_drive_type (db_high_density d) \<and>
     ds_cylinder (db_status d) < ds_max_cylinders (db_status d) \<and> ds_max_cylinders (db_status d) = 84"

definition db_density_ok :: "'w drawbridge \<Rightarrow> bool" where
  "db_density_ok d \<longleftrightarrow> ds_drive_type (db_status d) = db_drive_type (db_high_density d)"

lemma db_density_frame: "keeps db_frame m \<Longrightarrow> m d = Some (r, d') \<Longrightarrow> db_density_ok d' = db_density_ok d"
  by (auto simp: keeps_def db_frame_defs db_density_ok_def)

text \<open>Adopting a density: the second half of \<open>db_choose_density\<close>.\<close>

lemma db_adopt_density_ok:
  assumes "io_bind (io_gets db_high_density) (\<lambda>current.
           io_when (high \<noteq> current)
             (io_then (db_expect_command T (if high then CHR ''H'' else CHR ''D''))
               (io_then (io_modify (\<lambda>d. d\<lparr>db_high_density := high\<rparr>))
                 (db_set_status (ds_drive_type_update (\<lambda>_. db_drive_type high)))))) d = Some (r, d')"
    and "db_density_ok d"
  shows "db_density_ok d'"
proof (cases "high = db_high_density d")
  case True
  then show ?thesis using assms by (simp add: io_bind_def io_run)
next
  case False
  then have run: "io_then (db_expect_command T (if high then CHR ''H'' else CHR ''D''))
               (io_then (io_modify (\<lambda>d. d\<lparr>db_high_density := high\<rparr>))
                 (db_set_status (ds_drive_type_update (\<lambda>_. db_drive_type high)))) d = Some (r, d')"
    using assms(1) by (simp add: io_bind_def io_run)
  then obtain q d1 where d1: "db_expect_command T (if high then CHR ''H'' else CHR ''D'') d = Some (q, d1)"
    "(\<exists>e. q = Inl e) \<and> d' = d1 \<or>
     d' = d1\<lparr>db_high_density := high, db_status := (db_status d1)\<lparr>ds_drive_type := db_drive_type high\<rparr>\<rparr>"
    unfolding io_bind_returns_iff by (auto simp: io_run db_set_status_def)
  then show ?thesis
    using db_density_frame [OF keeps_db_commands(3) d1(1)] assms(2) by (auto simp: db_density_ok_def)
qed

lemma db_choose_density_ok:
  assumes "db_choose_density T density d = Some (r, d')" and "db_density_ok d"
  shows "db_density_ok d'"
proof -
  let ?resolve = "\<lambda>flags. case density of
            DensityDouble \<Rightarrow> io_return False
          | DensityHigh \<Rightarrow> io_return True
          | DensityAuto \<Rightarrow>
              if flags AND FLAG_DENSITY_DETECT \<noteq> 0
              then io_then (db_expect_command T (CHR ''T''))
                (io_bind (db_read_byte T ''DrawBridge density response'') (\<lambda>response.
                  if response = ascii (CHR ''H'') then io_return True
                  else if response = ascii (CHR ''D'') then io_return False
                  else if response = ascii (CHR ''x'')
                  then io_then (db_set_status (ds_disk_present_update (\<lambda>_. False))) (io_return False)
                  else io_throw (Protocol (''DrawBridge returned invalid density '' @
                         hex_byte response))))
              else io_return False"
  have "keeps db_frame (?resolve flags)" for flags
    by (cases density; simp only: density_mode.case; intro keeps_intros keeps_db_set_status; simp)
  note frame = db_density_frame [OF this]
  from assms(1) show ?thesis
    unfolding db_choose_density_def io_bind_returns_iff [of "io_gets db_flags"]
      io_bind_returns_iff [of "?resolve _"]
    using frame db_adopt_density_ok assms(2) by (simp only: io_run option.inject prod.inject) blast
qed

lemma db_setup_ok:
  assumes "db_setup T firmware d0 = Some (Inr (), d)" and "db_limit d0 = 84"
  shows "db_density_ok d \<and> db_cylinder d = 0 \<and> db_limit d = 84"
proof -
  obtain major minor patch where fw: "firmware = (major, minor, patch)" by (metis prod_cases3)
  let ?features = "io_when ((major, minor) \<ge> (1, 9))
            (io_then (db_expect_command T (CHR ''@''))
              (io_bind (db_link (within T DB_COMMAND_TIMEOUT (\<lambda>deadline.
                  read_exact_until T 3 deadline ''DrawBridge feature flags''))) (\<lambda>features.
                io_modify (\<lambda>d. d\<lparr>db_flags := features ! 0,
                                 db_firmware := (major, minor, features ! 2)\<rparr>))))"
  have kf: "keeps db_frame ?features" by (intro keeps_intros) (simp add: db_frame_defs)
  obtain d1 d2 d3 d4 d5 where d1: "db_link (tr_set_timeout T DB_COMMAND_TIMEOUT) d0 = Some (Inr (), d1)"
    and d2: "db_link (tr_purge T) d1 = Some (Inr (), d2)"
    and d3: "?features d2 = Some (Inr (), d3)"
    and d4: "db_expect_command T (CHR ''.'') d3 = Some (Inr (), d4)"
    and d5: "d5 = d4\<lparr>db_status := (db_status d4)\<lparr>ds_cylinder := 0, ds_working := True,
        ds_drive_type := db_drive_type (db_high_density d4)\<rparr>\<rparr>"
    and d6: "io_ignore (db_check_disk T) d5 = Some (Inr (), d)"
    using assms(1) unfolding db_setup_def fw Let_def prod.case io_bind_ok_iff
    by (auto simp: io_run db_set_status_def)
  have "db_frame d5 = db_frame d" using keeps_ignore [OF keeps_db_check_disk] d6 by (fastforce simp: keeps_def)
  moreover have "db_limit d4 = 84"
  proof -
    have limit: "keeps db_frame m \<Longrightarrow> m d = Some (r, d') \<Longrightarrow> db_limit d' = db_limit d"
      for m :: "('a drawbridge, 'b) io" and d r d'
      using db_keeps_pos(3) [OF keeps_pos, of m] by (simp add: keeps_def)
    show ?thesis
      using limit [OF keeps_db_link d1] limit [OF keeps_db_link d2] limit [OF kf d3]
        limit [OF keeps_db_commands(3) d4] assms(2) by simp
  qed
  ultimately show ?thesis by (auto simp: d5 db_frame_defs db_position_defs db_density_ok_def)
qed

lemma db_open_ok:
  assumes "db_open feats L port config w = Some (Inr (T, d), w')"
  shows "db_density_ok d \<and> db_cylinder d = 0 \<and> db_limit d = 84"
proof -
  obtain T' fw full w1 where "(if (fst fw, fst (snd fw)) < (1, 8)
      then io_throw (UnsupportedFirmware (''DrawBridge firmware '' @ dec_string (unat (fst fw)) @ ''.'' @
                  dec_string (unat (fst (snd fw))) @ ''; version 1.8 or later is required''))
      else io_bind (construct (db_initial port config fw full) db_world (db_setup T' fw) (db_drop T')) (\<lambda>d.
             io_return (T', d))) w1 = Some (Inr (T, d), w')"
    using assms unfolding db_open_def Let_def split_def by (elim io_bind_okE) (rule that)
  then have "T' = T" "construct (db_initial port config fw full) db_world (db_setup T fw) (db_drop T) w1 =
      Some (Inr d, w')"
    by (auto simp: io_bind_ok_iff io_run simp del: less_prod_simp split: if_splits)
  then obtain w2 where "db_setup T fw (db_initial port config fw full w2) = Some (Inr (), d)"
    by (auto simp: construct_def split: option.splits sum.splits prod.splits)
  then show ?thesis by (rule db_setup_ok) (simp add: db_initial_def db_limit_def)
qed

lemma keeps_db_moves_kind: "keeps db_kind (db_seek T c)" "keeps db_kind (db_select_side T s)"
proof -
  have kind: "keeps db_frame m \<Longrightarrow> keeps db_kind m" for m :: "('a drawbridge, 'b) io"
    by (erule keeps_proj [where h = snd]) (simp add: db_frame_def)
  show "keeps db_kind (db_seek T c)" "keeps db_kind (db_select_side T s)"
    unfolding db_seek_def db_select_side_def db_set_status_def
    by (intro keeps_intros kind; simp add: db_kind_def)+
qed

lemma db_step_density:
  assumes "device_step (db_device T) d d'" and "db_density_ok d"
  shows "db_density_ok d'"
proof -
  have kind: "keeps db_kind m \<Longrightarrow> m d = Some (r, d1) \<Longrightarrow> db_density_ok d1"
    for m :: "('a drawbridge, 'b) io" and r d1
    using assms(2) by (simp add: keeps_def db_kind_def db_density_ok_def)
  have frame: "keeps db_frame m \<Longrightarrow> m d = Some (r, d1) \<Longrightarrow> db_density_ok d1"
    for m :: "('a drawbridge, 'b) io" and r d1
    using db_density_frame [of m d r d1] assms(2) by simp
  have chosen: "db_density_ok d1"
    if "io_then (db_choose_density T density) m d = Some (r, d1)" "keeps db_frame m"
    for m :: "('a drawbridge, 'b) io" and density r d1
    using that db_choose_density_ok [OF _ assms(2), of T density] db_density_frame [OF that(2)]
    by (fastforce simp: io_bind_returns_iff)
  from assms(1) show ?thesis
    by cases (auto simp: db_device_def db_read_track_def db_write_track_def on_device_def io_zoom_returns_iff
        intro: frame kind chosen keeps_db_simple keeps_db_moves_kind)
qed

section \<open>On the scripted port\<close>

definition demo_db :: "u8 list \<Rightarrow> bool \<Rightarrow> scripted_port drawbridge" where
  "demo_db input high =
     \<lparr>db_world = fresh_port input, db_port = PortId ''COM3'', db_status = drive_status_default,
      db_firmware = (1, 8, 0), db_flags = 0, db_full_control = False, db_high_density = high\<rparr>"

lemma scripted_db_send:
  assumes "bytes \<noteq> []"
  shows "db_send (scripted burst) bytes op d = Some (Inr (), d\<lparr>db_world :=
    \<lparr>sim_clock = Suc (sim_clock (db_world d)), sim_pending = sim_pending (db_world d),
     sim_delivered = sim_delivered (db_world d), sim_taken = sim_taken (db_world d) @ bytes\<rparr>\<rparr>)"
  using assms
  by (simp add: db_send_def db_link_def io_zoom_def within_def io_bind_def scripted_instant write_all_until_def
      scripted_run sim_tick_def)

lemma scripted_db_byte:
  assumes "sim_pending (db_world d) = b # rest" and "0 < burst"
  shows "db_read_byte (scripted burst) op d = Some (Inr b, d\<lparr>db_world :=
    \<lparr>sim_clock = Suc (sim_clock (db_world d)), sim_pending = rest,
     sim_delivered = sim_delivered (db_world d) @ [b], sim_taken = sim_taken (db_world d)\<rparr>\<rparr>)"
  using scripted_byte [of "db_world d" "sim_clock (db_world d) + DB_COMMAND_TIMEOUT" b rest burst op] assms
  by (simp add: db_read_byte_def db_link_def io_zoom_def within_def io_bind_def scripted_instant)

lemma scripted_db_expect:
  assumes "sim_pending (db_world d) = ascii (CHR ''1'') # rest" and "0 < burst"
  shows "db_expect_command (scripted burst) c d = Some (Inr (), d\<lparr>db_world :=
    \<lparr>sim_clock = Suc (Suc (sim_clock (db_world d))), sim_pending = rest,
     sim_delivered = sim_delivered (db_world d) @ [ascii (CHR ''1'')],
     sim_taken = sim_taken (db_world d) @ [ascii c]\<rparr>\<rparr>)"
  using assms
  by (simp add: db_expect_command_def io_bind_def scripted_db_send scripted_db_byte [where rest = rest] io_run)

lemma scripted_db_stream:
  assumes "sim_pending p = bytes @ rest" and "0 < burst"
    and "sim_clock p + length bytes \<le> deadline" and "n + length bytes \<le> DB_MAX_STREAM_BYTES"
    and "\<forall>k < length bytes. \<not> snd (snd (db_feed_all mode high (take k bytes) capture))"
    and "db_feed_all mode high bytes capture = (bits, first_index, True)"
  shows "db_stream_loop (scripted burst) deadline mode high n capture p =
    Some (Inr (bits, first_index), \<lparr>sim_clock = sim_clock p + length bytes, sim_pending = rest,
      sim_delivered = sim_delivered p @ bytes, sim_taken = sim_taken p\<rparr>)"
  using assms
proof (induction bytes arbitrary: p n capture)
  case Nil
  then show ?case by (cases p) (auto simp: db_stream_loop.simps io_run)
next
  case (Cons b bytes)
  obtain bs fi c where capture: "capture = (bs, fi, c)" by (metis prod_cases3)
  have c: "\<not> c" using Cons.prems(5) [rule_format, of 0] by (simp add: capture)
  have feeds: "db_feed_all mode high (take k bytes) (db_feed mode high b capture) =
      db_feed_all mode high (take (Suc k) (b # bytes)) capture" for k
    using c by (simp add: capture)
  let ?p = "\<lparr>sim_clock = Suc (sim_clock p), sim_pending = bytes @ rest,
      sim_delivered = sim_delivered p @ [b], sim_taken = sim_taken p\<rparr>"
  have "db_stream_loop (scripted burst) deadline mode high (Suc n) (db_feed mode high b capture) ?p =
      Some (Inr (bits, first_index), \<lparr>sim_clock = sim_clock ?p + length bytes, sim_pending = rest,
        sim_delivered = sim_delivered ?p @ bytes, sim_taken = sim_taken ?p\<rparr>)"
  proof (rule Cons.IH)
    show "\<forall>k < length bytes. \<not> snd (snd (db_feed_all mode high (take k bytes) (db_feed mode high b capture)))"
      using Cons.prems(5) unfolding feeds by auto
    show "db_feed_all mode high bytes (db_feed mode high b capture) = (bits, first_index, True)"
      using Cons.prems(6) c by (simp add: capture)
  qed (use Cons.prems in simp_all)
  moreover have "read_byte_until (scripted burst) deadline ''DrawBridge track stream'' p = Some (Inr b, ?p)"
    using scripted_byte [of p deadline b "bytes @ rest" burst] Cons.prems by simp
  ultimately show ?case
    using c Cons.prems(4) by (simp add: capture db_stream_loop.simps [of _ _ _ _ n] io_bind_def)
qed

section \<open>Properties\<close>

text \<open>
  C39: Every operation of an open DrawBridge returns, with a value or an error, whatever the
  interface answers and however slowly.
\<close>

theorem db_operations_return:
  assumes "transport_laws T clock rx tx"
  shows "io_halts (dv_status (db_device T)) \<and> io_halts (dv_set_motor (db_device T) enabled quick) \<and>
    io_halts (dv_seek (db_device T) c) \<and> io_halts (dv_select_side (db_device T) s) \<and>
    io_halts (dv_no_click_step (db_device T)) \<and> io_halts (dv_read_track (db_device T) mode density) \<and>
    io_halts (dv_write_track (db_device T) words bit_len from_index density)"
  using db_halts_operations [OF assms] by (simp add: db_device_def)

theorem db_operations_return_witness:
  "dv_read_track (db_device (scripted 4)) Normal DensityAuto (demo_db [49, 0] False, []) \<noteq> None \<and>
   dv_seek (db_device (scripted 4)) 79 (demo_db [] True) \<noteq> None"
  using db_operations_return [OF scripted_laws [of 4]] unfolding io_halts_def by blast

text \<open>
  C16: A successful read that waits for the index has consumed a stream of cell groups with
  exactly two index marks that matter, and its capture is exactly the groups from the first mark
  up to the second, reported index-aligned; on the wire it sends only the start and the stop
  command, and it consumes the stream and everything up to the firmware's closing text.
\<close>

theorem db_index_capture:
  assumes laws: "transport_laws T clock rx tx" and mode: "mode \<noteq> Normal"
    and run: "db_read_stream T mode d = Some (Inr capture, d')"
  shows "\<exists>bytes tail pre c mid c' rest.
    concat (map (db_symbols (db_high_density d)) bytes) = pre @ (True, c) # mid @ (True, c') # rest \<and>
    (\<forall>(mark, _) \<in> set (pre @ mid). \<not> mark) \<and>
    capture = \<lparr>rc_words = pack_bits (c @ concat (map snd mid)),
      rc_bit_len = length (c @ concat (map snd mid)), rc_index_aligned = True\<rparr> \<and>
    windows (replicate 5 0) tail = ascii_bytes ''XYZx1'' \<and>
    tx (db_world d') = tx (db_world d) @ ascii_bytes ''{x'' \<and>
    rx (db_world d') = rx (db_world d) @ ascii (CHR ''1'') # bytes @ tail"
proof -
  obtain bits first_index bytes tail
    where feed: "db_feed_all mode (db_high_density d) bytes ([], False, False) = (bits, first_index, True)"
    and fin: "windows (replicate 5 0) tail = ascii_bytes ''XYZx1''"
      "capture = \<lparr>rc_words = pack_bits bits, rc_bit_len = length bits, rc_index_aligned = first_index\<rparr>"
      "tx (db_world d') = tx (db_world d) @ ascii_bytes ''{x''"
      "rx (db_world d') = rx (db_world d) @ ascii (CHR ''1'') # bytes @ tail"
    using db_indexed_read_ok [OF assms] by (elim exE conjE) (rule that)
  from feed have "collect (concat (map (db_symbols (db_high_density d)) bytes)) ([], False, False) =
      (bits, first_index, True)"
    by (simp only: db_feed_all_collect [OF mode])
  from collect_shape [OF this] obtain pre c mid c' rest
    where "first_index" "concat (map (db_symbols (db_high_density d)) bytes) = pre @ (True, c) # mid @ (True, c') # rest"
      "\<forall>(mark, _) \<in> set (pre @ mid). \<not> mark" "bits = c @ concat (map snd mid)"
    by auto
  with fin show ?thesis by (intro exI conjI) auto
qed

definition demo_track :: "u8 list" where
  "demo_track = 0xF8 # replicate 7 0x78 @ [0xF8]"

lemma demo_track_read:
  "\<exists>capture d'. db_read_stream (scripted 2) Compatible
     (demo_db (ascii (CHR ''1'') # demo_track @ ascii_bytes ''XYZx1'') False) = Some (Inr capture, d')"
proof -
  define tail where "tail = ascii_bytes ''XYZx1''"
  define d where "d = demo_db (ascii (CHR ''1'') # demo_track @ tail) False"
  obtain d1 where d1: "db_expect_command (scripted 2) (CHR ''{'') d = Some (Inr (), d1)"
    "sim_pending (db_world d1) = demo_track @ tail" "sim_clock (db_world d1) = 2" "\<not> db_high_density d1"
    using scripted_db_expect [of d "demo_track @ tail" 2 "CHR ''{''"] by (simp add: d_def demo_db_def fresh_port_def)
  have deadline: "db_link (within (scripted 2) DB_STREAM_TIMEOUT io_return) d1 =
      Some (Inr (2 + DB_STREAM_TIMEOUT), d1)"
    using d1(3) by (simp add: db_link_def io_zoom_def within_def io_bind_def scripted_instant io_run)
  have late: "2 + length demo_track \<le> 2 + DB_STREAM_TIMEOUT" "length demo_track \<le> DB_MAX_STREAM_BYTES"
    "length demo_track = 9"
    by (simp_all add: demo_track_def DB_STREAM_TIMEOUT_def secs_def DB_MAX_STREAM_BYTES_def)
  define bits where "bits = concat (replicate 16 [False, False, False, True])"
  have feed: "\<forall>k \<in> set [0..<9]. \<not> snd (snd (db_feed_all Compatible False (take k demo_track) ([], False, False)))"
    "db_feed_all Compatible False demo_track ([], False, False) = (bits, True, True)"
    unfolding bits_def by code_simp+
  have "\<forall>k < length demo_track. \<not> snd (snd (db_feed_all Compatible False (take k demo_track) ([], False, False)))"
    using feed(1) unfolding late(3) by auto
  from scripted_db_stream [OF d1(2) _ _ _ this feed(2), of 2 "2 + DB_STREAM_TIMEOUT" 0] late d1(3)
  obtain d2 where d2: "db_link (db_stream_loop (scripted 2) (2 + DB_STREAM_TIMEOUT) Compatible False 0
      ([], False, False)) d1 = Some (Inr (bits, True), d2)"
    "sim_pending (db_world d2) = tail" "sim_clock (db_world d2) = 11"
    by (simp add: db_link_def io_zoom_def)
  obtain d3 where d3: "db_send (scripted 2) (ascii_bytes ''x'') ''DrawBridge stop stream'' d2 = Some (Inr (), d3)"
    "sim_pending (db_world d3) = tail" "sim_clock (db_world d3) = 12"
    using d2 scripted_db_send [of "ascii_bytes ''x''" 2 "''DrawBridge stop stream''" d2]
    by (simp add: ascii_bytes_def)
  have verdicts: "\<forall>k \<in> set [1, 2, 3, 4]. db_stop_verdict (windows (replicate 5 0) (take k tail)) = Inr None"
    "db_stop_verdict (windows (replicate 5 0) tail) = Inr (Some ())" "length tail = 5"
    unfolding tail_def by code_simp+
  have "\<forall>k. 0 < k \<longrightarrow> k < length tail \<longrightarrow> db_stop_verdict (windows (replicate 5 0) (take k tail)) = Inr None"
  proof (intro allI impI)
    fix k assume "0 < k" "k < length tail"
    then have "k \<in> set [1, 2, 3, 4]" unfolding verdicts(3) by auto
    then show "db_stop_verdict (windows (replicate 5 0) (take k tail)) = Inr None" using verdicts(1) by blast
  qed
  from scripted_await [OF _ _ _ _ _ verdicts(2) this, of "db_world d3" "2 + DB_STREAM_TIMEOUT" "[]" 2]
  obtain d4 where d4: "db_link (await_window (scripted 2) (2 + DB_STREAM_TIMEOUT)
      ''DrawBridge stop acknowledgement'' db_stop_verdict (replicate 5 0)) d3 = Some (Inr (), d4)"
    using d3 verdicts(3) by (force simp: db_link_def io_zoom_def DB_STREAM_TIMEOUT_def secs_def)
  have purge: "db_link (tr_purge (scripted 2)) d4 = Some (Inr (), d4)"
    by (simp add: db_link_def io_zoom_def scripted_def io_run)
  have len: "length bits = 64" unfolding bits_def by code_simp
  have "validate_capture \<lparr>rc_words = pack_bits bits, rc_bit_len = length bits, rc_index_aligned = True\<rparr> = Inr ()"
    using len by (simp add: validate_capture_Inr length_pack_bits MAX_TRACK_BITS_def)
  then have "db_read_stream (scripted 2) Compatible d = Some (Inr
      \<lparr>rc_words = pack_bits bits, rc_bit_len = length bits, rc_index_aligned = True\<rparr>,
      d4\<lparr>db_status := (db_status d4)\<lparr>ds_disk_present := True, ds_ready := True\<rparr>\<rparr>)"
    using len d1(4)
    by (simp only: db_read_stream_def io_bind_def d1(1) deadline io_run d2(1) d3(1) d4 purge Let_def
        db_set_status_def option.case sum.case prod.case simp_thms if_False if_True read_mode.distinct) (simp add: io_run)
  then show ?thesis unfolding tail_def d_def by blast
qed

theorem db_index_capture_witness:
  "\<exists>capture d'. db_read_stream (scripted 2) Compatible
     (demo_db (ascii (CHR ''1'') # demo_track @ ascii_bytes ''XYZx1'') False) = Some (Inr capture, d') \<and>
     rc_index_aligned capture \<and> sim_taken (db_world d') = ascii_bytes ''{x''"
proof -
  obtain capture d' where run: "db_read_stream (scripted 2) Compatible
     (demo_db (ascii (CHR ''1'') # demo_track @ ascii_bytes ''XYZx1'') False) = Some (Inr capture, d')"
    using demo_track_read by blast
  have "sim_taken (db_world (demo_db input high)) = []" for input high by (simp add: demo_db_def fresh_port_def)
  then show ?thesis using db_index_capture [OF scripted_laws _ run] run by auto
qed

lemma demo_db_version:
  assumes "sim_pending p = ascii_bytes ''1V1.8'' @ rest"
  shows "db_sync_version (scripted 2) p = Some (Inr ((1, 8, 0), False),
    \<lparr>sim_clock = sim_clock p + 6, sim_pending = rest, sim_delivered = sim_delivered p @ ascii_bytes ''1V1.8'',
     sim_taken = sim_taken p @ ascii_bytes ''xR?''\<rparr>)"
proof -
  define reply where "reply = ascii_bytes ''1V1.8''"
  let ?p = "\<lparr>sim_clock = Suc (sim_clock p), sim_pending = sim_pending p, sim_delivered = sim_delivered p,
      sim_taken = sim_taken p @ ascii_bytes ''xR?''\<rparr>"
  have sent: "within (scripted 2) (secs 1) (\<lambda>deadline.
         write_all_until (scripted 2) (ascii_bytes ''xR?'') deadline ''DrawBridge version request'') p =
      Some (Inr (), ?p)"
    by (simp add: within_def io_bind_def scripted_instant write_all_until_def scripted_run sim_tick_def
        ascii_bytes_def)
  have verdicts: "\<forall>k \<in> set [1, 2, 3, 4]. db_version_verdict (windows (replicate 5 0) (take k reply)) = Inr None"
    "db_version_verdict (windows (replicate 5 0) reply) = Inr (Some ((1, 8, 0), False))" "length reply = 5"
    unfolding reply_def by code_simp+
  have all: "\<forall>k. 0 < k \<longrightarrow> k < length reply \<longrightarrow> db_version_verdict (windows (replicate 5 0) (take k reply)) = Inr None"
  proof (intro allI impI)
    fix k assume "0 < k" "k < length reply"
    then have "k \<in> set [1, 2, 3, 4]" unfolding verdicts(3) by auto
    then show "db_version_verdict (windows (replicate 5 0) (take k reply)) = Inr None" using verdicts(1) by blast
  qed
  have "await_window (scripted 2) (sim_clock ?p + secs 1) ''DrawBridge version response'' db_version_verdict
      (replicate 5 0) ?p = Some (Inr ((1, 8, 0), False), \<lparr>sim_clock = sim_clock ?p + length reply,
        sim_pending = rest, sim_delivered = sim_delivered ?p @ reply, sim_taken = sim_taken ?p\<rparr>)"
    by (rule scripted_await [OF _ _ _ _ _ verdicts(2) all])
      (use assms verdicts(3) in \<open>auto simp: reply_def secs_def\<close>)
  then have "within (scripted 2) (secs 1) (\<lambda>deadline.
      io_bind (await_window (scripted 2) deadline ''DrawBridge version response'' db_version_verdict
        (replicate 5 0)) (\<lambda>version. io_then (tr_purge (scripted 2)) (io_return version))) ?p =
      Some (Inr ((1, 8, 0), False), \<lparr>sim_clock = sim_clock p + 6, sim_pending = rest,
        sim_delivered = sim_delivered p @ reply, sim_taken = sim_taken p @ ascii_bytes ''xR?''\<rparr>)"
    by (simp add: io_bind_def within_def scripted_instant verdicts(3) scripted_lines io_run)
  then show ?thesis
    unfolding db_sync_version_def reply_def [symmetric]
    by (simp add: io_bind_def sent del: One_nat_def)
qed

lemma demo_db_opens:
  "\<exists>d0. db_open demo_features (scripted_lib 2 [] (\<lambda>_. [])) (PortId ''COM3'') (config_default demo_features)
     (fresh_port (ascii_bytes ''1V1.8'' @ ascii_bytes ''111'' @ rest)) = Some (Inr (scripted 2, d0), db_world d0) \<and>
     sim_pending (db_world d0) = rest \<and> db_firmware d0 = (1, 8, 0)"
proof -
  let ?L = "scripted_lib 2 [] (\<lambda>_. []) :: scripted_port port_lib"
  have port: "transport_open demo_features ?L (PortId ''COM3'') DB_BAUD (millis 250) p = Some (Inr (scripted 2), p)"
    for p
    by (simp add: transport_open_def is_direct_ftdi_def serial_open_def scripted_serial io_bind_def io_map_err_def
        io_run) (simp add: scripted_lib_def io_run)
  let ?p = "\<lparr>sim_clock = 6, sim_pending = ascii_bytes ''111'' @ rest, sim_delivered = ascii_bytes ''1V1.8'',
     sim_taken = ascii_bytes ''xR?''\<rparr>"
  have version: "db_sync_version (scripted 2) (fresh_port (ascii_bytes ''1V1.8'' @ ascii_bytes ''111'' @ rest)) =
      Some (Inr ((1, 8, 0), False), ?p)"
    using demo_db_version [of "fresh_port (ascii_bytes ''1V1.8'' @ ascii_bytes ''111'' @ rest)" "ascii_bytes ''111'' @ rest"]
    by (simp add: fresh_port_def)
  let ?d = "db_initial (PortId ''COM3'') (config_default demo_features) (1, 8, 0) False ?p"
  have quiet: "db_link (tr_set_timeout (scripted 2) t) d = Some (Inr (), d)"
    "db_link (tr_purge (scripted 2)) d = Some (Inr (), d)" for t d
    by (simp_all add: db_link_def io_zoom_def scripted_lines)
  have replies: "ascii_bytes ''111'' = [ascii (CHR ''1''), ascii (CHR ''1''), ascii (CHR ''1'')]"
    by (simp add: ascii_bytes_def)
  obtain d1 where d1: "db_expect_command (scripted 2) (CHR ''.'') ?d = Some (Inr (), d1)"
    "sim_pending (db_world d1) = ascii (CHR ''1'') # ascii (CHR ''1'') # rest"
    "db_firmware d1 = (1, 8, 0)"
    using scripted_db_expect [of ?d "ascii (CHR ''1'') # ascii (CHR ''1'') # rest" 2 "CHR ''.''"]
    by (simp add: db_initial_def replies)
  let ?d2 = "d1\<lparr>db_status := (db_status d1)\<lparr>ds_cylinder := 0, ds_working := True,
      ds_drive_type := db_drive_type (db_high_density d1)\<rparr>\<rparr>"
  obtain d3 where d3: "io_ignore (db_check_disk (scripted 2)) ?d2 = Some (Inr (), d3)"
    "sim_pending (db_world d3) = rest" "db_firmware d3 = (1, 8, 0)"
    using d1(2-)
    by (simp add: io_ignore_def db_check_disk_def io_bind_def io_run scripted_db_send ascii_bytes_def
        scripted_db_byte [where rest = "ascii (CHR ''1'') # rest"]
        scripted_db_byte [where rest = rest] db_set_status_def)
  have "db_setup (scripted 2) (1, 8, 0) ?d = Some (Inr (), d3)"
    by (simp add: db_setup_def io_bind_def quiet d1 io_run db_set_status_def d3)
  then have "db_open demo_features ?L (PortId ''COM3'') (config_default demo_features)
     (fresh_port (ascii_bytes ''1V1.8'' @ ascii_bytes ''111'' @ rest)) = Some (Inr (scripted 2, d3), db_world d3)"
    unfolding db_open_def
    by (simp add: io_bind_def port scripted_lines io_or_else_def version construct_def io_run)
  with d3 show ?thesis by blast
qed

text \<open>
  C17: An open DrawBridge stays consistent through every call, however it ends: the drive type it
  reports is the one of the density in force, and the head is on one of its 84 cylinders.
\<close>

theorem db_stays_consistent:
  assumes "db_open feats L port config w = Some (Inr (T, d0), w')"
    and "(device_step (db_device T))\<^sup>*\<^sup>* d0 d"
  shows "db_consistent d"
proof -
  note start = db_open_ok [OF assms(1)]
  from assms(2) have "db_density_ok d"
    by (induction rule: rtranclp_induct) (use start db_step_density in blast)+
  moreover have "db_limit d = 84" using drawbridge.steps_limit [OF assms(2)] start by simp
  moreover have "db_cylinder d < db_limit d" using drawbridge.steps_in_range [OF assms(2)] start by simp
  ultimately show ?thesis by (simp add: db_consistent_def db_density_ok_def db_position_defs)
qed

theorem db_stays_consistent_witness:
  "\<exists>d0 d w'. db_open demo_features (scripted_lib 2 [] (\<lambda>_. [])) (PortId ''COM3'') (config_default demo_features)
     (fresh_port (ascii_bytes ''1V1.8'' @ ascii_bytes ''1112'')) = Some (Inr (scripted 2, d0), w') \<and>
     db_seek (scripted 2) 5 d0 = Some (Inr (), d) \<and> db_consistent d"
proof -
  obtain d0 where d0: "db_open demo_features (scripted_lib 2 [] (\<lambda>_. [])) (PortId ''COM3'')
      (config_default demo_features) (fresh_port (ascii_bytes ''1V1.8'' @ ascii_bytes ''1112'')) =
      Some (Inr (scripted 2, d0), db_world d0)"
    "sim_pending (db_world d0) = ascii_bytes ''2''"
    using demo_db_opens [of "ascii_bytes ''2''"] by (auto simp: ascii_bytes_def)
  have limit: "db_limit d0 = 84" using db_open_ok [OF d0(1)] by simp
  obtain d where d: "db_seek (scripted 2) 5 d0 = Some (Inr (), d)"
    using d0(2) limit
    by (simp add: db_seek_def io_bind_def io_run db_limit_def scripted_db_send ascii_bytes_def
        scripted_db_byte [where rest = "[]"] db_set_status_def)
  then have "device_step (db_device (scripted 2)) d0 d" by (intro device_step.seek) (simp add: db_device_def)
  then show ?thesis using db_stays_consistent [OF d0(1), of d] d0(1) d by blast
qed

end
