(* ===== verification/SuperCard_Codec.thy ===== *)
theory SuperCard_Codec
  imports Stream_Window Flux_Join
begin

text \<open>
  The SuperCard Pro's bytes (\<^verbatim>\<open>src/device/supercard_pro.rs\<close>): packets and
  responses, the stream of 8-bit flux counters it sends and the 16-bit counters it is sent.
\<close>

section \<open>Commands and responses\<close>

datatype scp_command =
    SelectA | SelectB | DeselectA | DeselectB | MotorAOn | MotorBOn | MotorAOff | MotorBOff
  | SeekZero | StepTo | StepOut | SideCommand | StatusCommand | SetParams | WriteFlux | LoadRamUsb
  | StartStream | StopStream | Info

fun scp_code :: "scp_command \<Rightarrow> u8" where
  "scp_code SelectA = 0x80"
| "scp_code SelectB = 0x81"
| "scp_code DeselectA = 0x82"
| "scp_code DeselectB = 0x83"
| "scp_code MotorAOn = 0x84"
| "scp_code MotorBOn = 0x85"
| "scp_code MotorAOff = 0x86"
| "scp_code MotorBOff = 0x87"
| "scp_code SeekZero = 0x88"
| "scp_code StepTo = 0x89"
| "scp_code StepOut = 0x8b"
| "scp_code SideCommand = 0x8d"
| "scp_code StatusCommand = 0x8e"
| "scp_code SetParams = 0x91"
| "scp_code WriteFlux = 0xa2"
| "scp_code LoadRamUsb = 0xaa"
| "scp_code StartStream = 0xae"
| "scp_code StopStream = 0xaf"
| "scp_code Info = 0xd0"

definition RESPONSE_OK :: u8 where "RESPONSE_OK = 0x4f"
definition RESPONSE_WRITE_PROTECTED :: u8 where "RESPONSE_WRITE_PROTECTED = 0x0f"
definition RESPONSE_NO_DISK :: u8 where "RESPONSE_NO_DISK = 0x11"
definition RESPONSE_NOT_READY :: u8 where "RESPONSE_NOT_READY = 0x08"
definition RESPONSE_OVERRUN :: u8 where "RESPONSE_OVERRUN = 0x15"

lemmas response_defs = RESPONSE_OK_def RESPONSE_WRITE_PROTECTED_def RESPONSE_NO_DISK_def
  RESPONSE_NOT_READY_def RESPONSE_OVERRUN_def

definition scp_map_response :: "u8 \<Rightarrow> unit result" where
  "scp_map_response response =
     (if response = RESPONSE_OK then Inr ()
      else if response = RESPONSE_WRITE_PROTECTED then Inl WriteProtected
      else if response = RESPONSE_NO_DISK \<or> response = RESPONSE_NOT_READY
      then Inl (Timeout ''SuperCard Pro disk ready'')
      else if response = RESPONSE_OVERRUN then Inl (Protocol ''SuperCard Pro buffer overrun'')
      else Inl (Protocol (''SuperCard Pro returned response '' @ hex_byte response)))"

definition scp_packet :: "scp_command \<Rightarrow> u8 list \<Rightarrow> u8 list result" where
  "scp_packet command payload =
     (case try_u8 (length payload) of
        None \<Rightarrow> Inl (InvalidConfig ''SuperCard Pro command payload too long'')
      | Some payload_len \<Rightarrow>
          (let packet = scp_code command # payload_len # payload
           in Inr (packet @ [fold (\<lambda>value sum. sum + value) packet 0x4a])))"

text \<open>\<^verbatim>\<open>u32::to_be_bytes\<close>.\<close>

definition be32 :: "u32 \<Rightarrow> u8 list" where
  "be32 w = [ucast (drop_bit 24 w), ucast (drop_bit 16 w), ucast (drop_bit 8 w), ucast w]"

section \<open>The stream it sends\<close>

text \<open>The variables of the loop of \<^verbatim>\<open>read_stream\<close>.\<close>

record scp_stream =
  ss_events :: "flux_event list"
  ss_ticks :: u32
  ss_index :: bool
  ss_saw_ff :: bool
  ss_indices :: u8
  ss_duration :: u64

definition scp_stream_start :: scp_stream where
  "scp_stream_start =
     \<lparr>ss_events = [], ss_ticks = 0, ss_index = False, ss_saw_ff = False, ss_indices = 0, ss_duration = 0\<rparr>"

definition scp_target_duration :: "read_mode \<Rightarrow> u64" where
  "scp_target_duration mode = (if mode = Normal then 260000000 else 0xFFFFFFFFFFFFFFFF)"

definition scp_resolution :: "bool \<Rightarrow> u32" where
  "scp_resolution high = (if high then 100 else 50)"

text \<open>The flag tells that the loop ends with this byte.\<close>

definition scp_interval :: "read_mode \<Rightarrow> bool \<Rightarrow> u8 \<Rightarrow> scp_stream \<Rightarrow> scp_stream \<times> bool" where
  "scp_interval mode high byte s =
     (let ticks = sat_add32 (ss_ticks s) (ucast byte);
          nanoseconds = sat_mul32 ticks (scp_resolution high);
          duration = sat_add64 (ss_duration s) (ucast nanoseconds)
      in (s\<lparr>ss_events := ss_events s @ [\<lparr>fe_nanoseconds = nanoseconds, fe_index = ss_index s\<rparr>],
           ss_ticks := 0, ss_index := False, ss_duration := duration\<rparr>,
          duration \<ge> scp_target_duration mode))"

definition scp_feed :: "read_mode \<Rightarrow> bool \<Rightarrow> u8 \<Rightarrow> scp_stream \<Rightarrow> scp_stream \<times> bool" where
  "scp_feed mode high byte s =
     (if ss_saw_ff s then
        let s = s\<lparr>ss_saw_ff := False\<rparr> in
        if byte = 0 then
          let indices = sat_add8 (ss_indices s) 1;
              s = s\<lparr>ss_indices := indices\<rparr> in
          if indices \<ge> 2 \<and> mode \<noteq> Normal then (s, True) else (s\<lparr>ss_index := True\<rparr>, False)
        else scp_interval mode high byte s
      else if byte = 0xff then (s\<lparr>ss_saw_ff := True\<rparr>, False)
      else if byte = 0 then (s\<lparr>ss_ticks := sat_add32 (ss_ticks s) 256\<rparr>, False)
      else scp_interval mode high byte s)"

text \<open>The bytes after the stop command, read through a window of four.\<close>

definition scp_stop_verdict :: "u8 list \<Rightarrow> error + unit option" where
  "scp_stop_verdict window =
     (if take 3 window = [0xde, 0xad, scp_code StopStream] then
        if window ! 3 = RESPONSE_OK then Inr (Some ())
        else if window ! 3 = RESPONSE_OVERRUN then Inl (Protocol ''SuperCard Pro stream buffer overrun'')
        else (case scp_map_response (window ! 3) of Inl e \<Rightarrow> Inl e | Inr _ \<Rightarrow> Inr None)
      else Inr None)"

section \<open>The stream it is sent\<close>

text \<open>
  A zero counter stands for 65536 ticks and lets the interval go on. The sums are those of the
  code; that the first never overflows is a lemma below.
\<close>

definition scp_ticks :: "u32 \<Rightarrow> u32 \<Rightarrow> u32" where
  "scp_ticks resolution nanoseconds = (nanoseconds + resolution div 2) div resolution"

function scp_split :: "u32 \<Rightarrow> u8 list \<times> u32 \<Rightarrow> u8 list \<times> u32" where
  "scp_split ticks (encoded, entries) =
     (if ticks > 0xffff then scp_split (ticks - 0x10000) (encoded @ be16 0, sat_add32 entries 1)
      else (encoded @ be16 (ucast ticks), sat_add32 entries 1))"
  by pat_completeness auto
termination
proof (relation "measure (\<lambda>(ticks, _). unat ticks)", goal_cases)
  case (2 ticks encoded entries)
  then have "0x10000 \<le> ticks" by (simp add: word_less_nat_alt word_le_nat_alt)
  then have "unat (ticks - 0x10000) = unat ticks - 65536" "65536 \<le> unat ticks"
    by (simp_all add: unat_sub word_le_nat_alt)
  then show ?case by simp
qed simp

declare scp_split.simps [simp del]

fun scp_encode :: "u32 \<Rightarrow> u32 list \<Rightarrow> u8 list \<times> u32 \<Rightarrow> u8 list \<times> u32" where
  "scp_encode resolution [] s = s"
| "scp_encode resolution (nanoseconds # timings) s =
     scp_encode resolution timings (scp_split (scp_ticks resolution nanoseconds) s)"

section \<open>Reading it back\<close>

text \<open>The intervals a list of 16-bit counters stands for, in ticks.\<close>

fun scp_decode :: "nat \<Rightarrow> u8 list \<Rightarrow> nat list" where
  "scp_decode ticks (high # low # bytes) =
     (let counter = unat high * 256 + unat low in
      if counter = 0 then scp_decode (ticks + 65536) bytes
      else (ticks + counter) # scp_decode 0 bytes)"
| "scp_decode ticks _ = []"

definition scp_counters :: "nat \<Rightarrow> u8 list" where
  "scp_counters ticks = concat (replicate (ticks div 65536) (be16 0)) @ be16 (of_nat (ticks mod 65536))"

lemma scp_split_counters:
  "scp_split ticks (encoded, entries) =
     (encoded @ scp_counters (unat ticks), snd (scp_split ticks (encoded, entries))) \<and>
   unat (snd (scp_split ticks (encoded, entries))) = min (unat entries + unat ticks div 65536 + 1) (2 ^ 32 - 1)"
proof (induction ticks "(encoded, entries)" arbitrary: encoded entries rule: scp_split.induct)
  case (1 ticks encoded entries)
  show ?case
  proof (cases "ticks > 0xffff")
    case True
    then have "0x10000 \<le> ticks" by (simp add: word_less_nat_alt word_le_nat_alt)
    then have less: "unat (ticks - 0x10000) = unat ticks - 65536" "65536 \<le> unat ticks"
      by (simp_all add: unat_sub word_le_nat_alt)
    then have "unat ticks = (unat ticks - 65536) + 65536" by simp
    then have "scp_counters (unat ticks) = be16 0 @ scp_counters (unat ticks - 65536)"
      "unat ticks div 65536 = Suc ((unat ticks - 65536) div 65536)"
      by (metis (no_types) scp_counters_def add.commute append.assoc concat.simps(2) div_add_self2 mod_add_self2
          replicate_Suc Suc_eq_plus1 zero_neq_numeral, metis (no_types) Suc_eq_plus1 div_add_self2 zero_neq_numeral)
    then show ?thesis
      using 1 [OF True] True less by (simp add: scp_split.simps [of ticks] unat_sat_add32 min_def)
  next
    case False
    then have "unat ticks < 65536" by (simp add: word_less_nat_alt)
    moreover have "ucast ticks = (of_nat (unat ticks) :: u16)" by (simp add: of_nat_unat)
    ultimately show ?thesis
      using False by (simp add: scp_split.simps [of ticks] scp_counters_def unat_sat_add32)
  qed
qed

lemma scp_encode_counters:
  "fst (scp_encode resolution timings (encoded, entries)) =
     encoded @ concat (map scp_counters (map (\<lambda>ns. unat (scp_ticks resolution ns)) timings))"
  "unat (snd (scp_encode resolution timings (encoded, entries))) =
     min (unat entries + sum_list (map (\<lambda>t. t div 65536 + 1) (map (\<lambda>ns. unat (scp_ticks resolution ns)) timings))) (2 ^ 32 - 1)"
proof -
  have "fst (scp_encode resolution timings (encoded, entries)) =
     encoded @ concat (map scp_counters (map (\<lambda>ns. unat (scp_ticks resolution ns)) timings)) \<and>
   unat (snd (scp_encode resolution timings (encoded, entries))) =
     min (unat entries + sum_list (map (\<lambda>t. t div 65536 + 1) (map (\<lambda>ns. unat (scp_ticks resolution ns)) timings))) (2 ^ 32 - 1)"
  proof (induction timings arbitrary: encoded entries)
    case (Cons ns timings)
    obtain enc e where s: "scp_split (scp_ticks resolution ns) (encoded, entries) = (enc, e)" by fastforce
    then have "enc = encoded @ scp_counters (unat (scp_ticks resolution ns))"
      "unat e = min (unat entries + unat (scp_ticks resolution ns) div 65536 + 1) (2 ^ 32 - 1)"
      using scp_split_counters [of "scp_ticks resolution ns" encoded entries] by simp_all
    then show ?case using Cons [of enc e] s by (simp add: min_def)
  next
    case Nil
    then show ?case using unat_bound [of entries] by simp
  qed
  then show "fst (scp_encode resolution timings (encoded, entries)) =
     encoded @ concat (map scp_counters (map (\<lambda>ns. unat (scp_ticks resolution ns)) timings))"
   "unat (snd (scp_encode resolution timings (encoded, entries))) =
     min (unat entries + sum_list (map (\<lambda>t. t div 65536 + 1) (map (\<lambda>ns. unat (scp_ticks resolution ns)) timings))) (2 ^ 32 - 1)"
    by simp_all
qed

lemma be16_bytes: "unat (be16 w ! 0) * 256 + unat (be16 w ! 1) = unat w"
proof -
  have "unat w < 65536" using unat_bound [of w] by simp
  then show ?thesis
    by (simp add: be16_def unsigned_ucast_eq take_bit_eq_mod unat_drop_bit_eq drop_bit_eq_div unat_div_distrib less_mult_imp_div_less)
qed

lemma scp_decode_counters:
  assumes "ticks mod 65536 \<noteq> 0"
  shows "scp_decode from (scp_counters ticks @ bytes) = (from + ticks) # scp_decode 0 bytes"
proof -
  have zeros: "scp_decode a (concat (replicate m (be16 0)) @ bytes) = scp_decode (a + 65536 * m) bytes" for a m bytes
    by (induction m arbitrary: a) (simp_all add: be16_def algebra_simps)
  have one: "unat w \<noteq> 0 \<Longrightarrow> scp_decode a (be16 w @ bytes) = (a + unat w) # scp_decode 0 bytes" for a w
    using be16_bytes [of w] by (simp add: be16_def Let_def)
  have "unat (of_nat (ticks mod 65536) :: u16) = ticks mod 65536"
    by (simp add: unat_of_nat)
  then show ?thesis using assms by (simp add: scp_counters_def zeros one)
qed

lemma scp_decode_encoded:
  "\<forall>t \<in> set ticks. t mod 65536 \<noteq> 0 \<Longrightarrow> scp_decode 0 (concat (map scp_counters ticks)) = ticks"
proof (induction ticks)
  case (Cons t ticks)
  then show ?case using scp_decode_counters [of t 0] by simp
qed simp

lemma length_scp_counters: "length (scp_counters ticks) = 2 * (ticks div 65536 + 1)"
proof -
  have "length (concat (replicate m (be16 0))) = 2 * m" for m by (induction m) (simp_all add: be16_def)
  then show ?thesis by (simp add: scp_counters_def be16_def)
qed

lemma scp_ticks_exact:
  assumes "unat nanoseconds = k * q * unat resolution" and "0 < unat resolution"
    and "k * q * unat resolution + unat resolution < 2 ^ 32"
  shows "unat (scp_ticks resolution nanoseconds) = k * q"
proof -
  have half: "unat (resolution div 2) = unat resolution div 2" by (simp add: unat_div_distrib)
  then have "unat (nanoseconds + resolution div 2) = k * q * unat resolution + unat resolution div 2"
    using assms(1,3) by (simp add: unat_word_ariths)
  then have "unat (scp_ticks resolution nanoseconds) = (k * q * unat resolution + unat resolution div 2) div unat resolution"
    by (simp add: scp_ticks_def unat_div_distrib)
  then show ?thesis using assms(2) by simp
qed

lemma length_counters: "length (concat (map scp_counters ticks)) = 2 * sum_list (map (\<lambda>t. t div 65536 + 1) ticks)"
  by (induction ticks) (simp_all add: length_scp_counters)

lemma gap_not_whole:
  assumes q: "q = 20 \<or> q = (80 :: nat)" and k: "0 < k" "k < 4096"
  shows "k * q mod 65536 \<noteq> 0"
proof
  assume "k * q mod 65536 = 0"
  then obtain m where "k * q = 65536 * m" by (auto elim: dvdE simp: mod_eq_0_iff_dvd)
  then obtain m where "k * 5 = 4096 * m"
    using q that [of "4 * m"] that [of m] by (elim disjE) simp_all
  then have "k = 4096 * (k - 819 * m)" by arith
  then show False using k by (cases "k - 819 * m") simp_all
qed

lemma entries_bound:
  assumes q: "q = 20 \<or> q = (80 :: nat)" and "\<And>k. k \<in> set runs \<Longrightarrow> 0 < k"
  shows "sum_list (map (\<lambda>k. k * q div 65536 + 1) runs) \<le> 2 * sum_list runs"
proof -
  have "k * q div 65536 + 1 \<le> 2 * k" if "k \<in> set runs" for k
  proof -
    have "k * q div 65536 \<le> k * 80 div 65536" using q by (intro div_le_mono) auto
    also have "\<dots> \<le> k" by simp
    finally show ?thesis using assms(2) [OF that] by simp
  qed
  then have "sum_list (map (\<lambda>k. k * q div 65536 + 1) runs) \<le> sum_list (map (\<lambda>k. 2 * k) runs)"
    by (rule sum_list_mono)
  then show ?thesis by (simp add: sum_list_const_mult)
qed

definition scp_cell :: "bool \<Rightarrow> u32" where
  "scp_cell high = (if high then 1000 else 2000)"

definition scp_tick :: "bool \<Rightarrow> u32" where
  "scp_tick high = (if high then 50 else 25)"

text \<open>
  C21: The flux stream a track write loads into the SuperCard Pro, read back as its firmware reads
  it, is exactly the distances between the transitions of the track, and the number of entries
  the write command announces is the number of counters loaded; provided that the track has no
  gap of 4096 cells without a transition. The rounding never overflows on a track that fits.
\<close>

theorem scp_flux_roundtrip:
  assumes "0 < n" and "n \<le> length words * 16" and "n \<le> MAX_TRACK_BITS"
    and gaps: "\<forall>k \<in> set (cell_runs 0 (unpack words n)). k < 4096"
  shows "\<exists>timings encoded entries. mfm_to_flux words n (scp_cell high) = Inr timings \<and>
    scp_encode (scp_tick high) timings ([], 0) = (encoded, entries) \<and>
    map (\<lambda>ticks. ticks * unat (scp_tick high)) (scp_decode 0 encoded) =
      map (\<lambda>k. k * unat (scp_cell high)) (cell_runs 0 (unpack words n)) \<and>
    length encoded = 2 * unat entries"
proof -
  let ?runs = "cell_runs 0 (unpack words n)"
  define q :: nat where "q = (if high then 20 else 80)"
  have cell: "unat (scp_cell high) = q * unat (scp_tick high)" "0 < unat (scp_tick high)" "unat (scp_tick high) \<le> 50"
      "q * unat (scp_tick high) \<le> 2000" "q = 20 \<or> q = 80"
    by (simp_all add: scp_cell_def scp_tick_def q_def)
  have track: "k \<le> 237568" if "k \<in> set ?runs" for k
    using cell_runs_bound [OF that] assms(3) by (simp add: unpack_def MAX_TRACK_BITS_def)
  have "n * unat (scp_cell high) < 2 ^ 32"
    using assms(3) by (auto simp: scp_cell_def MAX_TRACK_BITS_def)
  from mfm_to_flux_runs [OF assms(1-3) this] obtain timings
    where timings: "mfm_to_flux words n (scp_cell high) = Inr timings"
      "map unat timings = map (\<lambda>k. k * unat (scp_cell high)) ?runs"
    by blast
  have exact: "unat (scp_ticks (scp_tick high) ns) = unat ns div unat (scp_tick high)" if "ns \<in> set timings" for ns
  proof -
    have "unat ns \<in> set (map unat timings)" using that by simp
    then obtain k where k: "k \<in> set ?runs" "unat ns = k * q * unat (scp_tick high)"
      unfolding timings(2) cell(1) by (auto simp: mult.assoc)
    moreover have "k * (q * unat (scp_tick high)) \<le> 237568 * 2000"
      using track [OF k(1)] cell(4) by (rule mult_le_mono)
    ultimately show ?thesis
      using scp_ticks_exact [of ns k q "scp_tick high"] cell(2,3) by (simp add: mult.assoc)
  qed
  have "map (\<lambda>ns. unat (scp_ticks (scp_tick high) ns)) timings = map (\<lambda>m. m div unat (scp_tick high)) (map unat timings)"
    using exact by simp
  also have "\<dots> = map (\<lambda>k. k * q) ?runs"
    using cell(1,2) unfolding timings(2) by (simp flip: mult.assoc)
  finally have ticks: "map (\<lambda>ns. unat (scp_ticks (scp_tick high) ns)) timings = map (\<lambda>k. k * q) ?runs" .
  have small: "\<forall>t \<in> set (map (\<lambda>k. k * q) ?runs). t mod 65536 \<noteq> 0"
    using gaps cell_runs_pos gap_not_whole [OF cell(5)] by auto
  obtain encoded entries where enc: "scp_encode (scp_tick high) timings ([], 0) = (encoded, entries)" by fastforce
  have encoded: "encoded = concat (map scp_counters (map (\<lambda>k. k * q) ?runs))"
    using scp_encode_counters(1) [of "scp_tick high" timings "[]" 0] unfolding enc ticks by simp
  have "length encoded = 2 * sum_list (map (\<lambda>k. k * q div 65536 + 1) ?runs)"
    unfolding encoded length_counters by (simp add: comp_def)
  moreover have "sum_list (map (\<lambda>k. k * q div 65536 + 1) ?runs) \<le> 2 * n"
    using entries_bound [OF cell(5), of ?runs] cell_runs_pos sum_cell_runs [of 0 "unpack words n"] by (simp add: unpack_def)
  then have "sum_list (map (\<lambda>k. k * q div 65536 + 1) ?runs) \<le> 2 ^ 32 - 1"
    by (rule order_trans) (use assms(3) in \<open>simp add: MAX_TRACK_BITS_def\<close>)
  moreover have "unat entries = min (sum_list (map (\<lambda>k. k * q div 65536 + 1) ?runs)) (2 ^ 32 - 1)"
    using scp_encode_counters(2) [of "scp_tick high" timings "[]" 0] unfolding enc ticks by (simp add: comp_def)
  ultimately have "length encoded = 2 * unat entries" by simp
  moreover have "scp_decode 0 encoded = map (\<lambda>k. k * q) ?runs" unfolding encoded by (rule scp_decode_encoded [OF small])
  ultimately show ?thesis using timings(1) enc cell(1) by (auto simp: mult.assoc)
qed

theorem scp_flux_roundtrip_witness:
  "\<exists>timings encoded entries. mfm_to_flux [0x9000] 6 2000 = Inr timings \<and>
     scp_encode 25 timings ([], 0) = (encoded, entries) \<and>
     map (\<lambda>ticks. ticks * 25) (scp_decode 0 encoded) = [2000, 6000, 4000] \<and> length encoded = 2 * unat entries"
proof -
  have "cell_runs 0 (unpack [0x9000] 6) = [1, 3, 2]" by code_simp
  then show ?thesis
    using scp_flux_roundtrip [of 6 "[0x9000]" False] by (simp add: scp_cell_def scp_tick_def MAX_TRACK_BITS_def)
qed

section \<open>Immediate reads of high-density disks\<close>

fun scp_feed_all :: "read_mode \<Rightarrow> bool \<Rightarrow> u8 list \<Rightarrow> scp_stream \<Rightarrow> scp_stream \<times> bool" where
  "scp_feed_all mode high [] s = (s, False)"
| "scp_feed_all mode high (byte # bytes) s =
     (case scp_feed mode high byte s of
        (s', complete) \<Rightarrow> if complete then (s', True) else scp_feed_all mode high bytes s')"

definition stream_ns :: "scp_stream \<Rightarrow> nat" where
  "stream_ns s = sum_list (map (\<lambda>e. unat (fe_nanoseconds e)) (ss_events s))"

text \<open>An immediate read goes on until 260 ms have passed on the clock its intervals are scaled to.\<close>

definition immediate :: "scp_stream \<Rightarrow> bool" where
  "immediate s \<longleftrightarrow> unat (ss_duration s) = stream_ns s \<and> stream_ns s < 260000000"

lemma immediate_feed:
  assumes "immediate s" and "scp_feed Normal high byte s = (s', complete)"
  shows "if complete then ss_events s' \<noteq> [] \<and>
      stream_ns s' < 260000000 + unat (fe_nanoseconds (last (ss_events s'))) else immediate s'"
proof -
  have interval: "if complete then ss_events s' \<noteq> [] \<and>
      stream_ns s' < 260000000 + unat (fe_nanoseconds (last (ss_events s'))) else immediate s'"
    if "scp_interval Normal high byte s = (s', complete)" "immediate s" for s
  proof -
    let ?ns = "sat_mul32 (sat_add32 (ss_ticks s) (ucast byte)) (scp_resolution high)"
    have "unat (ucast ?ns :: u64) = unat ?ns" "unat ?ns < 2 ^ 32"
      using unat_bound [of ?ns] by (simp_all add: unsigned_ucast_eq take_bit_nat_eq_self)
    then have "unat (sat_add64 (ss_duration s) (ucast ?ns)) = stream_ns s + unat ?ns"
      using that(2) by (simp add: immediate_def unat_sat_add64)
    then show ?thesis
      using that by (auto simp: scp_interval_def Let_def immediate_def stream_ns_def scp_target_duration_def
          word_le_nat_alt)
  qed
  consider "\<not> complete" "ss_events s' = ss_events s" "ss_duration s' = ss_duration s"
    | s0 where "scp_interval Normal high byte s0 = (s', complete)" "immediate s0"
    using assms by (auto simp: scp_feed_def Let_def immediate_def stream_ns_def split: if_splits)
  then show ?thesis
  proof cases
    case 1
    then show ?thesis using assms(1) by (simp add: immediate_def stream_ns_def)
  next
    case 2
    then show ?thesis by (rule interval)
  qed
qed

lemma immediate_feed_all:
  "immediate s \<Longrightarrow> scp_feed_all Normal high bytes s = (s', True) \<Longrightarrow>
     ss_events s' \<noteq> [] \<and> stream_ns s' < 260000000 + unat (fe_nanoseconds (last (ss_events s')))"
proof (induction bytes arbitrary: s)
  case (Cons byte bytes)
  then show ?case using immediate_feed [OF Cons.prems(1)] by (fastforce split: prod.splits if_splits)
qed simp

text \<open>
  How many cells a decoder can make of the flux: a cell takes at least the shortest clock period,
  but for a quarter of one at each transition, where half the phase mismatch is kept.
\<close>

lemma pll_submit_rate:
  assumes inv: "pll_inv p" and run: "pll_submit n (p, out) = (p', out')"
  shows "7200 * int (length out') + 4 * pending_ns p' \<le> 7200 * int (length out) + 4 * pending_ns p + 4 * uint n + 1807"
proof (cases "pending_ns p + uint n < clock_ns p div 2")
  case True
  then show ?thesis using run by (auto simp: pll_submit_short inv)
next
  case False
  let ?c = "clock_ns p" and ?t = "pending_ns p + uint n"
  have c: "1800 \<le> ?c" using inv by (simp add: pll_inv_def clock_defs)
  obtain z where z: "0 \<le> z" "z * ?c \<le> ?t - ?c div 2"
    "p' = p\<lparr>clock_ns := next_clock ?c z (?t - (z + 1) * ?c), pending_ns := (?t - (z + 1) * ?c) sdiv 2\<rparr>"
    "out' = out @ replicate (nat z) False @ [True]"
    using pll_submit_cell [OF inv False, of out] run by (metis Pair_inject)
  define r where "r = ?t - (z + 1) * ?c"
  have "zc \<le> t - h \<Longrightarrow> c - 1 \<le> 2 * h \<Longrightarrow> - (c + 1) \<le> 2 * (t - (zc + c))" for zc t h c :: int
    by (simp add: algebra_simps)
  from this [OF z(2)] have low: "- (?c + 1) \<le> 2 * r" by (simp add: r_def distrib_right)
  have half: "pending_ns p' = r sdiv 2" using z(3) by (simp add: r_def)
  have "2 * (r sdiv 2) - 1 \<le> r \<and> - (?c + 1) \<le> 4 * (r sdiv 2) + 2"
  proof (cases "0 \<le> r")
    case True
    then have "r sdiv 2 = r div 2" "0 \<le> r div 2" "2 * (r div 2) \<le> r" by (simp_all add: sdiv_nonneg)
    then show ?thesis using c by simp
  next
    case False
    then have "r sdiv 2 = - ((- r) div 2)" by (simp add: signed_divide_int_def sgn_if)
    moreover have "2 * ((- r) div 2) \<le> - r" "- r \<le> 2 * ((- r) div 2) + 1" by presburger+
    ultimately show ?thesis using low by simp
  qed
  then have "4 * (?t - r) \<le> 4 * ?t - 4 * (r sdiv 2) + ?c + 7" by simp
  moreover have "?t - r = (z + 1) * ?c" by (simp add: r_def)
  ultimately have "4 * ((z + 1) * ?c) \<le> 4 * ?t - 4 * (r sdiv 2) + ?c + 7" by (simp only:)
  moreover have "(4 * z + 3) * 1800 \<le> (4 * z + 3) * ?c" using c z(1) by (intro mult_left_mono) simp_all
  ultimately have "(4 * z + 3) * 1800 \<le> 4 * ?t - 4 * (r sdiv 2) + 7" by (simp add: algebra_simps)
  moreover have "int (length out') = int (length out) + z + 1" using z(1,4) by simp
  ultimately show ?thesis using half by simp
qed

definition flux_budget :: "flux_event list \<Rightarrow> int" where
  "flux_budget es = sum_list (map (\<lambda>e. 4 * uint (fe_nanoseconds e) + 1807) es)"

lemma flux_budget_nonneg: "0 \<le> flux_budget es"
  unfolding flux_budget_def by (intro sum_list_nonneg) auto

lemma unaligned_rate:
  assumes "pll_inv p"
    and "7200 * int (length out) + 4 * pending_ns p + flux_budget es + 2200 \<le> 7200 * int limit"
    and "limit \<le> MAX_TRACK_BITS"
  shows "\<exists>bits. unaligned_loop es (p, out) = Inr bits \<and> length bits \<le> limit"
  using assms(1,2)
proof (induction es arbitrary: p out)
  case Nil
  then show ?case by (simp add: pll_inv_def flux_budget_def)
next
  case (Cons e es)
  obtain p' out' where run: "pll_submit (fe_nanoseconds e) (p, out) = (p', out')" by fastforce
  have inv: "pll_inv p'" by (rule pll_submit_inv [OF Cons.prems(1) run])
  have budget: "7200 * int (length out') + 4 * pending_ns p' + flux_budget es + 2200 \<le> 7200 * int limit"
    using pll_submit_rate [OF Cons.prems(1) run] Cons.prems(2) by (simp add: flux_budget_def)
  then have "int (length out') \<le> int limit"
    using flux_budget_nonneg [of es] inv by (simp add: pll_inv_def)
  then have "length out' \<le> MAX_TRACK_BITS" using assms(3) by linarith
  then show ?case using Cons.IH [OF inv budget] run by simp
qed

text \<open>
  The flux of a disk: transitions at least 1.55 cells of two microseconds apart, where the
  encoding has two at least, and at most a thousand.
\<close>

definition disk_flux :: "flux_event list \<Rightarrow> bool" where
  "disk_flux events \<longleftrightarrow>
     (\<forall>e \<in> set events. 3100 \<le> unat (fe_nanoseconds e) \<and> unat (fe_nanoseconds e) \<le> 2000000)"

lemma int_sum_list: "int (sum_list (map f xs)) = (\<Sum>x\<leftarrow>xs. int (f x))"
  by (induction xs) simp_all

lemma disk_flux_budget:
  "disk_flux es \<Longrightarrow> 3100 * flux_budget es \<le> 14207 * (\<Sum>e\<leftarrow>es. int (unat (fe_nanoseconds e)))"
proof (induction es)
  case (Cons e es)
  then have "disk_flux es" "3100 \<le> unat (fe_nanoseconds e)" by (simp_all add: disk_flux_def)
  then have "disk_flux es" "int 3100 \<le> int (unat (fe_nanoseconds e))" unfolding of_nat_le_iff .
  then show ?case using Cons.IH by (simp add: flux_budget_def)
qed (simp add: flux_budget_def)

lemma hd_stream_too_short:
  assumes "scp_feed_all Normal True bytes scp_stream_start = (s, True)" and "disk_flux (ss_events s)"
  shows "flux_to_unaligned_revolution (ss_events s) True =
    Inl (Protocol ''immediate capture is too short to locate a revolution overlap'')"
proof -
  have "immediate scp_stream_start" by (simp add: immediate_def scp_stream_start_def stream_ns_def)
  from immediate_feed_all [OF this assms(1)]
  have "ss_events s \<noteq> []" "stream_ns s < 260000000 + unat (fe_nanoseconds (last (ss_events s)))" by simp_all
  moreover have "unat (fe_nanoseconds (last (ss_events s))) \<le> 2000000"
    using assms(2) last_in_set [OF calculation(1)] by (simp add: disk_flux_def)
  ultimately have ns: "stream_ns s < 262000000" by linarith
  have "int (stream_ns s) = (\<Sum>e\<leftarrow>ss_events s. int (unat (fe_nanoseconds e)))"
    unfolding stream_ns_def by (rule int_sum_list)
  then have "3100 * flux_budget (ss_events s) \<le> 14207 * 262000000"
    using disk_flux_budget [OF assms(2)] ns by linarith
  then have "flux_budget (ss_events s) + 2200 \<le> 7200 * int 167119" by simp
  then obtain bits where "unaligned_loop (ss_events s) (pll_new, []) = Inr bits" "length bits \<le> 167119"
    using unaligned_rate [of pll_new "[]" "ss_events s" 167119]
    by (auto simp: MAX_TRACK_BITS_def pll_new_def pll_inv_new [unfolded pll_new_def])
  then show ?thesis
    by (simp add: flux_to_unaligned_revolution_def bits_to_unaligned_revolution_def Let_def join_lower_def
        join_nominal_def join_reach_def join_defs)
qed

text \<open>A disk whose every gap is a thousand cells: 78 counters of 256 ticks and one of 32.\<close>

definition demo_gap :: "u8 list" where
  "demo_gap = replicate 78 0 @ [32]"

definition demo_gaps :: "nat \<Rightarrow> scp_stream" where
  "demo_gaps m = scp_stream_start\<lparr>ss_events := replicate m \<lparr>fe_nanoseconds = 2000000, fe_index = False\<rparr>,
     ss_duration := of_nat (2000000 * m)\<rparr>"

lemma feed_zeros:
  "\<not> ss_saw_ff s \<Longrightarrow> unat (ss_ticks s) + 256 * n < 2 ^ 32 \<Longrightarrow>
     scp_feed_all mode high (replicate n 0 @ bytes) s =
     scp_feed_all mode high bytes (s\<lparr>ss_ticks := ss_ticks s + of_nat (256 * n)\<rparr>)"
proof (induction n arbitrary: s)
  case (Suc n)
  let ?s = "s\<lparr>ss_ticks := ss_ticks s + 256\<rparr>"
  have "unat (ss_ticks s + 256) = unat (ss_ticks s) + 256" using Suc.prems(2) by (simp add: unat_word_ariths)
  then have "scp_feed_all mode high (replicate n 0 @ bytes) ?s =
     scp_feed_all mode high bytes (?s\<lparr>ss_ticks := ss_ticks ?s + of_nat (256 * n)\<rparr>)"
    using Suc.prems by (intro Suc.IH) simp_all
  moreover have "sat_add32 (ss_ticks s) 256 = ss_ticks s + 256" using Suc.prems(2) by (simp add: sat_add32_def)
  moreover have "(0 :: u8) \<noteq> 0xff" by code_simp
  ultimately show ?case using Suc.prems(1) by (simp add: scp_feed_def algebra_simps)
qed simp

lemma feed_gap:
  assumes "m < 130"
  shows "scp_feed_all Normal True (demo_gap @ bytes) (demo_gaps m) =
    (if Suc m < 130 then scp_feed_all Normal True bytes (demo_gaps (Suc m)) else (demo_gaps (Suc m), True))"
proof -
  have d: "unat (of_nat (2000000 * n) :: u64) = 2000000 * n" if "n \<le> 130" for n
    using that by (simp add: unat_of_nat take_bit_nat_eq_self del: of_nat_mult)
  have "unat (2000000 :: u64) = 2000000" by simp
  then have "sat_add64 (of_nat (2000000 * m)) 2000000 = (of_nat (2000000 * m) + of_nat 2000000 :: u64)"
    using assms d [of m] unfolding sat_add64_def by (simp only:) simp
  then have "sat_add64 (of_nat (2000000 * m)) 2000000 = (of_nat (2000000 * Suc m) :: u64)"
    by (simp only: mult_Suc_right of_nat_add add.commute)
  moreover have "(260000000 :: u64) \<le> of_nat (2000000 * Suc m) \<longleftrightarrow> \<not> Suc m < 130"
    using d [of "Suc m"] assms unfolding word_le_nat_alt by (simp only:) (simp add: not_less)
  moreover have "sat_mul32 (sat_add32 19968 32) 100 = 2000000" by (simp add: sat_mul32_def sat_add32_def)
  ultimately show ?thesis
    unfolding demo_gap_def append.assoc
    by (subst feed_zeros) (simp_all add: demo_gaps_def scp_stream_start_def scp_feed_def scp_interval_def Let_def
        scp_resolution_def scp_target_duration_def replicate_append_same del: of_nat_Suc of_nat_mult)
qed

lemma feed_gaps: "m + n < 130 \<Longrightarrow> scp_feed_all Normal True (concat (replicate n demo_gap) @ bytes) (demo_gaps m) =
    scp_feed_all Normal True bytes (demo_gaps (m + n))"
  by (induction n arbitrary: m) (simp_all add: feed_gap)

lemma demo_gaps_run: "scp_feed_all Normal True (concat (replicate 130 demo_gap)) scp_stream_start = (demo_gaps 130, True)"
proof -
  have "concat (replicate 130 demo_gap) = concat (replicate (129 + 1) demo_gap)" by simp
  also have "\<dots> = concat (replicate 129 demo_gap) @ demo_gap @ []"
    unfolding replicate_add concat_append by simp
  finally have "concat (replicate 130 demo_gap) = concat (replicate 129 demo_gap) @ demo_gap @ []" .
  moreover have "scp_stream_start = demo_gaps 0" by (simp add: demo_gaps_def scp_stream_start_def)
  ultimately show ?thesis using feed_gaps [of 0 129 "demo_gap @ []"] feed_gap [of 129 "[]"] by simp
qed

lemma demo_gaps_flux: "disk_flux (ss_events (demo_gaps 130))"
  by (simp add: disk_flux_def demo_gaps_def)

end
