(* ===== verification/SuperCard_Device.thy ===== *)
theory SuperCard_Device
  imports SuperCard_Codec "HOL-Library.Product_Lexorder"
begin

text \<open>
  The SuperCard Pro backend (\<^verbatim>\<open>src/device/supercard_pro.rs\<close>) over a transport
  \<open>T\<close>.
\<close>

section \<open>The device\<close>

definition SCP_BAUD :: u32 where "SCP_BAUD = 9600"
definition SCP_COMMAND_TIMEOUT :: nat where "SCP_COMMAND_TIMEOUT = secs 2"
definition SCP_STREAM_TIMEOUT :: nat where "SCP_STREAM_TIMEOUT = secs 3"
definition SCP_MAX_STREAM_BYTES :: nat where "SCP_MAX_STREAM_BYTES = 2 ^ 20"

record 'w supercard =
  sc_world :: 'w
  sc_port :: port_id
  sc_status :: drive_status
  sc_drive_a :: bool
  sc_selected :: bool
  sc_high_density :: bool

definition scp_link :: "('w, 'a) io \<Rightarrow> ('w supercard, 'a) io" where
  "scp_link m = io_zoom sc_world (\<lambda>w d. d\<lparr>sc_world := w\<rparr>) m"

definition scp_set_status :: "(drive_status \<Rightarrow> drive_status) \<Rightarrow> ('w supercard, unit) io" where
  "scp_set_status f = io_modify (\<lambda>d. d\<lparr>sc_status := f (sc_status d)\<rparr>)"

section \<open>Commands\<close>

definition scp_exchange :: "'w transport \<Rightarrow> scp_command \<Rightarrow> u8 list \<Rightarrow> ('w, u8) io" where
  "scp_exchange T command packet =
     io_bind (operation_deadline T) (\<lambda>deadline.
       io_then (write_all_until T packet deadline ''SuperCard Pro command'')
        (io_bind (read_exact_until T 2 deadline ''SuperCard Pro acknowledgement'') (\<lambda>response.
          if response ! 0 \<noteq> scp_code command
          then io_throw (Protocol (''SuperCard Pro replied to command '' @ hex_byte (response ! 0) @
                 '' while '' @ hex_byte (scp_code command) @ '' was pending''))
          else io_return (response ! 1))))"

definition scp_raw_command :: "'w transport \<Rightarrow> scp_command \<Rightarrow> u8 list \<Rightarrow> ('w supercard, u8) io" where
  "scp_raw_command T command payload =
     io_bind (io_result (scp_packet command payload)) (\<lambda>packet. scp_link (scp_exchange T command packet))"

definition scp_run_command ::
  "'w transport \<Rightarrow> scp_command \<Rightarrow> u8 list \<Rightarrow> nat \<Rightarrow> ('w supercard, u8 list) io" where
  "scp_run_command T command payload extra =
     io_bind (scp_raw_command T command payload) (\<lambda>response.
       io_then (io_result (scp_map_response response))
        (if extra \<noteq> 0
         then scp_link (io_bind (operation_deadline T) (\<lambda>deadline.
                read_exact_until T extra deadline ''SuperCard Pro command payload''))
         else io_return []))"

definition scp_expect_ok :: "'w transport \<Rightarrow> scp_command \<Rightarrow> u8 list \<Rightarrow> ('w supercard, unit) io" where
  "scp_expect_ok T command payload = io_bind (scp_run_command T command payload 0) (\<lambda>_. io_return ())"

definition scp_select_command :: "bool \<Rightarrow> bool \<Rightarrow> scp_command" where
  "scp_select_command drive_a selected =
     (if selected then if drive_a then SelectA else SelectB
      else if drive_a then DeselectA else DeselectB)"

definition scp_select :: "'w transport \<Rightarrow> bool \<Rightarrow> ('w supercard, unit) io" where
  "scp_select T selected =
     io_bind (io_gets id) (\<lambda>d.
       if selected = sc_selected d then io_return ()
       else io_then (scp_expect_ok T (scp_select_command (sc_drive_a d) selected) [])
         (io_modify (sc_selected_update (\<lambda>_. selected))))"

text \<open>Deselecting when the motor is off, as several operations do at their end.\<close>

definition scp_idle :: "'w transport \<Rightarrow> ('w supercard, unit) io" where
  "scp_idle T =
     io_bind (io_gets (\<lambda>d. ds_motor_running (sc_status d))) (\<lambda>running.
       io_when (\<not> running) (scp_select T False))"

text \<open>\<^verbatim>\<open>u16::from_be_bytes\<close>.\<close>

definition of_be16 :: "u8 \<Rightarrow> u8 \<Rightarrow> u16" where
  "of_be16 high low = push_bit 8 (ucast high) OR ucast low"

definition scp_check_pins :: "'w transport \<Rightarrow> ('w supercard, unit) io" where
  "scp_check_pins T =
     io_bind (io_gets (\<lambda>d. \<not> ds_motor_running (sc_status d))) (\<lambda>deselect.
       io_then (scp_select T True)
        (io_bind (scp_run_command T StatusCommand [] 2) (\<lambda>bytes.
          let status = of_be16 (bytes ! 0) (bytes ! 1) in
          io_then (scp_set_status (\<lambda>s. s\<lparr>ds_write_protected := (status AND 2 ^ 7 = 0),
              ds_disk_present := (status AND 2 ^ 6 \<noteq> 0)\<rparr>))
            (io_when deselect (scp_select T False)))))"

section \<open>Reading\<close>

function scp_stream_loop ::
  "'w transport \<Rightarrow> nat \<Rightarrow> read_mode \<Rightarrow> bool \<Rightarrow> nat \<Rightarrow> scp_stream \<Rightarrow> ('w, flux_event list) io" where
  "scp_stream_loop T deadline mode high bytes_seen s =
     (if bytes_seen \<ge> SCP_MAX_STREAM_BYTES
      then io_throw (TrackTooLarge (bytes_seen * 8) (SCP_MAX_STREAM_BYTES * 8))
      else io_bind (read_byte_until T deadline ''SuperCard Pro flux stream'') (\<lambda>byte.
        case scp_feed mode high byte s of
          (s, complete) \<Rightarrow>
            if complete then io_return (ss_events s)
            else scp_stream_loop T deadline mode high (Suc bytes_seen) s))"
  by pat_completeness auto
termination
  by (relation "measure (\<lambda>(_, _, _, _, bytes_seen, _). SCP_MAX_STREAM_BYTES - bytes_seen)") auto

declare scp_stream_loop.simps [simp del]

definition scp_start_verdict :: "u8 \<Rightarrow> ('w supercard, unit) io" where
  "scp_start_verdict response =
     (if response = RESPONSE_OK then io_return ()
      else if response = RESPONSE_NO_DISK \<or> response = RESPONSE_NOT_READY
      then io_then (scp_set_status (ds_disk_present_update (\<lambda>_. False)))
             (io_throw (Timeout ''SuperCard Pro disk ready''))
      else io_result (scp_map_response response))"

definition scp_revolution ::
  "read_mode \<Rightarrow> bool \<Rightarrow> flux_event list \<Rightarrow> (u16 list \<times> nat \<times> bool) result" where
  "scp_revolution mode high events =
     (if mode = Normal
      then (case flux_to_unaligned_revolution events high of
              Inl e \<Rightarrow> Inl e
            | Inr (words, bit_len) \<Rightarrow> Inr (words, bit_len, False))
      else flux_to_revolution events)"

definition scp_read_stream :: "'w transport \<Rightarrow> read_mode \<Rightarrow> ('w supercard, raw_capture) io" where
  "scp_read_stream T mode =
     io_then (scp_select T True)
      (io_bind (scp_raw_command T StartStream [0x04 OR 0x02 OR of_bool (mode \<noteq> Normal)]) (\<lambda>response.
        io_then (scp_start_verdict response)
         (io_bind (scp_link (within T SCP_STREAM_TIMEOUT io_return)) (\<lambda>deadline.
           io_bind (io_gets sc_high_density) (\<lambda>high.
             io_bind (scp_link (scp_stream_loop T deadline mode high 0 scp_stream_start)) (\<lambda>events.
               io_bind (io_result (scp_packet StopStream [])) (\<lambda>stop.
                 io_then (scp_link (write_all_until T stop deadline ''SuperCard Pro stop stream''))
                  (io_then (scp_link (await_window T deadline ''SuperCard Pro stop acknowledgement''
                      scp_stop_verdict (replicate 4 0)))
                    (io_then (scp_link (tr_purge T))
                      (io_then (scp_set_status (\<lambda>s. s\<lparr>ds_disk_present := True, ds_ready := True\<rparr>))
                        (io_then (scp_idle T)
                          (io_bind (io_result (scp_revolution mode high events)) (\<lambda>(words, bit_len, index_aligned).
                            let capture = \<lparr>rc_words = words, rc_bit_len = bit_len,
                                           rc_index_aligned = (mode \<noteq> Normal \<and> index_aligned)\<rparr>
                            in io_then (io_result (validate_capture capture)) (io_return capture))))))))))))))"

section \<open>Writing\<close>

definition scp_write_verdict :: "u8 \<Rightarrow> ('w supercard, unit) io" where
  "scp_write_verdict response =
     (if response = RESPONSE_OK then io_return ()
      else if response = RESPONSE_WRITE_PROTECTED
      then io_then (scp_set_status (ds_write_protected_update (\<lambda>_. True))) (io_throw WriteProtected)
      else io_result (scp_map_response response))"

definition scp_load :: "'w transport \<Rightarrow> u8 list \<Rightarrow> u8 list \<Rightarrow> ('w, unit) io" where
  "scp_load T packet encoded =
     within T SCP_STREAM_TIMEOUT (\<lambda>deadline.
       io_then (write_all_until T packet deadline ''SuperCard Pro RAM load command'')
        (io_then (write_all_until T encoded deadline ''SuperCard Pro RAM load'')
          (io_bind (read_exact_until T 2 deadline ''SuperCard Pro RAM load acknowledgement'') (\<lambda>response.
            if response \<noteq> [scp_code LoadRamUsb, RESPONSE_OK]
            then io_throw (Protocol ''SuperCard Pro rejected the flux RAM load'')
            else io_return ()))))"

definition scp_write_stream ::
  "'w transport \<Rightarrow> u16 list \<Rightarrow> nat \<Rightarrow> bool \<Rightarrow> ('w supercard, unit) io" where
  "scp_write_stream T words bit_len from_index =
     io_bind (io_gets sc_high_density) (\<lambda>high.
       io_bind (io_result (mfm_to_flux words bit_len (scp_cell high))) (\<lambda>timings.
         let (encoded, entries) = scp_encode (scp_tick high) timings ([], 0) in
         case try_u32 (length encoded) of
           None \<Rightarrow> io_throw (TrackTooLarge bit_len MAX_TRACK_BITS)
         | Some len \<Rightarrow>
             io_bind (io_result (scp_packet LoadRamUsb (be32 0 @ be32 len))) (\<lambda>packet.
               io_then (scp_link (scp_load T packet encoded))
                (io_then (scp_select T True)
                  (io_bind (scp_raw_command T WriteFlux (be32 entries @ [of_bool from_index]))
                    scp_write_verdict)))))"

section \<open>The device interface\<close>

definition scp_get_status :: "'w transport \<Rightarrow> ('w supercard, drive_status) io" where
  "scp_get_status T =
     io_then (scp_check_pins T)
      (io_then (scp_set_status (\<lambda>s. s\<lparr>ds_working := True,
          ds_ready := (ds_motor_running s \<and> ds_disk_present s)\<rparr>))
        (io_gets sc_status))"

definition scp_parameters :: "bool \<Rightarrow> u16 list" where
  "scp_parameters quick = (if quick then [1000, 5000, 150, 5, 10000] else [1000, 5000, 750, 15, 20000])"

definition scp_motor_command :: "bool \<Rightarrow> bool \<Rightarrow> scp_command" where
  "scp_motor_command drive_a enabled =
     (if enabled then if drive_a then MotorAOn else MotorBOn
      else if drive_a then MotorAOff else MotorBOff)"

definition scp_set_motor :: "'w transport \<Rightarrow> bool \<Rightarrow> bool \<Rightarrow> ('w supercard, unit) io" where
  "scp_set_motor T enabled quick =
     io_then (io_when enabled (scp_expect_ok T SetParams (concat (map be16 (scp_parameters quick)))))
      (io_bind (io_gets sc_drive_a) (\<lambda>drive_a.
        io_then (scp_expect_ok T (scp_motor_command drive_a enabled) [])
         (io_then (scp_set_status (ds_motor_running_update (\<lambda>_. enabled)))
           (scp_select T enabled))))"

definition scp_seek :: "'w transport \<Rightarrow> u8 \<Rightarrow> ('w supercard, unit) io" where
  "scp_seek T cylinder =
     io_bind (io_gets (\<lambda>d. ds_max_cylinders (sc_status d))) (\<lambda>max_cylinders.
       if cylinder \<ge> max_cylinders
       then io_throw (InvalidConfig (''SuperCard Pro cylinder '' @ dec_string (unat cylinder) @
              '' is out of range''))
       else io_then (scp_select T True)
        (io_then (scp_expect_ok T StepTo [cylinder])
          (io_then (scp_set_status (ds_cylinder_update (\<lambda>_. cylinder))) (scp_idle T))))"

definition scp_select_side :: "'w transport \<Rightarrow> side \<Rightarrow> ('w supercard, unit) io" where
  "scp_select_side T side =
     io_then (scp_select T True)
      (io_then (scp_expect_ok T SideCommand [side_number side])
        (io_then (scp_set_status (ds_side_update (\<lambda>_. side))) (scp_idle T)))"

definition scp_no_click_step :: "'w transport \<Rightarrow> ('w supercard, unit) io" where
  "scp_no_click_step T =
     io_bind (io_gets (\<lambda>d. ds_cylinder (sc_status d))) (\<lambda>cylinder.
       if cylinder \<noteq> 0
       then io_throw (InvalidConfig ''no-click step is only valid at cylinder zero'')
       else io_then (scp_select T True)
        (io_then (scp_expect_ok T StepOut []) (scp_check_pins T)))"

definition scp_choose_density :: "density_mode \<Rightarrow> ('w supercard, unit) io" where
  "scp_choose_density density =
     io_modify (\<lambda>d. d\<lparr>sc_high_density :=
       (density = DensityHigh \<or> density = DensityAuto \<and> sc_high_density d)\<rparr>)"

definition scp_read_track ::
  "'w transport \<Rightarrow> read_mode \<Rightarrow> density_mode \<Rightarrow> ('w supercard \<times> progress_log, raw_capture) io" where
  "scp_read_track T mode density =
     on_device (io_then (scp_choose_density density) (scp_read_stream T mode))"

definition scp_write_track ::
  "'w transport \<Rightarrow> u16 list \<Rightarrow> nat \<Rightarrow> bool \<Rightarrow> density_mode \<Rightarrow> ('w supercard, unit) io" where
  "scp_write_track T words bit_len from_index density =
     io_then (scp_choose_density density) (scp_write_stream T words bit_len from_index)"

definition scp_device :: "'w transport \<Rightarrow> 'w supercard device" where
  "scp_device T =
     \<lparr>dv_selected_port = sc_port, dv_status = scp_get_status T, dv_set_motor = scp_set_motor T,
      dv_seek = scp_seek T, dv_select_side = scp_select_side T,
      dv_no_click_step = scp_no_click_step T, dv_read_track = scp_read_track T,
      dv_write_track = scp_write_track T\<rparr>"

definition scp_drop :: "'w transport \<Rightarrow> ('w supercard, unit) io" where
  "scp_drop T = io_ignore (scp_set_motor T False True)"

section \<open>Opening\<close>

definition scp_initial :: "port_id \<Rightarrow> bridge_config \<Rightarrow> bool \<Rightarrow> 'w \<Rightarrow> 'w supercard" where
  "scp_initial port config drive_a w =
     \<lparr>sc_world = w, sc_port = port,
      sc_status = drive_status_default\<lparr>ds_max_cylinders := 84, ds_drive_type := Hd35\<rparr>,
      sc_drive_a = drive_a, sc_selected = False, sc_high_density = (cfg_density config = DensityHigh)\<rparr>"

definition nibbles :: "u8 \<Rightarrow> u8 \<times> u8" where
  "nibbles b = (drop_bit 4 b, b AND 0x0f)"

definition scp_check_firmware :: "u8 list \<Rightarrow> unit result" where
  "scp_check_firmware info =
     (let hardware = nibbles (info ! 0); firmware = nibbles (info ! 1) in
      if firmware < (1, 3)
      then Inl (UnsupportedFirmware (''SuperCard Pro firmware '' @ dec_string (unat (fst firmware)) @ ''.'' @
             dec_string (unat (snd firmware)) @ '' on hardware '' @ dec_string (unat (fst hardware)) @ ''.'' @
             dec_string (unat (snd hardware)) @ ''; firmware 1.3 or later is required''))
      else Inr ())"

definition scp_setup :: "'w transport \<Rightarrow> ('w supercard, unit) io" where
  "scp_setup T =
     io_then (scp_link (tr_purge T))
      (io_bind (scp_run_command T Info [] 2) (\<lambda>info.
        io_then (io_result (scp_check_firmware info))
         (io_then (scp_expect_ok T MotorAOff [])
           (io_then (scp_expect_ok T MotorBOff [])
             (io_then (scp_expect_ok T DeselectA [])
               (io_then (scp_expect_ok T DeselectB [])
                 (io_then (scp_expect_ok T SeekZero [])
                   (io_then (scp_set_status (\<lambda>s. s\<lparr>ds_working := True, ds_cylinder := 0\<rparr>))
                     (io_ignore (scp_check_pins T))))))))))"

definition scp_drive_a :: "drive_select \<Rightarrow> bool result" where
  "scp_drive_a drive =
     (if drive = PcA then Inr True else if drive = PcB then Inr False
      else Inl (InvalidConfig ''SuperCard Pro supports only PC Drive A or Drive B''))"

definition scp_open ::
  "features \<Rightarrow> 'w port_lib \<Rightarrow> port_id \<Rightarrow> bridge_config \<Rightarrow> ('w, 'w transport \<times> 'w supercard) io" where
  "scp_open feats L port config =
     io_bind (io_result (scp_drive_a (cfg_drive config))) (\<lambda>drive_a.
       io_bind (transport_open feats L port SCP_BAUD SCP_COMMAND_TIMEOUT) (\<lambda>T.
         io_bind (construct (scp_initial port config drive_a) sc_world (scp_setup T) (scp_drop T)) (\<lambda>d.
           io_return (T, d))))"

section \<open>What the operations leave unchanged\<close>

definition scp_pos :: "'w supercard \<Rightarrow> u8 \<times> side \<times> u8" where
  "scp_pos d = (ds_cylinder (sc_status d), ds_side (sc_status d), ds_max_cylinders (sc_status d))"

lemma keeps_scp_link [keeps_intros]: "keeps scp_pos (scp_link m)"
  by (auto simp: keeps_def scp_link_def io_zoom_returns_iff scp_pos_def)

lemma keeps_scp_set_status:
  "(\<And>s. ds_cylinder (f s) = ds_cylinder s \<and> ds_side (f s) = ds_side s \<and>
         ds_max_cylinders (f s) = ds_max_cylinders s) \<Longrightarrow> keeps scp_pos (scp_set_status f)"
  unfolding scp_set_status_def by (rule keeps_modify) (simp add: scp_pos_def)

lemma keeps_scp_commands [keeps_intros]:
  "keeps scp_pos (scp_raw_command T command payload)"
  "keeps scp_pos (scp_run_command T command payload extra)" "keeps scp_pos (scp_expect_ok T command payload)"
  unfolding scp_expect_ok_def scp_run_command_def scp_raw_command_def by (intro keeps_intros)+

lemma keeps_scp_select [keeps_intros]: "keeps scp_pos (scp_select T b)" "keeps scp_pos (scp_idle T)"
proof -
  show "keeps scp_pos (scp_select T b)" for b
    unfolding scp_select_def by (intro keeps_intros) (simp add: scp_pos_def)
  then show "keeps scp_pos (scp_idle T)" unfolding scp_idle_def by (intro keeps_intros)
qed

lemma keeps_scp_check_pins [keeps_intros]: "keeps scp_pos (scp_check_pins T)"
  unfolding scp_check_pins_def Let_def by (intro keeps_intros keeps_scp_set_status) simp_all

lemma keeps_scp_simple:
  "keeps scp_pos (scp_get_status T)" "keeps scp_pos (scp_set_motor T enabled quick)"
  "keeps scp_pos (scp_no_click_step T)"
  "keeps scp_pos (scp_write_track T words bit_len from_index density)"
  "keeps scp_pos (io_then (scp_choose_density density) (scp_read_stream T mode))"
  unfolding scp_get_status_def scp_set_motor_def scp_no_click_step_def scp_write_track_def scp_write_stream_def
    scp_write_verdict_def scp_choose_density_def scp_read_stream_def scp_start_verdict_def Let_def
    split_def option.case_eq_if
  by (intro keeps_intros keeps_scp_set_status; simp add: scp_pos_def)+

section \<open>The contract\<close>

definition scp_cylinder :: "'w supercard \<Rightarrow> u8" where
  "scp_cylinder d = ds_cylinder (sc_status d)"

definition scp_side :: "'w supercard \<Rightarrow> side" where
  "scp_side d = ds_side (sc_status d)"

definition scp_limit :: "'w supercard \<Rightarrow> u8" where
  "scp_limit d = ds_max_cylinders (sc_status d)"

lemmas scp_position_defs = scp_cylinder_def scp_side_def scp_limit_def

lemma scp_pos_position:
  "scp_cylinder d = fst (scp_pos d)" "scp_side d = fst (snd (scp_pos d))" "scp_limit d = snd (snd (scp_pos d))"
  "(scp_cylinder d, scp_side d, scp_limit d) = scp_pos d"
  by (simp_all add: scp_position_defs scp_pos_def)

lemma scp_keeps_pos:
  "keeps scp_pos m \<Longrightarrow> keeps scp_cylinder m" "keeps scp_pos m \<Longrightarrow> keeps scp_side m"
  "keeps scp_pos m \<Longrightarrow> keeps scp_limit m"
  "keeps scp_pos m \<Longrightarrow> keeps (\<lambda>d. (scp_cylinder d, scp_side d, scp_limit d)) m"
  by (rule keeps_proj, assumption, rule scp_pos_position)+

text \<open>A movement: the drive is selected, the step made and recorded, and the drive let go.\<close>

lemma scp_movement:
  assumes "io_then (scp_select T True) (io_then (scp_expect_ok T c p) (io_then (scp_set_status f) (scp_idle T))) d = Some (r, d')"
  shows "scp_pos d' = scp_pos d \<and> r \<noteq> Inr () \<or>
    (\<exists>s. scp_pos (d\<lparr>sc_status := s\<rparr>) = scp_pos d \<and> scp_pos (d\<lparr>sc_status := f s\<rparr>) = scp_pos d')"
proof -
  have frame: "m d1 = Some (q, d2) \<Longrightarrow> keeps scp_pos m \<Longrightarrow> scp_pos d2 = scp_pos d1"
    for m :: "('a supercard, unit) io" and q d1 d2 by (auto simp: keeps_def)
  consider e where "scp_select T True d = Some (Inl e, d')" "r = Inl e"
    | d1 e where "scp_select T True d = Some (Inr (), d1)" "scp_expect_ok T c p d1 = Some (Inl e, d')" "r = Inl e"
    | d1 d2 where "scp_select T True d = Some (Inr (), d1)" "scp_expect_ok T c p d1 = Some (Inr (), d2)"
        "scp_idle T (d2\<lparr>sc_status := f (sc_status d2)\<rparr>) = Some (r, d')"
    using assms by (auto simp: io_bind_returns_iff scp_set_status_def io_run)
  then show ?thesis
  proof cases
    case 1
    then show ?thesis using frame [OF 1(1) keeps_scp_select(1)] by simp
  next
    case 2
    then show ?thesis using frame [OF 2(1) keeps_scp_select(1)] frame [OF 2(2) keeps_scp_commands(3)] by simp
  next
    case 3
    then have "scp_pos d2 = scp_pos d" "scp_pos d' = scp_pos (d2\<lparr>sc_status := f (sc_status d2)\<rparr>)"
      using frame [OF 3(1) keeps_scp_select(1)] frame [OF 3(2) keeps_scp_commands(3)] frame [OF 3(3) keeps_scp_select(2)]
      by simp_all
    then show ?thesis by (intro disjI2 exI [of _ "sc_status d2"]) (simp add: scp_pos_def)
  qed
qed

lemma scp_seek_bounded:
  assumes "scp_seek T c d = Some (r, d')"
  shows "scp_cylinder d' = scp_cylinder d \<and> r \<noteq> Inr () \<or> scp_cylinder d' = c \<and> c < scp_limit d"
    and "scp_side d' = scp_side d" and "scp_limit d' = scp_limit d"
proof -
  have "scp_pos d' = scp_pos d \<and> r \<noteq> Inr () \<or> c < scp_limit d \<and> (\<exists>s. scp_pos (d\<lparr>sc_status := s\<rparr>) = scp_pos d \<and>
      scp_pos (d\<lparr>sc_status := s\<lparr>ds_cylinder := c\<rparr>\<rparr>) = scp_pos d')"
    using assms scp_movement [of T StepTo "[c]" "ds_cylinder_update (\<lambda>_. c)" d r d']
    by (auto simp: scp_seek_def io_bind_Some io_run scp_limit_def not_le split: if_splits)
  then show "scp_cylinder d' = scp_cylinder d \<and> r \<noteq> Inr () \<or> scp_cylinder d' = c \<and> c < scp_limit d"
    and "scp_side d' = scp_side d" and "scp_limit d' = scp_limit d"
    by (auto simp: scp_pos_def scp_position_defs)
qed

lemma scp_select_side_moves:
  assumes "scp_select_side T s d = Some (r, d')"
  shows "scp_side d' = scp_side d \<and> r \<noteq> Inr () \<or> scp_side d' = s"
    and "scp_cylinder d' = scp_cylinder d" and "scp_limit d' = scp_limit d"
  using scp_movement [OF assms [unfolded scp_select_side_def]] by (auto simp: scp_pos_def scp_position_defs)

lemma keeps_scp_moves:
  "keeps scp_side (scp_seek T c)" "keeps scp_limit (scp_seek T c)"
  "keeps scp_cylinder (scp_select_side T s)" "keeps scp_limit (scp_select_side T s)"
  using scp_seek_bounded(2,3) scp_select_side_moves(2,3) unfolding keeps_def by blast+

lemma scp_select_side_reaches: "scp_select_side T s d = Some (Inr (), d') \<Longrightarrow> scp_side d' = s"
  using scp_select_side_moves(1) by fastforce

lemma scp_capture_valid:
  assumes "scp_read_stream T mode d = Some (Inr capture, d')"
  shows "capture_ok mode capture"
  using assms
  by (auto simp: scp_read_stream_def io_bind_ok_iff io_run capture_ok_def Let_def split_def split: if_splits)

interpretation supercard: device_contract "scp_device T" scp_cylinder scp_side scp_limit for T
proof (unfold_locales, goal_cases)
  case (1 c d d')
  then show ?case using scp_seek_bounded(1) [of T c d] by (auto simp: scp_device_def)
next
  case (2 c d r d')
  then show ?case using scp_seek_bounded(1) [of T c d] by (auto simp: scp_device_def)
next
  case (11 mode density)
  have "keeps (\<lambda>d. (scp_cylinder d, scp_side d, scp_limit d)) (io_then (scp_choose_density density) (scp_read_stream T mode))"
    by (rule scp_keeps_pos(4) [OF keeps_scp_simple(5)])
  from keeps_on_device [OF this] show ?case by (simp add: scp_device_def scp_read_track_def)
next
  case (13 mode density dl capture dl')
  then show ?case
    by (auto simp: scp_device_def scp_read_track_def on_device_def io_zoom_returns_iff io_bind_ok_iff
        intro: scp_capture_valid)
qed (simp_all add: scp_device_def keeps_scp_moves scp_select_side_reaches scp_keeps_pos(4) keeps_scp_simple)

end
