(* ===== verification/SuperCard_Wire.thy ===== *)
theory SuperCard_Wire
  imports SuperCard_Device
begin

text \<open>
  The SuperCard Pro backend on the wire: every operation returns, and an immediate read of a
  high-density disk fails.
\<close>

section \<open>Every operation returns\<close>

lemma halts_scp_link [io_halts_intros]: "io_halts m \<Longrightarrow> io_halts (scp_link m)"
  unfolding scp_link_def by (rule io_halts_zoom)

lemma halts_scp_set_status [io_halts_intros]: "io_halts (scp_set_status f)"
  unfolding scp_set_status_def by (rule io_halts_basic)

lemma halts_operation_deadline: "transport_laws T clock rx tx \<Longrightarrow> io_halts (operation_deadline T)"
  unfolding operation_deadline_def by (intro io_halts_intros transport_halts)

lemma scp_halts_commands:
  assumes "transport_laws T clock rx tx"
  shows "io_halts (scp_raw_command T command payload)" "io_halts (scp_run_command T command payload extra)"
    "io_halts (scp_expect_ok T command payload)" "io_halts (scp_select T b)" "io_halts (scp_idle T)"
    "io_halts (scp_check_pins T)"
proof -
  note steps = transport_halts [OF assms] halts_operation_deadline [OF assms]
  show raw: "io_halts (scp_raw_command T command payload)" for command payload
    unfolding scp_raw_command_def scp_exchange_def by (intro io_halts_intros steps)
  show command: "io_halts (scp_run_command T command payload extra)" for command payload extra
    unfolding scp_run_command_def by (intro io_halts_intros steps raw)
  show expect: "io_halts (scp_expect_ok T command payload)" for command payload
    unfolding scp_expect_ok_def by (intro io_halts_intros command)
  show select: "io_halts (scp_select T b)" for b
    unfolding scp_select_def by (intro io_halts_intros expect)
  show "io_halts (scp_idle T)"
    unfolding scp_idle_def by (intro io_halts_intros select)
  show "io_halts (scp_check_pins T)"
    unfolding scp_check_pins_def Let_def by (intro io_halts_intros select command)
qed

text \<open>The stream loop consumes bytes until the stream is complete.\<close>

lemma scp_stream_loop_spec:
  assumes laws: "transport_laws T clock rx tx"
  shows "io_wp (scp_stream_loop T deadline mode high bytes_seen s)
    (\<lambda>r w'. \<exists>bytes. talks clock rx tx w w' [] bytes \<and> (\<forall>events. r = Inr events \<longrightarrow>
       (\<exists>s'. scp_feed_all mode high bytes s = (s', True) \<and> events = ss_events s'))) w"
  using laws
proof (induction T deadline mode high bytes_seen s arbitrary: w rule: scp_stream_loop.induct)
  case (1 T deadline mode high bytes_seen s)
  let ?P = "\<lambda>s w (r :: error + flux_event list) w'. \<exists>bytes. talks clock rx tx w w' [] bytes \<and>
       (\<forall>events. r = Inr events \<longrightarrow> (\<exists>s'. scp_feed_all mode high bytes s = (s', True) \<and> events = ss_events s'))"
  show ?case
  proof (cases "SCP_MAX_STREAM_BYTES \<le> bytes_seen")
    case True
    then show ?thesis by (auto simp: scp_stream_loop.simps wp_simps intro: talks_refl)
  next
    case False
    have "io_wp (io_bind (read_byte_until T deadline ''SuperCard Pro flux stream'') (\<lambda>byte.
        case scp_feed mode high byte s of
          (s, complete) \<Rightarrow>
            if complete then io_return (ss_events s)
            else scp_stream_loop T deadline mode high (Suc bytes_seen) s)) (?P s w) w"
      unfolding wp_bind
    proof (rule wp_read_byte_until [OF "1.prems"], unfold sum.case)
      fix e w' got assume "talks clock rx tx w w' [] got"
      then show "?P s w (Inl e) w'" by auto
    next
      fix b w1 assume t: "talks clock rx tx w w1 [] [b]"
      obtain s1 complete where feed: "scp_feed mode high b s = (s1, complete)" by fastforce
      show "io_wp (case scp_feed mode high b s of (s, complete) \<Rightarrow>
            if complete then io_return (ss_events s)
            else scp_stream_loop T deadline mode high (Suc bytes_seen) s) (?P s w) w1"
      proof (cases complete)
        case True
        then show ?thesis using feed t by (auto simp: wp_basic intro!: exI [of _ "[b]"])
      next
        case c: False
        have "io_wp (scp_stream_loop T deadline mode high (Suc bytes_seen) s1) (?P s1 w1) w1"
          by (rule "1.IH" [OF False feed [symmetric] c "1.prems"])
        then have "io_wp (scp_stream_loop T deadline mode high (Suc bytes_seen) s1) (?P s w) w1"
        proof (rule wp_conseq, elim exE conjE)
          fix r :: "error + flux_event list" and w' bytes
          assume "talks clock rx tx w1 w' [] bytes" and ok: "\<forall>events. r = Inr events \<longrightarrow>
             (\<exists>s'. scp_feed_all mode high bytes s1 = (s', True) \<and> events = ss_events s')"
          then have "talks clock rx tx w w' [] (b # bytes)" using talks_trans [OF t] by fastforce
          then show "?P s w r w'" using ok feed c by (intro exI [of _ "b # bytes"]) simp
        qed
        then show ?thesis using feed c by simp
      qed
    qed
    then show ?thesis using False by (simp add: scp_stream_loop.simps [of T deadline mode high bytes_seen s])
  qed
qed

lemma scp_halts_operations:
  assumes "transport_laws T clock rx tx"
  shows "io_halts (scp_get_status T)" "io_halts (scp_set_motor T enabled quick)" "io_halts (scp_seek T c)"
    "io_halts (scp_select_side T s)" "io_halts (scp_no_click_step T)" "io_halts (scp_read_track T mode density)"
    "io_halts (scp_write_track T words bit_len from_index density)"
proof -
  note steps = scp_halts_commands [OF assms] transport_halts [OF assms] halts_windows [OF assms]
  have stream: "io_halts (scp_stream_loop T deadline mode high n s)" for deadline high n s
    unfolding wp_halts using scp_stream_loop_spec [OF assms] by (blast intro: wp_conseq)
  have window: "replicate 4 (0 :: u8) \<noteq> []" by simp
  have read: "io_halts (scp_read_stream T mode)"
    unfolding scp_read_stream_def scp_start_verdict_def Let_def by (intro io_halts_intros steps stream window)
  have sent: "io_halts (scp_write_stream T words bit_len from_index)"
    unfolding scp_write_stream_def scp_write_verdict_def scp_load_def Let_def split_def option.case_eq_if
    by (intro io_halts_intros steps)
  show "io_halts (scp_get_status T)"
    unfolding scp_get_status_def by (intro io_halts_intros steps)
  show "io_halts (scp_set_motor T enabled quick)"
    unfolding scp_set_motor_def by (intro io_halts_intros steps)
  show "io_halts (scp_seek T c)"
    unfolding scp_seek_def by (intro io_halts_intros steps)
  show "io_halts (scp_select_side T s)"
    unfolding scp_select_side_def by (intro io_halts_intros steps)
  show "io_halts (scp_no_click_step T)"
    unfolding scp_no_click_step_def by (intro io_halts_intros steps)
  show "io_halts (scp_read_track T mode density)"
    unfolding scp_read_track_def scp_choose_density_def by (intro io_halts_intros read)
  show "io_halts (scp_write_track T words bit_len from_index density)"
    unfolding scp_write_track_def scp_choose_density_def by (intro io_halts_intros sent)
qed

text \<open>
  C40: Every operation of a SuperCard Pro returns, whatever the interface answers and whenever; the
  loops of a read are bounded by the stream's deadline and its largest length.
\<close>

theorem scp_operations_return:
  assumes "transport_laws T clock rx tx"
  shows "io_halts (dv_status (scp_device T)) \<and> io_halts (dv_set_motor (scp_device T) enabled quick) \<and>
    io_halts (dv_seek (scp_device T) c) \<and> io_halts (dv_select_side (scp_device T) s) \<and>
    io_halts (dv_no_click_step (scp_device T)) \<and> io_halts (dv_read_track (scp_device T) mode density) \<and>
    io_halts (dv_write_track (scp_device T) words bit_len from_index density)"
  using scp_halts_operations [OF assms] by (simp add: scp_device_def)

definition demo_scp :: "u8 list \<Rightarrow> scripted_port supercard" where
  "demo_scp input =
     \<lparr>sc_world = fresh_port input, sc_port = PortId ''COM3'', sc_status = drive_status_default,
      sc_drive_a = True, sc_selected = False, sc_high_density = False\<rparr>"

theorem scp_operations_return_witness:
  "dv_read_track (scp_device (scripted 4)) Normal DensityAuto (demo_scp [0x80, 0x4f], []) \<noteq> None \<and>
   dv_seek (scp_device (scripted 4)) 79 (demo_scp []) \<noteq> None"
  using scp_operations_return [OF scripted_laws [of 4]] unfolding io_halts_def by blast

section \<open>Immediate reads of high-density disks\<close>

text \<open>What has been received stays received.\<close>

definition received :: "('w \<Rightarrow> u8 list) \<Rightarrow> u8 list \<Rightarrow> 'w supercard \<Rightarrow> bool" where
  "received rx base d \<longleftrightarrow> prefix base (rx (sc_world d))"

lemma leads_received:
  assumes "\<And>w Q. (\<And>r w' sent got. talks clock rx tx w w' sent got \<Longrightarrow> Q r w') \<Longrightarrow> io_wp m Q w"
  shows "leads (received rx base) (scp_link m) (received rx base)"
  unfolding leads_def
proof (intro allI impI)
  fix d r d' assume "received rx base d" "scp_link m d = Some (r, d')"
  then obtain w' where "m (sc_world d) = Some (r, w')" "d' = d\<lparr>sc_world := w'\<rparr>"
    by (auto simp: scp_link_def io_zoom_returns_iff)
  moreover have "io_wp m (\<lambda>r w'. \<exists>got. rx w' = rx (sc_world d) @ got) (sc_world d)"
    by (rule assms) (auto simp: talks_def)
  ultimately show "received rx base d'"
    using \<open>received rx base d\<close> by (auto simp: received_def io_wp_def prefix_def)
qed

lemma wp_exchange:
  assumes laws: "transport_laws T clock rx tx"
    and fail: "\<And>e w' sent got. talks clock rx tx w w' sent got \<Longrightarrow> Q (Inl e) w'"
    and reply: "\<And>a w' sent got. talks clock rx tx w w' sent got \<Longrightarrow> length got = 2 \<Longrightarrow> Q (Inr a) w'"
  shows "io_wp (scp_exchange T c packet) Q w"
  unfolding scp_exchange_def wp_bind
proof (rule wp_operation_deadline [OF laws], unfold sum.case, rule wp_write_all [OF laws], unfold sum.case)
  fix w1 w2 e k assume t: "talks clock rx tx w w1 [] []" "talks clock rx tx w1 w2 (take k packet) []"
  show "Q (Inl e) w2" by (rule fail [OF talks_trans [OF t]])
next
  fix w1 w2 deadline assume "talks clock rx tx w w1 [] []" "talks clock rx tx w1 w2 packet []"
  from talks_trans [OF this] have t: "talks clock rx tx w w2 packet []" by simp
  show "io_wp (read_exact_until T 2 deadline ''SuperCard Pro acknowledgement'')
     (\<lambda>r t. case r of Inl e \<Rightarrow> Q (Inl e) t | Inr a \<Rightarrow>
        io_wp (if a ! 0 \<noteq> scp_code c
          then io_throw (Protocol (''SuperCard Pro replied to command '' @ hex_byte (a ! 0) @
                 '' while '' @ hex_byte (scp_code c) @ '' was pending''))
          else io_return (a ! 1)) Q t) w2"
  proof (rule wp_read_exact [OF laws], unfold sum.case)
    fix e w' got assume "talks clock rx tx w2 w' [] got"
    then show "Q (Inl e) w'" by (rule fail [OF talks_trans [OF t]])
  next
    fix bytes w' assume "talks clock rx tx w2 w' [] bytes" and two: "length bytes = 2"
    from talks_trans [OF t this(1)] have all: "talks clock rx tx w w' packet bytes" by simp
    show "io_wp (if bytes ! 0 \<noteq> scp_code c
          then io_throw (Protocol (''SuperCard Pro replied to command '' @ hex_byte (bytes ! 0) @
                 '' while '' @ hex_byte (scp_code c) @ '' was pending''))
          else io_return (bytes ! 1)) Q w'"
      by (auto simp: wp_basic intro: fail [OF all] reply [OF all two])
  qed
qed

lemma received_commands:
  assumes laws: "transport_laws T clock rx tx"
  shows "leads (received rx base) (scp_idle T) (received rx base)"
proof -
  have deadline: "leads (received rx base) (scp_link (io_bind (operation_deadline T) (\<lambda>deadline.
      read_exact_until T extra deadline op))) (received rx base)" for extra op
  proof (rule leads_received [of clock _ tx])
    fix w and Q :: "error + u8 list \<Rightarrow> 'a \<Rightarrow> bool"
    assume q: "\<And>r w' sent got. talks clock rx tx w w' sent got \<Longrightarrow> Q r w'"
    show "io_wp (io_bind (operation_deadline T) (\<lambda>deadline. read_exact_until T extra deadline op)) Q w"
      unfolding wp_bind
      by (rule wp_operation_deadline [OF laws], unfold sum.case, rule wp_read_exact [OF laws])
        (erule (1) q [OF talks_trans])+
  qed
  have exchange: "leads (received rx base) (scp_link (scp_exchange T c packet)) (received rx base)" for c packet
    by (rule leads_received [of clock _ tx]) (rule wp_exchange [OF laws])
  show ?thesis
    unfolding scp_idle_def scp_select_def scp_expect_ok_def scp_run_command_def scp_raw_command_def
    by (intro leads_intros exchange deadline leads_modify; simp add: received_def)
qed

lemma feed_all_complete:
  "scp_feed_all mode high bytes s = (s', True) \<Longrightarrow> scp_feed_all mode high (bytes @ more_bytes) s = (s', True)"
  by (induction bytes arbitrary: s) (auto split: prod.splits if_splits)

text \<open>What an immediate read does once its stream is complete.\<close>

abbreviation after_stream :: "'w transport \<Rightarrow> nat \<Rightarrow> bool \<Rightarrow> flux_event list \<Rightarrow> ('w supercard, raw_capture) io" where
  "after_stream T deadline high events \<equiv> io_bind (io_result (scp_packet StopStream [])) (\<lambda>stop.
                 io_then (scp_link (write_all_until T stop deadline ''SuperCard Pro stop stream''))
                  (io_then (scp_link (await_window T deadline ''SuperCard Pro stop acknowledgement''
                      scp_stop_verdict (replicate 4 0)))
                    (io_then (scp_link (tr_purge T))
                      (io_then (scp_set_status (\<lambda>s. s\<lparr>ds_disk_present := True, ds_ready := True\<rparr>))
                        (io_then (scp_idle T)
                          (io_bind (io_result (scp_revolution Normal high events)) (\<lambda>(words, bit_len, index_aligned).
                            let capture = \<lparr>rc_words = words, rc_bit_len = bit_len,
                                           rc_index_aligned = (Normal \<noteq> Normal \<and> index_aligned)\<rparr>
                            in io_then (io_result (validate_capture capture)) (io_return capture))))))))"

lemma received_after_stream:
  assumes laws: "transport_laws T clock rx tx"
  shows "leads (received rx base) (after_stream T deadline high events) (received rx base)"
proof -
  have sent: "leads (received rx base) (scp_link (write_all_until T stop deadline op)) (received rx base)" for stop op
    by (rule leads_received [of clock _ tx]) (rule wp_write_all [OF laws])
  have stopped: "leads (received rx base) (scp_link (await_window T deadline op scp_stop_verdict (replicate 4 0)))
      (received rx base)" for op
    by (rule leads_received [of clock _ tx]) (rule wp_await_window [OF laws], simp)
  have purged: "leads (received rx base) (scp_link (tr_purge T)) (received rx base)"
    by (rule leads_received [of clock _ tx]) (rule wp_quiet [OF transport_purge [OF laws]])
  show ?thesis
    unfolding Let_def scp_set_status_def
    by (intro leads_intros leads_modify received_commands [OF laws] sent stopped purged; simp add: received_def)
qed

text \<open>
  A successful immediate read, with the drive already selected: behind the two bytes of the
  acknowledgement came a complete stream, and the capture is what the flux decoder makes of it.
\<close>

lemma immediate_read_ok:
  assumes laws: "transport_laws T clock rx tx"
    and "sc_selected d" and run: "scp_read_stream T Normal d = Some (Inr capture, d')"
  shows "\<exists>ack bytes s revolution. length ack = 2 \<and> scp_feed_all Normal (sc_high_density d) bytes scp_stream_start = (s, True) \<and>
    prefix (rx (sc_world d) @ ack @ bytes) (rx (sc_world d')) \<and>
    flux_to_unaligned_revolution (ss_events s) (sc_high_density d) = Inr revolution"
proof -
  from run obtain d1 d2 d3 d4 response deadline events where
    cmd: "scp_raw_command T StartStream [0x04 OR 0x02 OR of_bool (Normal \<noteq> Normal)] d = Some (Inr response, d1)"
    and start: "scp_start_verdict response d1 = Some (Inr (), d2)"
    and within: "scp_link (within T SCP_STREAM_TIMEOUT io_return) d2 = Some (Inr deadline, d3)"
    and stream: "scp_link (scp_stream_loop T deadline Normal (sc_high_density d3) 0 scp_stream_start) d3 = Some (Inr events, d4)"
    and rest: "after_stream T deadline (sc_high_density d3) events d4 = Some (Inr capture, d')"
    using \<open>sc_selected d\<close> unfolding scp_read_stream_def
    by (elim io_bind_okE) (simp add: scp_select_def io_bind_def io_run)
  obtain packet w1 where "scp_exchange T StartStream packet (sc_world d) = Some (Inr response, w1)"
    and d1: "d1 = d\<lparr>sc_world := w1\<rparr>"
    using cmd by (auto simp: scp_raw_command_def io_bind_ok_iff io_run scp_link_def io_zoom_returns_iff)
  moreover have "io_wp (scp_exchange T StartStream packet) (\<lambda>r w'. \<forall>a. r = Inr a \<longrightarrow>
      (\<exists>sent ack. talks clock rx tx (sc_world d) w' sent ack \<and> length ack = 2)) (sc_world d)"
    by (rule wp_exchange [OF laws]) auto
  ultimately obtain ack where ack: "rx w1 = rx (sc_world d) @ ack" "length ack = 2"
    by (auto simp: io_wp_def talks_def)
  have d2: "d2 = d1" using start by (auto simp: scp_start_verdict_def io_bind_ok_iff io_run split: if_splits)
  have "io_wp (within T SCP_STREAM_TIMEOUT io_return) (\<lambda>r w'. talks clock rx tx w1 w' [] []) w1"
    by (rule wp_within [OF laws]) (simp add: wp_basic)
  then have d3: "rx (sc_world d3) = rx w1" "sc_high_density d3 = sc_high_density d"
    using within by (auto simp: d2 d1 scp_link_def io_zoom_returns_iff io_wp_def talks_def)
  obtain bytes s where stream_ok: "rx (sc_world d4) = rx (sc_world d3) @ bytes" "events = ss_events s"
      "scp_feed_all Normal (sc_high_density d) bytes scp_stream_start = (s, True)"
    using stream scp_stream_loop_spec [OF laws, of deadline Normal "sc_high_density d3" 0 scp_stream_start "sc_world d3"]
    by (auto simp: d3 scp_link_def io_zoom_returns_iff io_wp_def talks_def)
  let ?base = "rx (sc_world d) @ ack @ bytes"
  have "leads (received rx ?base) (after_stream T deadline (sc_high_density d3) events) (received rx ?base)"
    by (rule received_after_stream [OF laws])
  from leadsD [OF this, OF _ rest] have "received rx ?base d'"
    using stream_ok(1) d3(1) ack(1) by (simp add: received_def)
  obtain revolution where "scp_revolution Normal (sc_high_density d3) events = Inr revolution"
    using rest by (elim io_bind_okE) (simp add: io_run)
  then have "\<exists>revolution. flux_to_unaligned_revolution (ss_events s) (sc_high_density d) = Inr revolution"
    by (auto simp: scp_revolution_def stream_ok(2) d3(2) split: sum.splits)
  with \<open>received rx ?base d'\<close> show ?thesis
    using ack(2) stream_ok(3) unfolding received_def by blast
qed

text \<open>
  C22: An immediate read of a high-density disk, in a drive that is selected as it is while its
  motor runs, never yields a capture: whatever complete stream the interface delivers behind its
  acknowledgement, as long as each of its intervals is the flux of a disk, at least 1.55 cells and
  at most a thousand, the read ends in an error, because the 260 ms it waits for, on a clock at
  twice the time of a high-density disk, hold too few cells to look for a second revolution in.
\<close>

theorem scp_hd_immediate_too_short:
  assumes laws: "transport_laws T clock rx tx"
    and high: "density = DensityHigh \<or> density = DensityAuto \<and> sc_high_density d" and selected: "sc_selected d"
    and run: "dv_read_track (scp_device T) Normal density (d, log) = Some (r, (d', log'))"
    and delivered: "rx (sc_world d') = rx (sc_world d) @ ack @ bytes @ rest" "length ack = 2"
    and stream: "scp_feed_all Normal True bytes scp_stream_start = (s, True)" and flux: "disk_flux (ss_events s)"
  shows "\<exists>e. r = Inl e"
proof (cases r)
  case (Inr capture)
  let ?d = "d\<lparr>sc_high_density := True\<rparr>"
  have "scp_read_stream T Normal ?d = Some (Inr capture, d')"
    using run high unfolding Inr
    by (auto simp: scp_device_def scp_read_track_def on_device_def io_zoom_returns_iff scp_choose_density_def io_run)
  from immediate_read_ok [OF laws _ this] selected obtain ack' bytes' s' revolution where got:
      "length ack' = 2" "scp_feed_all Normal True bytes' scp_stream_start = (s', True)"
      "prefix (rx (sc_world d) @ ack' @ bytes') (rx (sc_world d'))"
      "flux_to_unaligned_revolution (ss_events s') True = Inr revolution" by auto
  then have "prefix bytes' (bytes @ rest)" using delivered by (auto simp: prefix_def append_eq_append_conv)
  then obtain later where "bytes @ rest = bytes' @ later" by (auto simp: prefix_def)
  then have "s' = s" using feed_all_complete [OF stream, of rest] feed_all_complete [OF got(2), of later] by simp
  then show ?thesis using hd_stream_too_short [OF stream flux] got(4) by simp
qed simp

text \<open>The stream loop on the scripted port.\<close>

lemma scripted_scp_stream:
  assumes "sim_pending p = bytes @ rest" and "0 < burst"
    and "sim_clock p + length bytes \<le> deadline" and "n + length bytes \<le> SCP_MAX_STREAM_BYTES"
    and "scp_feed_all mode high bytes s = (s', True)"
    and "\<forall>k < length bytes. \<not> snd (scp_feed_all mode high (take k bytes) s)"
  shows "scp_stream_loop (scripted burst) deadline mode high n s p =
    Some (Inr (ss_events s'), \<lparr>sim_clock = sim_clock p + length bytes, sim_pending = rest,
      sim_delivered = sim_delivered p @ bytes, sim_taken = sim_taken p\<rparr>)"
  using assms
proof (induction bytes arbitrary: p n s)
  case (Cons b bytes)
  obtain s1 complete where feed: "scp_feed mode high b s = (s1, complete)" by fastforce
  let ?p = "\<lparr>sim_clock = Suc (sim_clock p), sim_pending = bytes @ rest,
      sim_delivered = sim_delivered p @ [b], sim_taken = sim_taken p\<rparr>"
  have read: "read_byte_until (scripted burst) deadline ''SuperCard Pro flux stream'' p = Some (Inr b, ?p)"
    using scripted_byte [of p deadline b "bytes @ rest" burst] Cons.prems by simp
  show ?case
  proof (cases complete)
    case True
    then have "bytes = []" using Cons.prems(6) [rule_format, of 1] feed by (cases bytes) simp_all
    then show ?thesis
      using True feed read Cons.prems(4,5) by (simp add: scp_stream_loop.simps [of _ _ _ _ n] io_bind_def io_run)
  next
    case False
    have "scp_stream_loop (scripted burst) deadline mode high (Suc n) s1 ?p =
        Some (Inr (ss_events s'), \<lparr>sim_clock = sim_clock ?p + length bytes, sim_pending = rest,
          sim_delivered = sim_delivered ?p @ bytes, sim_taken = sim_taken ?p\<rparr>)"
    proof (rule Cons.IH)
      show "\<forall>k < length bytes. \<not> snd (scp_feed_all mode high (take k bytes) s1)"
      proof (intro allI impI)
        fix k assume "k < length bytes"
        then show "\<not> snd (scp_feed_all mode high (take k bytes) s1)"
          using Cons.prems(6) [rule_format, of "Suc k"] feed False by simp
      qed
    qed (use Cons.prems feed False in simp_all)
    then show ?thesis using False feed read Cons.prems(4) by (simp add: scp_stream_loop.simps [of _ _ _ _ n] io_bind_def)
  qed
qed simp

lemma feed_all_before:
  assumes "\<not> snd (scp_feed_all mode high (butlast bytes) s)" and "k < length bytes"
  shows "\<not> snd (scp_feed_all mode high (take k bytes) s)"
proof
  assume "snd (scp_feed_all mode high (take k bytes) s)"
  then obtain s' where "scp_feed_all mode high (take k bytes) s = (s', True)" by (metis prod.collapse)
  then have "scp_feed_all mode high (take k bytes @ drop k (butlast bytes)) s = (s', True)" by (rule feed_all_complete)
  moreover have "take k bytes @ drop k (butlast bytes) = butlast bytes"
    using append_take_drop_id [of k "butlast bytes"] by (simp only: take_butlast [OF assms(2)])
  ultimately show False using assms(1) by simp
qed

text \<open>The stream of the disk of gaps, with the acknowledgements around it.\<close>

definition demo_disk :: "u8 list" where
  "demo_disk = concat (replicate 130 demo_gap)"

definition demo_stop :: "u8 list" where
  "demo_stop = [0xde, 0xad, 0xaf, 0x4f]"

definition demo_hd :: "scripted_port supercard" where
  "demo_hd = (demo_scp ([0xae, 0x4f] @ demo_disk @ demo_stop))
     \<lparr>sc_status := drive_status_default\<lparr>ds_motor_running := True\<rparr>, sc_selected := True, sc_high_density := True\<rparr>"

lemma demo_disk_stream:
  "length demo_disk = 10270" "k < length demo_disk \<Longrightarrow> \<not> snd (scp_feed_all Normal True (take k demo_disk) scp_stream_start)"
proof -
  show "length demo_disk = 10270" by (simp add: demo_disk_def demo_gap_def length_concat sum_list_replicate)
  define gaps where "gaps = concat (replicate 129 demo_gap)"
  have "demo_disk = concat (replicate (129 + 1) demo_gap)" by (simp add: demo_disk_def)
  also have "\<dots> = gaps @ demo_gap"
    unfolding replicate_add concat_append gaps_def by simp
  finally have "demo_disk = (gaps @ replicate 78 0 @ []) @ [32]" by (simp add: demo_gap_def)
  then have "butlast demo_disk = gaps @ replicate 78 0 @ []" by (metis butlast_snoc)
  moreover have "scp_feed_all Normal True (gaps @ replicate 78 0 @ []) (demo_gaps 0) =
      scp_feed_all Normal True (replicate 78 0 @ []) (demo_gaps 129)"
    unfolding gaps_def by (subst feed_gaps) simp_all
  moreover have "\<not> snd (scp_feed_all Normal True (replicate 78 0 @ []) (demo_gaps 129))"
    by (subst feed_zeros) (simp_all add: demo_gaps_def scp_stream_start_def)
  moreover have "scp_stream_start = demo_gaps 0" by (simp add: demo_gaps_def scp_stream_start_def)
  ultimately have "\<not> snd (scp_feed_all Normal True (butlast demo_disk) scp_stream_start)" by simp
  then show "\<not> snd (scp_feed_all Normal True (take k demo_disk) scp_stream_start)" if "k < length demo_disk"
    using that by (rule feed_all_before)
qed

text \<open>The command before the stream and the stop after it, on the scripted port.\<close>

lemma scripted_scp_command:
  assumes "scp_packet c payload = Inr packet" and "packet \<noteq> []"
    and "sim_pending (sc_world d) = [scp_code c, response] @ rest"
  shows "scp_raw_command (scripted 2) c payload d = Some (Inr response, d\<lparr>sc_world :=
    \<lparr>sim_clock = sim_clock (sc_world d) + 2, sim_pending = rest,
     sim_delivered = sim_delivered (sc_world d) @ [scp_code c, response],
     sim_taken = sim_taken (sc_world d) @ packet\<rparr>\<rparr>)"
  using assms scripted_exact [of "(sim_tick (sc_world d))\<lparr>sim_taken := sim_taken (sc_world d) @ packet\<rparr>"
      "sim_clock (sc_world d) + secs 2" "[scp_code c, response]" rest 2 2]
  by (simp add: scp_raw_command_def scp_exchange_def scp_link_def io_zoom_def operation_deadline_def io_bind_def
      scripted_instant io_run write_all_until_def scripted_run sim_tick_def secs_def)

lemma scripted_scp_stop:
  assumes "sim_pending p = demo_stop" and "halt \<noteq> []" and "sim_clock p + 5 \<le> deadline"
  shows "\<exists>p3 p4. write_all_until (scripted 2) halt deadline ''SuperCard Pro stop stream'' p = Some (Inr (), p3) \<and>
    await_window (scripted 2) deadline ''SuperCard Pro stop acknowledgement'' scp_stop_verdict (replicate 4 0) p3 =
      Some (Inr (), p4) \<and> sim_delivered p4 = sim_delivered p @ demo_stop"
proof -
  let ?p = "(sim_tick p)\<lparr>sim_taken := sim_taken p @ halt\<rparr>"
  have sent: "write_all_until (scripted 2) halt deadline ''SuperCard Pro stop stream'' p = Some (Inr (), ?p)"
    using assms by (simp add: write_all_until_def scripted_run)
  have verdicts: "\<forall>k \<in> set [1, 2, 3]. scp_stop_verdict (windows (replicate 4 0) (take k demo_stop)) = Inr None"
    "scp_stop_verdict (windows (replicate 4 0) demo_stop) = Inr (Some ())" "length demo_stop = 4"
    by code_simp+
  have "\<forall>k. 0 < k \<longrightarrow> k < length demo_stop \<longrightarrow>
      scp_stop_verdict (windows (replicate 4 0) (take k demo_stop)) = Inr None"
  proof (intro allI impI)
    fix k assume "0 < k" "k < length demo_stop"
    then have "k \<in> set [1, 2, 3]" unfolding verdicts(3) by auto
    then show "scp_stop_verdict (windows (replicate 4 0) (take k demo_stop)) = Inr None" using verdicts(1) by blast
  qed
  from scripted_await [OF _ _ _ _ _ verdicts(2) this, of ?p deadline "[]" 2] show ?thesis
    using sent assms verdicts(3) by (force simp: sim_tick_def)
qed

lemma demo_hd_read:
  "\<exists>d'. dv_read_track (scp_device (scripted 2)) Normal DensityAuto (demo_hd, []) =
     Some (Inl (Protocol ''immediate capture is too short to locate a revolution overlap''), (d', [])) \<and>
     sim_delivered (sc_world d') = [0xae, 0x4f] @ demo_disk @ demo_stop"
proof -
  have d: "sim_pending (sc_world demo_hd) = [scp_code StartStream, RESPONSE_OK] @ demo_disk @ demo_stop"
      "sim_clock (sc_world demo_hd) = 0" "sim_delivered (sc_world demo_hd) = []" 
      "sc_selected demo_hd" "sc_high_density demo_hd" "ds_motor_running (sc_status demo_hd)"
    by (simp_all add: demo_hd_def demo_scp_def fresh_port_def RESPONSE_OK_def demo_stop_def)
  let ?payload = "[0x04 OR 0x02 OR of_bool (Normal \<noteq> Normal)] :: u8 list"
  obtain packet where packet: "scp_packet StartStream ?payload = Inr packet" "packet \<noteq> []"
    by (simp add: scp_packet_def try_u8_def)
  obtain halt where halt: "scp_packet StopStream [] = Inr halt" "halt \<noteq> []"
    by (simp add: scp_packet_def try_u8_def)
  obtain p1 where cmd: "scp_raw_command (scripted 2) StartStream ?payload demo_hd =
      Some (Inr RESPONSE_OK, demo_hd\<lparr>sc_world := p1\<rparr>)"
    and p1: "sim_pending p1 = demo_disk @ demo_stop" "sim_clock p1 = 2" "sim_delivered p1 = [0xae, 0x4f]"
    using scripted_scp_command [OF packet d(1)] by (simp add: d(2,3) RESPONSE_OK_def)
  define limit where "limit = 2 + SCP_STREAM_TIMEOUT"
  have late: "10370 \<le> limit" "10270 \<le> SCP_MAX_STREAM_BYTES"
    by (simp_all add: limit_def SCP_STREAM_TIMEOUT_def secs_def SCP_MAX_STREAM_BYTES_def)
  have deadline: "within (scripted 2) SCP_STREAM_TIMEOUT io_return p1 = Some (Inr limit, p1)"
    by (simp add: within_def io_bind_def scripted_instant io_run p1 limit_def)
  obtain p2 where stream: "scp_stream_loop (scripted 2) limit Normal True 0 scp_stream_start p1 =
      Some (Inr (ss_events (demo_gaps 130)), p2)"
    and p2: "sim_pending p2 = demo_stop" "sim_clock p2 = 10272" "sim_delivered p2 = [0xae, 0x4f] @ demo_disk"
    using scripted_scp_stream [OF p1(1), of 2 limit 0 Normal True scp_stream_start "demo_gaps 130"]
      demo_disk_stream demo_gaps_run late by (simp add: p1(2,3) demo_disk_def [symmetric])
  obtain p3 p4 where stop: "write_all_until (scripted 2) halt limit ''SuperCard Pro stop stream'' p2 = Some (Inr (), p3)"
    "await_window (scripted 2) limit ''SuperCard Pro stop acknowledgement''
      scp_stop_verdict (replicate 4 0) p3 = Some (Inr (), p4)" and p4: "sim_delivered p4 = [0xae, 0x4f] @ demo_disk @ demo_stop"
    using scripted_scp_stop [OF p2(1) halt(2), of limit] late(1) p2 by auto
  have short: "scp_revolution Normal True (ss_events (demo_gaps 130)) =
      Inl (Protocol ''immediate capture is too short to locate a revolution overlap'')"
    using hd_stream_too_short [OF demo_gaps_run demo_gaps_flux] by (simp add: scp_revolution_def)
  have selected: "scp_select (scripted 2) True demo_hd = Some (Inr (), demo_hd)"
    by (simp add: scp_select_def io_bind_def io_run d(4))
  have "scp_choose_density DensityAuto demo_hd = Some (Inr (), demo_hd)"
    by (simp add: scp_choose_density_def io_run d(5))
  moreover have "scp_read_stream (scripted 2) Normal demo_hd = Some (Inl (Protocol
      ''immediate capture is too short to locate a revolution overlap''), demo_hd\<lparr>sc_world := p4,
        sc_status := (sc_status demo_hd)\<lparr>ds_disk_present := True, ds_ready := True\<rparr>\<rparr>)"
    unfolding scp_read_stream_def
    by (simp add: io_bind_def selected cmd [simplified] scp_start_verdict_def scp_link_def io_zoom_def deadline io_run d(5,6)
        stream halt(1) stop scripted_lines scp_set_status_def scp_idle_def short)
  ultimately show ?thesis
    using p4 by (simp add: scp_device_def scp_read_track_def on_device_def io_zoom_def io_bind_def)
qed

theorem scp_hd_immediate_too_short_witness:
  "\<exists>e d'. dv_read_track (scp_device (scripted 2)) Normal DensityAuto (demo_hd, []) = Some (Inl e, (d', []))"
proof -
  obtain r d' where run: "dv_read_track (scp_device (scripted 2)) Normal DensityAuto (demo_hd, []) = Some (r, (d', []))"
    "sim_delivered (sc_world d') = [0xae, 0x4f] @ demo_disk @ demo_stop"
    using demo_hd_read by blast
  have start: "sim_delivered (sc_world demo_hd) = []" "sc_selected demo_hd" "sc_high_density demo_hd"
    by (simp_all add: demo_hd_def demo_scp_def fresh_port_def)
  have "\<exists>e. r = Inl e"
    by (rule scp_hd_immediate_too_short [OF scripted_laws _ start(2) run(1) _ _ demo_gaps_run [folded demo_disk_def] demo_gaps_flux,
          where ack = "[0xae, 0x4f]" and rest = demo_stop])
      (simp_all add: start run(2))
  then show ?thesis using run(1) by blast
qed

end
