(* ===== verification/Controller_State.thy ===== *)
theory Controller_State
  imports Device Flux_Scan "HOL-Library.AList"
begin

text \<open>
  What the two threads of the controller share (\<^verbatim>\<open>src/controller.rs\<close>): the capture
  cache, the caller's wishes, the status snapshot, the capture in flight, and the channels.

  Every access to shared state in the code is a short section under one lock, or one channel or
  clock operation. A section is a function on the shared state, and \<open>share\<close> runs one: before
  it, the other thread may have run any number of its own sections. What the other thread did is
  an explicit list of functions on the shared state, one per section of this thread; a statement
  for every such list is a statement for every interleaving.

  The library \<^verbatim>\<open>crossbeam_channel\<close> is not part of the crate: its channels, together
  with the clock, are the state \<open>'q\<close> of the record \<open>host\<close>.
\<close>

section \<open>Constants and data\<close>

definition COMMAND_CAPACITY :: nat where "COMMAND_CAPACITY = 64"
definition EVENT_CAPACITY :: nat where "EVENT_CAPACITY = 64"
definition CAPTURES_PER_TRACK :: nat where "CAPTURES_PER_TRACK = 2"
definition MAX_CACHED_TRACKS :: nat where "MAX_CACHED_TRACKS = 8"
definition INDEX_WRITE_SLACK_BITS :: u64 where "INDEX_WRITE_SLACK_BITS = 30"
definition MAX_CONSECUTIVE_ERRORS :: u32 where "MAX_CONSECUTIVE_ERRORS = 20"

datatype bridge_command =
    NoClick side
  | WriteCommand write_id write_request
  | Shutdown

record desired =
  de_motor :: "(side \<times> bool) option"
  de_target :: "track_address option"
  de_wanted :: "track_address option"

definition desired_default :: desired where
  "desired_default = \<lparr>de_motor = None, de_target = None, de_wanted = None\<rparr>"

record partial_capture =
  pc_track :: track_address
  pc_words :: "u16 list"
  pc_bit_len :: nat

text \<open>
  The hash map of the captures is an association list; its iteration order, where the code
  depends on it, is a parameter.
\<close>

type_synonym capture_cache = "(track_address \<times> track_capture list) list"

record 'q shared =
  sh_status :: drive_status
  sh_captures :: capture_cache
  sh_desired :: desired
  sh_partial :: "partial_capture option"
  sh_host :: 'q

section \<open>Channels and clock\<close>

datatype try_send_error = SendFull | SendDisconnected

text \<open>What the \<^verbatim>\<open>select!\<close> of the worker wakes up for.\<close>

datatype selected = SelCommand bridge_command | SelClosed | SelNudge | SelTimeout

record 'q host =
  h_now :: "'q \<Rightarrow> nat \<times> 'q"
  h_sleep :: "nat \<Rightarrow> 'q \<Rightarrow> unit \<times> 'q"
  h_channels :: "nat \<Rightarrow> nat \<Rightarrow> nat \<Rightarrow> 'q \<Rightarrow> 'q"
  h_try_send :: "bridge_command \<Rightarrow> 'q \<Rightarrow> (try_send_error + unit) \<times> 'q"
  h_send :: "bridge_command \<Rightarrow> 'q \<Rightarrow> unit \<times> 'q"
  h_try_recv :: "'q \<Rightarrow> bridge_command option \<times> 'q"
  h_select :: "nat \<Rightarrow> 'q \<Rightarrow> selected \<times> 'q"
  h_try_send_event :: "bridge_event \<Rightarrow> 'q \<Rightarrow> (try_send_error + unit) \<times> 'q"
  h_try_recv_event :: "'q \<Rightarrow> bridge_event option \<times> 'q"
  h_nudge :: "'q \<Rightarrow> unit \<times> 'q"
  h_join :: "'q \<Rightarrow> unit \<times> 'q"

section \<open>Threads and their sections\<close>

record 'q thread =
  th_shared :: "'q shared"
  th_others :: "('q shared \<Rightarrow> 'q shared) list"

definition interfere :: "('q shared \<Rightarrow> 'q shared) list \<Rightarrow> 'q shared \<Rightarrow> 'q shared" where
  "interfere others sh = (case others of [] \<Rightarrow> sh | e # _ \<Rightarrow> e sh)"

definition share :: "('q shared \<Rightarrow> 'a \<times> 'q shared) \<Rightarrow> (('q, 'z) thread_scheme, 'a) io" where
  "share act t =
     (let (a, sh) = act (interfere (th_others t) (th_shared t))
      in Some (Inr a, t\<lparr>th_shared := sh, th_others := tl (th_others t)\<rparr>))"

definition peek :: "('q shared \<Rightarrow> 'a) \<Rightarrow> 'q shared \<Rightarrow> 'a \<times> 'q shared" where
  "peek f sh = (f sh, sh)"

definition poke :: "('q shared \<Rightarrow> 'q shared) \<Rightarrow> 'q shared \<Rightarrow> unit \<times> 'q shared" where
  "poke f sh = ((), f sh)"

definition on_host :: "('q \<Rightarrow> 'a \<times> 'q) \<Rightarrow> 'q shared \<Rightarrow> 'a \<times> 'q shared" where
  "on_host op sh = (let (a, q) = op (sh_host sh) in (a, sh\<lparr>sh_host := q\<rparr>))"

section \<open>The capture cache\<close>

definition front_capture :: "capture_cache \<Rightarrow> track_address \<Rightarrow> track_capture option" where
  "front_capture cache track =
     (case map_of cache track of
        Some (c # _) \<Rightarrow> Some c
      | _ \<Rightarrow> None)"

definition wanted_depth :: "track_capture option \<Rightarrow> nat" where
  "wanted_depth newest =
     (case newest of
        Some capture \<Rightarrow> if \<not> reusable (tc_quality capture) then CAPTURES_PER_TRACK else 1
      | None \<Rightarrow> 1)"

definition back_capture :: "track_capture list \<Rightarrow> track_capture option" where
  "back_capture captures = (if captures = [] then None else Some (last captures))"

definition track_full :: "capture_cache \<Rightarrow> track_address \<Rightarrow> bool" where
  "track_full cache track =
     (let captures = map_of cache track;
          depth = wanted_depth (case captures of None \<Rightarrow> None | Some cs \<Rightarrow> back_capture cs)
      in case captures of None \<Rightarrow> False | Some cs \<Rightarrow> length cs \<ge> depth)"

text \<open>\<open>keys\<close> is the iteration order of the hash map.\<close>

definition store_capture ::
  "(track_address list \<Rightarrow> track_address list) \<Rightarrow> track_address \<Rightarrow> track_capture \<Rightarrow> capture_cache \<Rightarrow>
     capture_cache" where
  "store_capture keys wanted capture cache =
     (let cache =
        (if length cache \<ge> MAX_CACHED_TRACKS \<and> map_of cache wanted = None
         then case find (\<lambda>key. key \<noteq> wanted) (keys (map fst cache)) of
                None \<Rightarrow> cache
              | Some key \<Rightarrow> AList.delete key cache
         else cache);
          captures = (case map_of cache wanted of None \<Rightarrow> [] | Some captures \<Rightarrow> captures);
          captures = (if length captures \<ge> CAPTURES_PER_TRACK then tl captures else captures)
      in AList.update wanted (captures @ [capture]) cache)"

definition retire_capture :: "track_address \<Rightarrow> capture_cache \<Rightarrow> capture_cache" where
  "retire_capture track cache =
     (case map_of cache track of
        None \<Rightarrow> cache
      | Some captures \<Rightarrow> AList.update track (tl captures) cache)"

section \<open>Placing a write\<close>

text \<open>
  The check \<^verbatim>\<open>start_bit <= SLACK || start_bit + SLACK >= track_bits\<close>. The sum is
  unchecked: when it exceeds the 64-bit word it panics in a build with overflow checks and wraps
  around in one without.
\<close>

definition starts_at_index :: "bool \<Rightarrow> u64 \<Rightarrow> nat \<Rightarrow> ('s, bool) io" where
  "starts_at_index checks start_bit track_bits =
     (if start_bit \<le> INDEX_WRITE_SLACK_BITS then io_return True
      else if checks \<and> unat start_bit + unat INDEX_WRITE_SLACK_BITS \<ge> 2 ^ 64 then io_panic
      else io_return (unat (start_bit + INDEX_WRITE_SLACK_BITS) \<ge> track_bits))"

section \<open>What is relied on of the channels and the clock\<close>

text \<open>
  Observers: the clock, the commands and the events in the channels, oldest first. Each channel
  is first in, first out; a send that is not accepted leaves it alone; sleeping and reading the
  clock do not turn it back, and sleeping takes at least the time asked for.
\<close>

definition host_laws ::
  "'q host \<Rightarrow> ('q \<Rightarrow> nat) \<Rightarrow> ('q \<Rightarrow> bridge_command list) \<Rightarrow> ('q \<Rightarrow> bridge_event list) \<Rightarrow> bool" where
  "host_laws H clock cmds evs \<longleftrightarrow>
     (\<forall>q. let (t, q') = h_now H q in clock q \<le> clock q' \<and> t = clock q' \<and> cmds q' = cmds q \<and> evs q' = evs q) \<and>
     (\<forall>d q. let q' = snd (h_sleep H d q) in clock q + d \<le> clock q' \<and> cmds q' = cmds q \<and> evs q' = evs q) \<and>
     (\<forall>c q. let (r, q') = h_try_send H c q in clock q \<le> clock q' \<and> evs q' = evs q \<and>
        cmds q' = (case r of Inl _ \<Rightarrow> cmds q | Inr _ \<Rightarrow> cmds q @ [c])) \<and>
     (\<forall>q. let (r, q') = h_try_recv H q in clock q \<le> clock q' \<and> evs q' = evs q \<and>
        (case r of None \<Rightarrow> cmds q' = cmds q | Some c \<Rightarrow> cmds q = c # cmds q')) \<and>
     (\<forall>d q. let (r, q') = h_select H d q in clock q \<le> clock q' \<and> evs q' = evs q \<and>
        (case r of SelCommand c \<Rightarrow> cmds q = c # cmds q' | _ \<Rightarrow> cmds q' = cmds q)) \<and>
     (\<forall>e q. let (r, q') = h_try_send_event H e q in clock q \<le> clock q' \<and> cmds q' = cmds q \<and>
        evs q' = (case r of Inl _ \<Rightarrow> evs q | Inr _ \<Rightarrow> evs q @ [e])) \<and>
     (\<forall>q. let (r, q') = h_try_recv_event H q in clock q \<le> clock q' \<and> cmds q' = cmds q \<and>
        (case r of None \<Rightarrow> evs q' = evs q | Some e \<Rightarrow> evs q = e # evs q')) \<and>
     (\<forall>a b c q. cmds (h_channels H a b c q) = [] \<and> evs (h_channels H a b c q) = []) \<and>
     (\<forall>c q. let q' = snd (h_send H c q) in clock q \<le> clock q' \<and> evs q' = evs q \<and>
        (cmds q' = cmds q \<or> cmds q' = cmds q @ [c])) \<and>
     (\<forall>q. let q' = snd (h_nudge H q) in clock q \<le> clock q' \<and> cmds q' = cmds q \<and> evs q' = evs q) \<and>
     (\<forall>q. let q' = snd (h_join H q) in clock q \<le> clock q' \<and> cmds q' = cmds q \<and> evs q' = evs q)"

lemma host_lawsD:
  assumes "host_laws H clock cmds evs"
  shows host_now: "clock q \<le> clock (snd (h_now H q))" "fst (h_now H q) = clock (snd (h_now H q))"
      "cmds (snd (h_now H q)) = cmds q" "evs (snd (h_now H q)) = evs q"
    and host_sleep: "clock q + d \<le> clock (snd (h_sleep H d q))" "cmds (snd (h_sleep H d q)) = cmds q"
      "evs (snd (h_sleep H d q)) = evs q"
    and host_try_send: "cmds (snd (h_try_send H c q)) =
        (case fst (h_try_send H c q) of Inl _ \<Rightarrow> cmds q | Inr _ \<Rightarrow> cmds q @ [c])"
      "evs (snd (h_try_send H c q)) = evs q"
    and host_try_recv: "case fst (h_try_recv H q) of None \<Rightarrow> cmds (snd (h_try_recv H q)) = cmds q
        | Some c \<Rightarrow> cmds q = c # cmds (snd (h_try_recv H q))"
      "evs (snd (h_try_recv H q)) = evs q"
    and host_select: "case fst (h_select H d q) of SelCommand c \<Rightarrow> cmds q = c # cmds (snd (h_select H d q))
        | _ \<Rightarrow> cmds (snd (h_select H d q)) = cmds q"
      "evs (snd (h_select H d q)) = evs q"
    and host_event: "evs (snd (h_try_send_event H e q)) =
        (case fst (h_try_send_event H e q) of Inl _ \<Rightarrow> evs q | Inr _ \<Rightarrow> evs q @ [e])"
      "cmds (snd (h_try_send_event H e q)) = cmds q"
    and host_try_recv_event: "cmds (snd (h_try_recv_event H q)) = cmds q"
    and host_send: "cmds (snd (h_send H c q)) = cmds q \<or> cmds (snd (h_send H c q)) = cmds q @ [c]"
    and host_nudge: "cmds (snd (h_nudge H q)) = cmds q" "evs (snd (h_nudge H q)) = evs q"
    and host_join: "cmds (snd (h_join H q)) = cmds q"
    and host_channels: "cmds (h_channels H a b n q) = []" "evs (h_channels H a b n q) = []"
  using assms unfolding host_laws_def Let_def by (simp_all add: split_def)

end
