(* ===== verification/Controller_Bridge.thy ===== *)
theory Controller_Bridge
  imports Controller_State
begin

text \<open>
  The caller's side of the controller: the methods of \<^verbatim>\<open>Bridge\<close>
  (\<^verbatim>\<open>src/controller.rs\<close>) as programs of shared sections.
\<close>

record 'q bridge = "'q thread" +
  br_selected_port :: port_id
  br_next_write :: u64
  br_max_cylinders :: u8
  br_stall_timeout :: "nat option"

type_synonym ('q, 'a) bridge_io = "('q bridge, 'a) io"

definition bridge_nudge :: "'q host \<Rightarrow> ('q, unit) bridge_io" where
  "bridge_nudge H = share (on_host (h_nudge H))"

definition bridge_status :: "('q, drive_status) bridge_io" where
  "bridge_status = share (peek sh_status)"

text \<open>The wishes: each section overwrites what it records.\<close>

definition wish_motor :: "side \<Rightarrow> bool \<Rightarrow> 'q shared \<Rightarrow> 'q shared" where
  "wish_motor side enabled = sh_desired_update (de_motor_update (\<lambda>_. Some (side, enabled)))"

definition wish_target :: "track_address \<Rightarrow> 'q shared \<Rightarrow> 'q shared" where
  "wish_target track = sh_desired_update (de_target_update (\<lambda>_. Some track))"

definition wish_read :: "track_address \<Rightarrow> 'q shared \<Rightarrow> 'q shared" where
  "wish_read track = sh_desired_update (\<lambda>d. d\<lparr>de_target := Some track, de_wanted := Some track\<rparr>)"

definition bridge_set_motor :: "'q host \<Rightarrow> side \<Rightarrow> bool \<Rightarrow> ('q, unit) bridge_io" where
  "bridge_set_motor H side enabled = io_then (share (poke (wish_motor side enabled))) (bridge_nudge H)"

definition bridge_clamp :: "track_address \<Rightarrow> ('q, track_address) bridge_io" where
  "bridge_clamp track = io_gets (\<lambda>b. clamp_track track (br_max_cylinders b))"

definition bridge_seek :: "'q host \<Rightarrow> track_address \<Rightarrow> ('q, unit) bridge_io" where
  "bridge_seek H track =
     io_bind (bridge_clamp track) (\<lambda>track.
       io_then (share (poke (wish_target track))) (bridge_nudge H))"

definition bridge_enqueue :: "'q host \<Rightarrow> bridge_command \<Rightarrow> ('q, unit) bridge_io" where
  "bridge_enqueue H command =
     io_bind (share (on_host (h_try_send H command))) (\<lambda>r.
       case r of
         Inr _ \<Rightarrow> io_return ()
       | Inl SendFull \<Rightarrow> io_throw (InvalidConfig ''bridge command queue is full'')
       | Inl SendDisconnected \<Rightarrow> io_throw WorkerStopped)"

definition bridge_no_click_step :: "'q host \<Rightarrow> side \<Rightarrow> ('q, unit) bridge_io" where
  "bridge_no_click_step H side = bridge_enqueue H (NoClick side)"

text \<open>The wait of a stalling read. A value \<open>None\<close> would be a wait that never ends.\<close>

partial_function (option) stall_loop ::
  "'q host \<Rightarrow> track_address \<Rightarrow> nat \<Rightarrow> ('q, track_capture option) bridge_io" where
  "stall_loop H track deadline b =
     io_bind (share (on_host (h_now H))) (\<lambda>now b.
       if now < deadline then
         io_bind (share (peek (\<lambda>sh. front_capture (sh_captures sh) track))) (\<lambda>capture b.
           case capture of
             Some capture \<Rightarrow> io_return (Some capture) b
           | None \<Rightarrow>
               io_bind bridge_status (\<lambda>status b.
                 if \<not> ds_working status then io_throw WorkerStopped b
                 else io_bind (share (on_host (h_sleep H (millis 1)))) (\<lambda>_ b.
                   stall_loop H track deadline b) b) b) b
       else io_return None b) b"

definition bridge_read_track :: "'q host \<Rightarrow> track_address \<Rightarrow> ('q, track_capture option) bridge_io" where
  "bridge_read_track H track =
     io_bind (bridge_clamp track) (\<lambda>track.
       io_then (share (poke (wish_read track)))
         (io_bind (share (peek (\<lambda>sh. front_capture (sh_captures sh) track))) (\<lambda>capture.
           case capture of
             Some capture \<Rightarrow> io_return (Some capture)
           | None \<Rightarrow>
               io_then (bridge_nudge H)
                 (io_bind (io_gets br_stall_timeout) (\<lambda>timeout.
                   case timeout of
                     None \<Rightarrow> io_return None
                   | Some timeout \<Rightarrow>
                       io_bind (share (on_host (h_now H))) (\<lambda>now.
                         stall_loop H track (now + timeout)))))))"

definition partial_of :: "track_address \<Rightarrow> partial_capture option \<Rightarrow> (u16 list \<times> nat) option" where
  "partial_of track partial =
     (case partial of
        None \<Rightarrow> None
      | Some p \<Rightarrow> if pc_track p = track \<and> 0 < pc_bit_len p then Some (pc_words p, pc_bit_len p) else None)"

definition bridge_partial_track :: "track_address \<Rightarrow> ('q, (u16 list \<times> nat) option) bridge_io" where
  "bridge_partial_track track =
     io_bind (bridge_clamp track) (\<lambda>track. share (peek (\<lambda>sh. partial_of track (sh_partial sh))))"

definition bridge_advance_revolution :: "'q host \<Rightarrow> track_address \<Rightarrow> ('q, unit) bridge_io" where
  "bridge_advance_revolution H track =
     io_bind (bridge_clamp track) (\<lambda>track.
       io_then (share (poke (sh_captures_update (retire_capture track))))
         (io_then (share (poke (wish_read track))) (bridge_nudge H)))"

text \<open>The checks of a write that do not look at shared state.\<close>

definition check_write :: "write_request \<Rightarrow> unit result" where
  "check_write request =
     (let words = wr_words request; bit_len = wr_bit_len request in
      if words = [] then Inl (InvalidConfig ''cannot submit an empty write'')
      else if length words * 16 \<ge> 2 ^ 64 then Inl (InvalidConfig ''write length overflow'')
      else if bit_len = 0 \<or> bit_len > length words * 16
      then Inl (InvalidConfig (''write bit length '' @ dec_string bit_len @ '' does not fit '' @
             dec_string (length words) @ '' words''))
      else if bit_len > MAX_TRACK_BITS then Inl (TrackTooLarge bit_len MAX_TRACK_BITS)
      else Inr ())"

definition bridge_submit_write ::
  "bool \<Rightarrow> 'q host \<Rightarrow> write_request \<Rightarrow> ('q, write_id) bridge_io" where
  "bridge_submit_write checks H request =
     io_bind (bridge_clamp (wr_track request)) (\<lambda>track.
       let request = request\<lparr>wr_track := track\<rparr> in
       io_then (io_result (check_write request))
        (io_bind bridge_status (\<lambda>status.
          if ds_write_protected status then io_throw WriteProtected
          else io_bind (share (peek (\<lambda>sh. case front_capture (sh_captures sh) track of
                 None \<Rightarrow> 0 | Some capture \<Rightarrow> tc_bit_len capture))) (\<lambda>known.
            io_then
              (io_when (0 < known)
                (io_bind (starts_at_index checks (wr_start_bit request) known) (\<lambda>from_index.
                  if \<not> from_index \<and> \<not> wr_bit_len request + 16 \<ge> known
                  then io_throw (UnplaceablePartialWrite (unat (wr_start_bit request)) known)
                  else io_return ())))
              (io_bind (io_gets br_next_write) (\<lambda>next_write.
                io_then (io_modify (br_next_write_update (\<lambda>n. max (n + 1) 1)))
                  (io_then (bridge_enqueue H (WriteCommand (WriteId next_write) request))
                    (io_return (WriteId next_write)))))))))"

definition bridge_poll_event :: "'q host \<Rightarrow> ('q, bridge_event option) bridge_io" where
  "bridge_poll_event H = share (on_host (h_try_recv_event H))"

definition bridge_drop :: "'q host \<Rightarrow> ('q, unit) bridge_io" where
  "bridge_drop H =
     io_then (share (on_host (h_send H Shutdown))) (share (on_host (h_join H)))"

end
