(* ===== verification/Controller_Worker.thy ===== *)
theory Controller_Worker
  imports Controller_Bridge
begin

text \<open>
  The thread that owns the device: the methods of \<^verbatim>\<open>Worker\<close>
  (\<^verbatim>\<open>src/controller.rs\<close>). Calls on the device are the operations of a
  \<open>device\<close> record; the state shared with the caller is reached through \<open>share\<close>.
\<close>

record ('d, 'q) worker = "'q thread" +
  wk_device :: 'd
  wk_target :: track_address
  wk_wanted :: "track_address option"
  wk_physical :: track_address
  wk_positioned :: bool
  wk_failed :: bool
  wk_errors :: u32
  wk_motor_stopped :: "nat option"
  wk_generation :: u64
  wk_next_status :: nat

text \<open>
  What a worker runs with: its configuration, the device's operations, the channels and the
  clock, the iteration orders of the two hash tables, and whether the build checks overflow.
\<close>

record ('d, 'q) setting =
  se_config :: bridge_config
  se_device :: "'d device"
  se_host :: "'q host"
  se_sync_order :: "nat list \<Rightarrow> nat list"
  se_key_order :: "track_address list \<Rightarrow> track_address list"
  se_overflow_checks :: bool

type_synonym ('d, 'q, 'a) worker_io = "(('d, 'q) worker, 'a) io"

definition call_device :: "('d, 'a) io \<Rightarrow> ('d, 'q, 'a) worker_io" where
  "call_device m = io_zoom wk_device (\<lambda>d w. w\<lparr>wk_device := d\<rparr>) m"

definition send_event :: "('d, 'q) setting \<Rightarrow> bridge_event \<Rightarrow> ('d, 'q, unit) worker_io" where
  "send_event E event = io_ignore (share (on_host (h_try_send_event (se_host E) event)))"

section \<open>Errors\<close>

definition worker_disconnect :: "('d, 'q) setting \<Rightarrow> error \<Rightarrow> ('d, 'q, unit) worker_io" where
  "worker_disconnect E error =
     io_then (io_modify (wk_failed_update (\<lambda>_. True)))
      (io_then (share (poke (sh_status_update (ds_working_update (\<lambda>_. False)))))
        (send_event E (BridgeDisconnected error)))"

definition worker_note_error :: "('d, 'q) setting \<Rightarrow> error \<Rightarrow> ('d, 'q, unit) worker_io" where
  "worker_note_error E error =
     io_then (io_modify (wk_errors_update (\<lambda>n. n + 1)))
      (io_bind (io_gets wk_errors) (\<lambda>errors.
        io_when (error = Disconnected \<or> error = WorkerStopped \<or> errors \<ge> MAX_CONSECUTIVE_ERRORS)
          (worker_disconnect E error)))"

section \<open>Position and writes\<close>

definition worker_move :: "('d, 'q) setting \<Rightarrow> track_address \<Rightarrow> ('d, 'q, unit) worker_io" where
  "worker_move E track =
     io_bind (io_gets (\<lambda>w. (wk_positioned w, wk_physical w))) (\<lambda>(positioned, physical).
       io_then
         (io_when (\<not> positioned \<or> ta_cylinder physical \<noteq> ta_cylinder track)
           (io_then (call_device (dv_seek (se_device E) (ta_cylinder track)))
             (io_modify (wk_physical_update (ta_cylinder_update (\<lambda>_. ta_cylinder track))))))
         (io_when (\<not> positioned \<or> ta_side physical \<noteq> ta_side track)
           (io_then (call_device (dv_select_side (se_device E) (ta_side track)))
             (io_modify (wk_physical_update (ta_side_update (\<lambda>_. ta_side track)))))))"

definition worker_confirm :: "('d, 'q, unit) worker_io" where
  "worker_confirm =
     io_then (io_modify (wk_positioned_update (\<lambda>_. True)))
       (io_bind (io_gets wk_physical) (\<lambda>physical.
         share (poke (sh_status_update (\<lambda>s. s\<lparr>ds_cylinder := ta_cylinder physical,
           ds_side := ta_side physical\<rparr>)))))"

definition worker_position :: "('d, 'q) setting \<Rightarrow> track_address \<Rightarrow> ('d, 'q, unit) worker_io" where
  "worker_position E track = io_then (worker_move E track) worker_confirm"

definition worker_place_write ::
  "('d, 'q) setting \<Rightarrow> write_request \<Rightarrow> ('d, 'q, unit) worker_io" where
  "worker_place_write E request =
     io_then (worker_position E (wr_track request))
      (io_bind (share (peek (\<lambda>sh. case front_capture (sh_captures sh) (wr_track request) of
           None \<Rightarrow> wr_bit_len request | Some capture \<Rightarrow> tc_bit_len capture))) (\<lambda>track_bits.
        io_bind (starts_at_index (se_overflow_checks E) (wr_start_bit request) track_bits) (\<lambda>from_index.
          if \<not> from_index \<and> \<not> wr_bit_len request + 16 \<ge> track_bits
          then io_throw (UnplaceablePartialWrite (unat (wr_start_bit request)) track_bits)
          else call_device (dv_write_track (se_device E) (wr_words request) (wr_bit_len request)
                 from_index (cfg_density (se_config E))))))"

definition write_event :: "write_id \<Rightarrow> write_request \<Rightarrow> error + unit \<Rightarrow> bridge_event" where
  "write_event ident request r =
     (case r of
        Inr _ \<Rightarrow> WriteCompleted ident (wr_track request) (wr_bit_len request)
      | Inl error \<Rightarrow> WriteFailed ident (wr_track request) error)"

definition worker_perform_write ::
  "('d, 'q) setting \<Rightarrow> write_id \<Rightarrow> write_request \<Rightarrow> ('d, 'q, unit) worker_io" where
  "worker_perform_write E ident request =
     io_bind (attempt (worker_place_write E request)) (\<lambda>r.
       io_then (share (poke (sh_captures_update (AList.delete (wr_track request)))))
         (send_event E (write_event ident request r)))"

text \<open>One command; the result is whether to stop.\<close>

definition worker_process :: "('d, 'q) setting \<Rightarrow> bridge_command \<Rightarrow> ('d, 'q, bool) worker_io" where
  "worker_process E command =
     (case command of
        NoClick side \<Rightarrow>
          io_bind (attempt (call_device (io_then (dv_select_side (se_device E) side)
              (dv_no_click_step (se_device E))))) (\<lambda>r.
            io_then (case r of Inl error \<Rightarrow> worker_note_error E error | Inr _ \<Rightarrow> io_return ())
              (io_gets wk_failed))
      | WriteCommand ident request \<Rightarrow> io_then (worker_perform_write E ident request) (io_gets wk_failed)
      | Shutdown \<Rightarrow> io_return True)"

section \<open>Wishes\<close>

text \<open>The wishes are taken in one section.\<close>

definition take_desired :: "'q shared \<Rightarrow> desired \<times> 'q shared" where
  "take_desired sh = (sh_desired sh, sh\<lparr>sh_desired := desired_default\<rparr>)"

definition worker_quick :: "('d, 'q) setting \<Rightarrow> bool \<Rightarrow> ('d, 'q, bool) worker_io" where
  "worker_quick E enabled =
     (if \<not> enabled then io_return True
      else io_bind (io_gets wk_motor_stopped) (\<lambda>stopped.
        case stopped of
          None \<Rightarrow> io_return False
        | Some stopped \<Rightarrow> io_bind (share (on_host (h_now (se_host E)))) (\<lambda>now.
            io_return (now - stopped < secs 2))))"

definition worker_apply_motor :: "('d, 'q) setting \<Rightarrow> side \<Rightarrow> bool \<Rightarrow> ('d, 'q, unit) worker_io" where
  "worker_apply_motor E side enabled =
     io_bind (worker_quick E enabled) (\<lambda>quick.
       io_bind (io_gets (\<lambda>w. ta_cylinder (wk_target w))) (\<lambda>cylinder.
         io_bind (attempt
             (io_then (worker_position E \<lparr>ta_cylinder = cylinder, ta_side = side\<rparr>)
               (io_then (call_device (dv_set_motor (se_device E) enabled quick))
                 (share (poke (sh_status_update (ds_motor_running_update (\<lambda>_. enabled)))))))) (\<lambda>r.
           case r of
             Inr _ \<Rightarrow>
               io_then (io_modify (wk_errors_update (\<lambda>_. 0)))
                 (io_when (\<not> enabled)
                   (io_bind (share (on_host (h_now (se_host E)))) (\<lambda>now.
                     io_modify (wk_motor_stopped_update (\<lambda>_. Some now)))))
           | Inl error \<Rightarrow> worker_note_error E error)))"

definition worker_apply_desired :: "('d, 'q) setting \<Rightarrow> ('d, 'q, unit) worker_io" where
  "worker_apply_desired E =
     io_bind (share take_desired) (\<lambda>wish.
       io_then (case de_wanted wish of None \<Rightarrow> io_return ()
                | Some track \<Rightarrow> io_modify (wk_wanted_update (\<lambda>_. Some track)))
        (io_bind (case de_target wish of
             None \<Rightarrow> io_return True
           | Some track \<Rightarrow>
               io_then (io_modify (wk_target_update (\<lambda>_. track)))
                 (io_bind (attempt (worker_position E track)) (\<lambda>r.
                   case r of
                     Inl error \<Rightarrow> io_then (worker_note_error E error) (io_return False)
                   | Inr _ \<Rightarrow> io_then (io_modify (wk_errors_update (\<lambda>_. 0))) (io_return True)))) (\<lambda>go_on.
          io_when go_on
            (case de_motor wish of
               None \<Rightarrow> io_return ()
             | Some (side, enabled) \<Rightarrow> worker_apply_motor E side enabled))))"

section \<open>Status\<close>

definition worker_refresh_status :: "('d, 'q) setting \<Rightarrow> ('d, 'q, unit) worker_io" where
  "worker_refresh_status E =
     io_bind (share (on_host (h_now (se_host E)))) (\<lambda>now.
       io_bind (io_gets wk_next_status) (\<lambda>due.
         if now < due then io_return ()
         else io_bind (share (on_host (h_now (se_host E)))) (\<lambda>now.
           io_then (io_modify (wk_next_status_update (\<lambda>_. now + millis 250)))
            (io_bind (share (peek sh_status)) (\<lambda>old.
              io_bind (attempt (call_device (dv_status (se_device E)))) (\<lambda>r.
                case r of
                  Inr new \<Rightarrow>
                    io_bind (io_gets wk_physical) (\<lambda>physical.
                      io_then
                        (io_when (ds_disk_present old \<noteq> ds_disk_present new)
                          (io_then (share (poke (sh_captures_update (\<lambda>_. []))))
                            (send_event E (DiskChanged (ds_disk_present new)))))
                       (io_then (share (poke (sh_status_update (\<lambda>_.
                            new\<lparr>ds_cylinder := ta_cylinder physical, ds_side := ta_side physical\<rparr>))))
                         (io_modify (wk_errors_update (\<lambda>_. 0)))))
                | Inl error \<Rightarrow> worker_note_error E error))))))"

section \<open>Captures\<close>

text \<open>The progress callback: one section for each partial capture, in order.\<close>

fun publish_all :: "track_address \<Rightarrow> progress_log \<Rightarrow> ('d, 'q, unit) worker_io" where
  "publish_all track [] = io_return ()"
| "publish_all track ((words, bit_len) # log) =
     io_then (share (poke (sh_partial_update (\<lambda>_.
         Some \<lparr>pc_track = track, pc_words = words, pc_bit_len = bit_len\<rparr>))))
       (publish_all track log)"

definition call_read :: "('d, 'q) setting \<Rightarrow> ('d, 'q, raw_capture result \<times> progress_log) worker_io" where
  "call_read E w =
     (case dv_read_track (se_device E) (cfg_mode (se_config E)) (cfg_density (se_config E))
             (wk_device w, []) of
        None \<Rightarrow> None
      | Some (r, (d, log)) \<Rightarrow> Some (Inr (r, log), w\<lparr>wk_device := d\<rparr>))"

definition worker_read :: "('d, 'q) setting \<Rightarrow> track_address \<Rightarrow> ('d, 'q, raw_capture result) worker_io" where
  "worker_read E wanted =
     io_bind (call_read E) (\<lambda>(r, log). io_then (publish_all wanted log) (io_return r))"

definition grade_capture :: "(nat list \<Rightarrow> nat list) \<Rightarrow> raw_capture \<Rightarrow> capture_quality" where
  "grade_capture order capture =
     (if rc_index_aligned capture then IndexAligned
      else case scan_revolution order (rc_words capture) (rc_bit_len capture) of
             CleanAmigaDos sectors \<Rightarrow> VerifiedAmigaDos sectors
           | DamagedAmigaDos _ _ \<Rightarrow> Unverified
           | Unrecognised \<Rightarrow> Unverified)"

definition worker_accept ::
  "('d, 'q) setting \<Rightarrow> track_address \<Rightarrow> raw_capture \<Rightarrow> ('d, 'q, unit) worker_io" where
  "worker_accept E wanted capture =
     io_then (share (poke (sh_partial_update (\<lambda>_. None))))
      (io_then (io_modify (\<lambda>w. w\<lparr>wk_errors := 0, wk_generation := wk_generation w + 1\<rparr>))
        (io_bind (io_gets wk_generation) (\<lambda>generation.
          share (poke (sh_captures_update (store_capture (se_key_order E) wanted
            \<lparr>tc_words = rc_words capture, tc_bit_len = rc_bit_len capture,
             tc_quality = grade_capture (se_sync_order E) capture, tc_generation = generation\<rparr>))))))"

text \<open>The error of a read that is a state of the world rather than a fault.\<close>

definition is_timeout :: "error \<Rightarrow> bool" where
  "is_timeout error = (case error of Timeout _ \<Rightarrow> True | _ \<Rightarrow> False)"

definition worker_take_capture ::
  "('d, 'q) setting \<Rightarrow> track_address \<Rightarrow> ('d, 'q, bool) worker_io" where
  "worker_take_capture E wanted =
     io_bind (attempt (worker_position E wanted)) (\<lambda>r.
       case r of
         Inl error \<Rightarrow> io_then (worker_note_error E error) (io_return False)
       | Inr _ \<Rightarrow> io_bind (worker_read E wanted) (\<lambda>r.
           case r of
             Inl error \<Rightarrow>
               io_then (io_when (\<not> is_timeout error) (worker_note_error E error)) (io_return False)
           | Inr capture \<Rightarrow>
               (case validate_capture capture of
                  Inl error \<Rightarrow> io_then (worker_note_error E error) (io_return False)
                | Inr _ \<Rightarrow> io_then (worker_accept E wanted capture) (io_return True))))"

definition worker_capture :: "('d, 'q) setting \<Rightarrow> ('d, 'q, bool) worker_io" where
  "worker_capture E =
     io_bind (share (peek sh_status)) (\<lambda>status.
       if \<not> ds_working status \<or> \<not> ds_motor_running status \<or> \<not> ds_disk_present status
       then io_return False
       else io_bind (io_gets (\<lambda>w. (wk_wanted w, wk_target w))) (\<lambda>(wanted, target).
         case wanted of
           None \<Rightarrow> io_return False
         | Some wanted \<Rightarrow>
             if wanted \<noteq> target then io_return False
             else io_bind (share (peek (\<lambda>sh. track_full (sh_captures sh) wanted))) (\<lambda>full.
               if full then io_return False else worker_take_capture E wanted)))"

section \<open>The loop\<close>

text \<open>All commands waiting; the result is whether to stop.\<close>

partial_function (option) worker_drain :: "('d, 'q) setting \<Rightarrow> ('d, 'q, bool) worker_io" where
  "worker_drain E w =
     io_bind (share (on_host (h_try_recv (se_host E)))) (\<lambda>command w.
       case command of
         None \<Rightarrow> io_return False w
       | Some command \<Rightarrow>
           io_bind (worker_process E command) (\<lambda>stop w.
             if stop then io_return True w else worker_drain E w) w) w"

definition worker_wait :: "('d, 'q) setting \<Rightarrow> ('d, 'q, bool) worker_io" where
  "worker_wait E =
     io_bind (share (on_host (h_select (se_host E) (millis 5)))) (\<lambda>selected.
       case selected of
         SelCommand command \<Rightarrow> worker_process E command
       | SelClosed \<Rightarrow> io_return True
       | SelNudge \<Rightarrow> io_return False
       | SelTimeout \<Rightarrow> io_return False)"

text \<open>
  One pass of the loop: \<open>None\<close> leaves it, \<open>Some hot\<close> goes round again, without
  waiting when \<open>hot\<close>.
\<close>

definition unless_failed :: "('d, 'q, bool option) worker_io \<Rightarrow> ('d, 'q, bool option) worker_io" where
  "unless_failed m = io_bind (io_gets wk_failed) (\<lambda>failed. if failed then io_return None else m)"

definition worker_pass :: "('d, 'q) setting \<Rightarrow> bool \<Rightarrow> ('d, 'q, bool option) worker_io" where
  "worker_pass E hot =
     io_bind (if hot then io_return False else worker_wait E) (\<lambda>stop.
       if stop then io_return None
       else io_bind (worker_drain E) (\<lambda>stop.
         if stop then io_return None
         else io_then (worker_apply_desired E)
          (unless_failed (io_then (worker_refresh_status E)
            (unless_failed (io_bind (worker_capture E) (\<lambda>hot.
              unless_failed (io_return (Some hot)))))))))"

definition worker_finish :: "('d, 'q) setting \<Rightarrow> ('d, 'q, unit) worker_io" where
  "worker_finish E =
     io_then (io_ignore (call_device (dv_set_motor (se_device E) False True)))
       (share (poke (sh_status_update (ds_working_update (\<lambda>_. False)))))"

partial_function (option) worker_run :: "('d, 'q) setting \<Rightarrow> bool \<Rightarrow> ('d, 'q, unit) worker_io" where
  "worker_run E hot w =
     io_bind (worker_pass E hot) (\<lambda>next_hot w.
       case next_hot of None \<Rightarrow> worker_finish E w | Some hot \<Rightarrow> worker_run E hot w) w"

section \<open>Starting\<close>

definition shared_initial :: "'q host \<Rightarrow> drive_status \<Rightarrow> 'q \<Rightarrow> 'q shared" where
  "shared_initial H status q =
     \<lparr>sh_status = status, sh_captures = [], sh_desired = desired_default, sh_partial = None,
      sh_host = h_channels H COMMAND_CAPACITY EVENT_CAPACITY 1 q\<rparr>"

definition bridge_initial ::
  "bridge_config \<Rightarrow> drive_status \<Rightarrow> port_id \<Rightarrow> 'q shared \<Rightarrow> ('q shared \<Rightarrow> 'q shared) list \<Rightarrow> 'q bridge" where
  "bridge_initial cfg status port sh others =
     \<lparr>th_shared = sh, th_others = others, br_selected_port = port, br_next_write = 1,
      br_max_cylinders = ds_max_cylinders status,
      br_stall_timeout = (if cfg_mode cfg = Stalling then Some (cfg_stall_timeout cfg) else None)\<rparr>"

text \<open>The worker reads the clock when it starts.\<close>

definition worker_new ::
  "('d, 'q) setting \<Rightarrow> 'd \<Rightarrow> 'q shared \<Rightarrow> ('q shared \<Rightarrow> 'q shared) list \<Rightarrow> ('d, 'q) worker" where
  "worker_new E d sh others =
     (let (now, sh) = on_host (h_now (se_host E)) (interfere others sh) in
      \<lparr>th_shared = sh, th_others = tl others, wk_device = d, wk_target = track_default,
       wk_wanted = None, wk_physical = track_default, wk_positioned = False, wk_failed = False,
       wk_errors = 0, wk_motor_stopped = None, wk_generation = 0, wk_next_status = now\<rparr>)"

end
