(* ===== verification/Controller_Cache.thy ===== *)
theory Controller_Cache
  imports Controller_State
begin

text \<open>
  The capture cache as an abstract data type: the locale \<open>capture_store\<close> states what its
  users rely on, and the association list of the model implements it. The specification it refines
  is a queue of captures per track that keeps the last two and may lose another track's captures
  when it stores one.
\<close>

section \<open>The interface\<close>

definition keep_last :: "track_capture list \<Rightarrow> track_capture list" where
  "keep_last captures = (if CAPTURES_PER_TRACK \<le> length captures then tl captures else captures)"

lemma keep_last_bound: "length captures \<le> CAPTURES_PER_TRACK \<Longrightarrow> length (keep_last captures @ [c]) \<le> CAPTURES_PER_TRACK"
  by (auto simp: keep_last_def CAPTURES_PER_TRACK_def)

lemma set_keep_last: "set (keep_last captures) \<subseteq> set captures"
  by (cases captures) (auto simp: keep_last_def)

locale capture_store =
  fixes held :: "'s \<Rightarrow> track_address \<Rightarrow> track_capture list"
    and store :: "track_address \<Rightarrow> track_capture \<Rightarrow> 's \<Rightarrow> 's"
    and retire :: "track_address \<Rightarrow> 's \<Rightarrow> 's"
    and forget :: "track_address \<Rightarrow> 's \<Rightarrow> 's"
    and cleared :: 's
    and inv :: "'s \<Rightarrow> bool"
  assumes held_cleared: "held cleared t = []"
    and held_store: "inv s \<Longrightarrow> held (store t c s) t = keep_last (held s t) @ [c]"
    and store_victim: "inv s \<Longrightarrow>
      \<exists>v. \<forall>u. u \<noteq> t \<longrightarrow> held (store t c s) u = (if u = v then [] else held s u)"
    and held_retire: "inv s \<Longrightarrow> held (retire t s) u = (if u = t then tl (held s t) else held s u)"
    and held_forget: "inv s \<Longrightarrow> held (forget t s) u = (if u = t then [] else held s u)"
    and inv_cleared: "inv cleared"
    and inv_store: "inv s \<Longrightarrow> inv (store t c s)"
    and inv_retire: "inv s \<Longrightarrow> inv (retire t s)"
    and inv_forget: "inv s \<Longrightarrow> inv (forget t s)"
begin

text \<open>A capture stored for a track without one is the next one read, until it is retired.\<close>

lemma stored_is_front:
  assumes "inv s" and "held s t = []"
  shows "hd (held (store t c s) t) = c" and "held (retire t (store t c s)) t = []"
  using assms held_store [of s t c] held_retire [of "store t c s" t t] inv_store [of s t c]
  by (simp_all add: keep_last_def CAPTURES_PER_TRACK_def)

text \<open>No operation makes a capture appear that was neither held nor stored.\<close>

lemma store_captures:
  assumes "inv s"
  shows "set (held (store t c s) u) \<subseteq> set (held s u) \<union> (if u = t then {c} else {})"
proof (cases "u = t")
  case True
  then show ?thesis using held_store [OF assms, of t c] set_keep_last [of "held s t"] by auto
next
  case False
  obtain v where "\<forall>u. u \<noteq> t \<longrightarrow> held (store t c s) u = (if u = v then [] else held s u)"
    using store_victim [OF assms] by blast
  then show ?thesis using False by auto
qed

lemma store_bounded:
  assumes "inv s" and "\<forall>u. length (held s u) \<le> CAPTURES_PER_TRACK"
  shows "length (held (store t c s) u) \<le> CAPTURES_PER_TRACK"
proof (cases "u = t")
  case True
  then show ?thesis using held_store [OF assms(1), of t c] keep_last_bound assms(2) by simp
next
  case False
  obtain v where "\<forall>u. u \<noteq> t \<longrightarrow> held (store t c s) u = (if u = v then [] else held s u)"
    using store_victim [OF assms(1)] by blast
  then show ?thesis using False assms(2) by auto
qed

end

section \<open>The implementation\<close>

definition held_captures :: "capture_cache \<Rightarrow> track_address \<Rightarrow> track_capture list" where
  "held_captures cache track = (case map_of cache track of None \<Rightarrow> [] | Some captures \<Rightarrow> captures)"

definition cache_keys :: "capture_cache \<Rightarrow> bool" where
  "cache_keys cache \<longleftrightarrow> distinct (map fst cache)"

lemma held_update: "held_captures (AList.update t cs cache) u = (if u = t then cs else held_captures cache u)"
  by (simp add: held_captures_def update_conv')

lemma held_delete: "held_captures (AList.delete t cache) u = (if u = t then [] else held_captures cache u)"
  by (simp add: held_captures_def delete_conv')

text \<open>The cache after making room, before the capture is appended.\<close>

definition make_room ::
  "(track_address list \<Rightarrow> track_address list) \<Rightarrow> track_address \<Rightarrow> capture_cache \<Rightarrow> capture_cache" where
  "make_room keys wanted cache =
     (if length cache \<ge> MAX_CACHED_TRACKS \<and> map_of cache wanted = None
      then case find (\<lambda>key. key \<noteq> wanted) (keys (map fst cache)) of
             None \<Rightarrow> cache
           | Some key \<Rightarrow> AList.delete key cache
      else cache)"

lemma store_capture_room:
  "store_capture keys t c cache =
     AList.update t (keep_last (held_captures (make_room keys t cache) t) @ [c]) (make_room keys t cache)"
  unfolding store_capture_def make_room_def held_captures_def keep_last_def Let_def ..

lemma find_other: "find (\<lambda>key. key \<noteq> t) ks = Some v \<Longrightarrow> v \<noteq> t \<and> v \<in> set ks"
  by (auto simp: find_Some_iff)

lemma held_room:
  "held_captures (make_room keys t cache) t = held_captures cache t"
  "\<exists>v. \<forall>u. u \<noteq> t \<longrightarrow> held_captures (make_room keys t cache) u = (if u = v then [] else held_captures cache u)"
proof -
  show "held_captures (make_room keys t cache) t = held_captures cache t"
    by (auto simp: make_room_def held_delete dest: find_other split: option.split)
  show "\<exists>v. \<forall>u. u \<noteq> t \<longrightarrow> held_captures (make_room keys t cache) u = (if u = v then [] else held_captures cache u)"
  proof (cases "find (\<lambda>key. key \<noteq> t) (keys (map fst cache))")
    case None
    then show ?thesis by (intro exI [of _ t]) (simp add: make_room_def)
  next
    case (Some v)
    then show ?thesis by (cases "make_room keys t cache = cache") (auto simp: make_room_def held_delete)
  qed
qed

lemma keys_room: "cache_keys cache \<Longrightarrow> cache_keys (make_room keys t cache)"
  by (auto simp: make_room_def cache_keys_def distinct_delete split: option.split)

lemma keys_update: "cache_keys cache \<Longrightarrow> cache_keys (AList.update t cs cache)"
  by (simp add: cache_keys_def distinct_update)

interpretation cache: capture_store held_captures "store_capture keys" retire_capture AList.delete "[]" cache_keys
  for keys
proof (unfold_locales, goal_cases)
  case (3 s t c)
  then show ?case using held_room(2) [of t keys s] by (auto simp: store_capture_room held_update)
next
  case (4 s t u)
  then show ?case
    by (auto simp: retire_capture_def held_update held_captures_def update_conv' split: option.split)
next
  case (8 s t)
  then show ?case by (auto simp: retire_capture_def keys_update split: option.split)
next
  case (7 s t c)
  then show ?case by (simp add: store_capture_room keys_room keys_update)
next
  case (9 s t)
  then show ?case by (simp add: cache_keys_def distinct_delete)
qed (simp_all add: held_captures_def [of "[]"] store_capture_room held_update held_room held_delete cache_keys_def)

lemma front_capture_held: "front_capture cache t = (case held_captures cache t of [] \<Rightarrow> None | c # _ \<Rightarrow> Some c)"
  by (auto simp: front_capture_def held_captures_def split: option.split list.split)

section \<open>Its size\<close>

text \<open>An iteration of a hash map visits its keys and nothing else.\<close>

definition iterates_all :: "(track_address list \<Rightarrow> track_address list) \<Rightarrow> bool" where
  "iterates_all keys \<longleftrightarrow> (\<forall>ks. set (keys ks) = set ks)"

lemma find_exists:
  assumes "iterates_all keys" and "t \<notin> set ks" and "ks \<noteq> []"
  shows "\<exists>v. find (\<lambda>key. key \<noteq> t) (keys ks) = Some v"
proof -
  have "hd ks \<in> set (keys ks)" "hd ks \<noteq> t" using assms by (auto simp: iterates_all_def)
  then show ?thesis by (cases "find (\<lambda>key. key \<noteq> t) (keys ks)") (auto simp: find_None_iff)
qed

lemma length_delete: "distinct (map fst cache) \<Longrightarrow> v \<in> fst ` set cache \<Longrightarrow>
  Suc (length (AList.delete v cache)) = length cache"
proof (induction cache)
  case (Cons p cache)
  have "AList.delete v cache = cache" if "v \<notin> fst ` set cache" using that by (simp add: delete_idem)
  then show ?case using Cons by (cases p) auto
qed simp

lemma length_update_le: "length (AList.update t cs cache) \<le> Suc (length cache)"
  by (induction cache) auto

lemma length_update_bound: "t \<in> fst ` set cache \<Longrightarrow> length (AList.update t cs cache) = length cache"
  by (induction cache) auto

lemma store_size:
  assumes "iterates_all keys" and "cache_keys cache" and "length cache \<le> MAX_CACHED_TRACKS"
  shows "length (store_capture keys t c cache) \<le> MAX_CACHED_TRACKS"
proof (cases "map_of cache t = None \<and> length cache = MAX_CACHED_TRACKS")
  case True
  then have "t \<notin> set (map fst cache)" "map fst cache \<noteq> []"
    by (auto simp: map_of_eq_None_iff MAX_CACHED_TRACKS_def)
  then obtain v where v: "find (\<lambda>key. key \<noteq> t) (keys (map fst cache)) = Some v"
    using find_exists [OF assms(1)] by blast
  then have "v \<in> fst ` set cache" using find_other [OF v] assms(1) by (simp add: iterates_all_def)
  then have "Suc (length (AList.delete v cache)) = length cache"
    using assms(2) length_delete by (simp add: cache_keys_def)
  moreover have "make_room keys t cache = AList.delete v cache" using True v by (simp add: make_room_def)
  ultimately show ?thesis
    unfolding store_capture_room
    using length_update_le [of t _ "AList.delete v cache"] assms(3) by (metis le_trans)
next
  case False
  then consider "t \<in> fst ` set cache" | "length cache < MAX_CACHED_TRACKS"
    using assms(3) by (fastforce simp: map_of_eq_None_iff)
  moreover have "make_room keys t cache = cache" using False assms(3) by (auto simp: make_room_def)
  ultimately show ?thesis
    unfolding store_capture_room
    using length_update_bound [of t cache] length_update_le [of t _ cache] assms(3)
    by cases (simp, metis Suc_leI le_trans)
qed

lemma retire_size: "length (retire_capture t cache) = length cache"
proof (cases "map_of cache t")
  case (Some captures)
  then have "t \<in> fst ` set cache" by (force dest: map_of_SomeD)
  then show ?thesis using Some by (simp add: retire_capture_def length_update_bound)
qed (simp add: retire_capture_def)

lemma delete_size: "length (AList.delete t cache) \<le> length cache"
  by (simp add: AList.delete_eq)

section \<open>The specification it refines\<close>

datatype cache_op =
    StoreOp track_address track_capture
  | RetireOp track_address
  | ForgetOp track_address
  | ClearOp

text \<open>The sections of the two threads that change the cache.\<close>

fun cache_apply ::
  "(track_address list \<Rightarrow> track_address list) \<Rightarrow> cache_op \<Rightarrow> capture_cache \<Rightarrow> capture_cache" where
  "cache_apply keys (StoreOp t c) cache = store_capture keys t c cache"
| "cache_apply keys (RetireOp t) cache = retire_capture t cache"
| "cache_apply keys (ForgetOp t) cache = AList.delete t cache"
| "cache_apply keys ClearOp cache = []"

text \<open>A server of tracks: the captures held for each, at most the last two, oldest first.\<close>

inductive track_server ::
  "cache_op \<Rightarrow> (track_address \<Rightarrow> track_capture list) \<Rightarrow> (track_address \<Rightarrow> track_capture list) \<Rightarrow> bool" where
  store: "A' t = keep_last (A t) @ [c] \<Longrightarrow> (\<And>u. u \<noteq> t \<Longrightarrow> A' u = (if u = victim then [] else A u)) \<Longrightarrow>
    track_server (StoreOp t c) A A'"
| retire: "track_server (RetireOp t) A (A(t := tl (A t)))"
| forget: "track_server (ForgetOp t) A (A(t := []))"
| clear: "track_server ClearOp A (\<lambda>_. [])"

inductive track_serves ::
  "cache_op list \<Rightarrow> (track_address \<Rightarrow> track_capture list) \<Rightarrow> (track_address \<Rightarrow> track_capture list) \<Rightarrow> bool" where
  done_serving: "track_serves [] A A"
| serve: "track_server op A B \<Longrightarrow> track_serves ops B C \<Longrightarrow> track_serves (op # ops) A C"

lemma cache_apply_keys: "cache_keys cache \<Longrightarrow> cache_keys (cache_apply keys op cache)"
  using cache.inv_store cache.inv_retire cache.inv_forget cache.inv_cleared by (cases op) auto

lemma cache_apply_size:
  "iterates_all keys \<Longrightarrow> cache_keys cache \<Longrightarrow> length cache \<le> MAX_CACHED_TRACKS \<Longrightarrow>
     length (cache_apply keys op cache) \<le> MAX_CACHED_TRACKS"
  by (cases op) (auto simp: store_size retire_size intro: le_trans [OF delete_size])

lemma cache_apply_server:
  assumes "cache_keys cache"
  shows "track_server op (held_captures cache) (held_captures (cache_apply keys op cache))"
proof (cases op)
  case (StoreOp t c)
  obtain v where "\<forall>u. u \<noteq> t \<longrightarrow> held_captures (store_capture keys t c cache) u =
      (if u = v then [] else held_captures cache u)"
    using cache.store_victim [OF assms] by blast
  then show ?thesis
    using cache.held_store [OF assms, of keys t c] by (auto simp: StoreOp intro: track_server.store)
next
  case (RetireOp t)
  have "held_captures (retire_capture t cache) = (held_captures cache)(t := tl (held_captures cache t))"
    using cache.held_retire [OF assms, of t] by (intro ext) simp
  then show ?thesis by (simp add: RetireOp track_server.retire)
next
  case (ForgetOp t)
  have "held_captures (AList.delete t cache) = (held_captures cache)(t := [])"
    using cache.held_forget [OF assms, of t] by (intro ext) simp
  then show ?thesis by (simp add: ForgetOp track_server.forget)
next
  case ClearOp
  have "held_captures [] = (\<lambda>_. [])" by (intro ext) (rule cache.held_cleared)
  then show ?thesis by (simp add: ClearOp track_server.clear)
qed

lemma track_server_bounded:
  assumes "track_server op A A'" and "\<forall>t. length (A t) \<le> CAPTURES_PER_TRACK"
  shows "length (A' t) \<le> CAPTURES_PER_TRACK"
  using assms
proof cases
  case (store t' c victim)
  then show ?thesis using keep_last_bound [of "A t'" c] assms(2) by (cases "t = t'") auto
qed (auto simp: le_diff_conv intro: le_SucI trans_le_add1)

lemma track_serves_bounded:
  "track_serves ops A A' \<Longrightarrow> \<forall>t. length (A t) \<le> CAPTURES_PER_TRACK \<Longrightarrow> length (A' t) \<le> CAPTURES_PER_TRACK"
proof (induction arbitrary: t rule: track_serves.induct)
  case (serve op A B ops C)
  then show ?case using track_server_bounded by blast
qed simp

lemma cache_run_serves:
  "cache_keys cache \<Longrightarrow>
     track_serves ops (held_captures cache) (held_captures (fold (cache_apply keys) ops cache))"
  by (induction ops arbitrary: cache)
    (auto intro: track_serves.intros cache_apply_server cache_apply_keys)

lemma cache_run_size:
  "iterates_all keys \<Longrightarrow> cache_keys cache \<Longrightarrow> length cache \<le> MAX_CACHED_TRACKS \<Longrightarrow>
     length (fold (cache_apply keys) ops cache) \<le> MAX_CACHED_TRACKS"
  by (induction ops arbitrary: cache) (auto intro: cache_apply_size cache_apply_keys)

text \<open>
  C6: The capture cache refines a server that holds a queue of captures per track: whatever the
  two threads do to it, in whatever order and however the hash map iterates, each operation acts
  as the server's, which keeps the last two captures of a track, hands out the oldest first and
  forgets at most one other track when it stores a capture; and the cache never holds more than
  eight tracks, nor more than two captures of one.
\<close>

theorem cache_refines:
  fixes keys and ops and t
  defines "cache \<equiv> fold (cache_apply keys) ops []"
  assumes "iterates_all keys"
  shows "track_serves ops (\<lambda>_. []) (held_captures cache) \<and> length cache \<le> MAX_CACHED_TRACKS \<and>
    length (held_captures cache t) \<le> CAPTURES_PER_TRACK"
proof -
  have "cache_keys []" by (rule cache.inv_cleared)
  moreover have empty: "held_captures [] = (\<lambda>_. [])" by (intro ext) (rule cache.held_cleared)
  ultimately have serves: "track_serves ops (\<lambda>_. []) (held_captures cache)"
    using cache_run_serves [of "[]" ops keys] by (simp add: cache_def)
  moreover have "length (held_captures cache t) \<le> CAPTURES_PER_TRACK"
    by (rule track_serves_bounded [OF serves]) simp
  ultimately show ?thesis
    using cache_run_size [OF assms(2) \<open>cache_keys []\<close>, of ops] by (simp add: cache_def)
qed

theorem cache_refines_witness:
  "\<exists>cache. cache = fold (cache_apply rev) (map (\<lambda>n. StoreOp \<lparr>ta_cylinder = of_nat n, ta_side = Lower\<rparr>
       \<lparr>tc_words = [], tc_bit_len = 0, tc_quality = Unverified, tc_generation = 1\<rparr>) [0..<10]) [] \<and>
     length cache = 8 \<and> length (held_captures cache \<lparr>ta_cylinder = 9, ta_side = Lower\<rparr>) \<le> 2"
proof -
  let ?ops = "map (\<lambda>n. StoreOp \<lparr>ta_cylinder = of_nat n, ta_side = Lower\<rparr>
       \<lparr>tc_words = [], tc_bit_len = 0, tc_quality = Unverified, tc_generation = 1\<rparr>) [0..<10]"
  have "length (fold (cache_apply rev) ?ops []) = 8" by code_simp
  moreover have "iterates_all rev" by (simp add: iterates_all_def)
  ultimately show ?thesis
    using cache_refines [of rev ?ops "\<lparr>ta_cylinder = 9, ta_side = Lower\<rparr>"] by (auto simp: CAPTURES_PER_TRACK_def)
qed

end
