(* ===== verification/Controller_Threads.thy ===== *)
theory Controller_Threads
  imports Controller_Worker Controller_Cache
begin

text \<open>
  The two threads together. What the caller's thread does between two sections of the worker is
  built from the sections of its methods; the worker's invariants are proved for every such
  interference, and thus for every interleaving of the two threads.
\<close>

section \<open>Sections and calls\<close>

lemma leads_share:
  assumes "\<And>t sh. P t \<Longrightarrow> sh = interfere (th_others t) (th_shared t) \<Longrightarrow>
    Q (t\<lparr>th_shared := snd (act sh), th_others := tl (th_others t)\<rparr>)"
  shows "leads P (share act) Q"
  using assms by (auto simp: leads_def share_def Let_def split_def)

lemma leads_call: "(\<And>w r d. P w \<Longrightarrow> m (wk_device w) = Some (r, d) \<Longrightarrow> Q (w\<lparr>wk_device := d\<rparr>)) \<Longrightarrow>
    leads P (call_device m) Q"
  by (auto simp: leads_def call_device_def io_zoom_returns_iff)

section \<open>What the caller's thread does\<close>

text \<open>
  The sections of the caller's methods, and any run of them. \<open>allowed\<close> limits the commands it
  sends.
\<close>

inductive caller_act ::
  "'q host \<Rightarrow> (bridge_command \<Rightarrow> bool) \<Rightarrow> ('q shared \<Rightarrow> 'q shared) \<Rightarrow> bool" for H and allowed where
  look: "caller_act H allowed (\<lambda>sh. sh)"
| motor: "caller_act H allowed (wish_motor side enabled)"
| target: "caller_act H allowed (wish_target track)"
| read: "caller_act H allowed (wish_read track)"
| retire: "caller_act H allowed (sh_captures_update (retire_capture track))"
| send: "allowed c \<Longrightarrow> caller_act H allowed (\<lambda>sh. snd (on_host (h_try_send H c) sh))"
| shutdown: "allowed Shutdown \<Longrightarrow> caller_act H allowed (\<lambda>sh. snd (on_host (h_send H Shutdown) sh))"
| event: "caller_act H allowed (\<lambda>sh. snd (on_host (h_try_recv_event H) sh))"
| nudge: "caller_act H allowed (\<lambda>sh. snd (on_host (h_nudge H) sh))"
| now: "caller_act H allowed (\<lambda>sh. snd (on_host (h_now H) sh))"
| sleep: "caller_act H allowed (\<lambda>sh. snd (on_host (h_sleep H d) sh))"
| join: "caller_act H allowed (\<lambda>sh. snd (on_host (h_join H) sh))"
| both: "caller_act H allowed f \<Longrightarrow> caller_act H allowed g \<Longrightarrow> caller_act H allowed (\<lambda>sh. g (f sh))"

text \<open>
  The methods of the bridge do nothing else: on its own, a call changes the shared state by such
  an act.
\<close>

definition acts :: "'q host \<Rightarrow> (bridge_command \<Rightarrow> bool) \<Rightarrow> ('q, 'a) bridge_io \<Rightarrow> bool" where
  "acts H allowed = io_rel (\<lambda>b b'. th_others b = [] \<longrightarrow> th_others b' = [] \<and>
     (\<exists>e. caller_act H allowed e \<and> th_shared b' = e (th_shared b)))"

lemma acts_relation:
  "reflp (\<lambda>b b'. th_others b = [] \<longrightarrow> th_others b' = [] \<and>
     (\<exists>e. caller_act H allowed e \<and> th_shared b' = e (th_shared b)))"
  "transp (\<lambda>b b'. th_others b = [] \<longrightarrow> th_others b' = [] \<and>
     (\<exists>e. caller_act H allowed e \<and> th_shared b' = e (th_shared b)))"
  using caller_act.look [of H allowed] caller_act.both [of H allowed]
  by (intro reflpI transpI; fastforce)+

lemma acts_basic [leads_intros]:
  "acts H allowed (io_return a)" "acts H allowed (io_throw e)" "acts H allowed (io_result r)"
  "acts H allowed (io_gets f)"
  unfolding acts_def by (intro io_rel_pure acts_relation)+

lemma acts_bind [leads_intros]:
  "acts H allowed m \<Longrightarrow> (\<And>a. acts H allowed (f a)) \<Longrightarrow> acts H allowed (io_bind m f)"
  unfolding acts_def by (rule io_rel_bind [OF acts_relation(2)])

lemma acts_cases [leads_intros]:
  "(b \<Longrightarrow> acts H allowed m) \<Longrightarrow> (\<not> b \<Longrightarrow> acts H allowed n) \<Longrightarrow> acts H allowed (if b then m else n)"
  "(b \<Longrightarrow> acts H allowed u) \<Longrightarrow> acts H allowed (io_when b u)"
  "(y = None \<Longrightarrow> acts H allowed n) \<Longrightarrow> (\<And>a. y = Some a \<Longrightarrow> acts H allowed (g a)) \<Longrightarrow>
     acts H allowed (case y of None \<Rightarrow> n | Some a \<Rightarrow> g a)"
  "(\<And>e. x = Inl e \<Longrightarrow> acts H allowed (h e)) \<Longrightarrow> (\<And>a. x = Inr a \<Longrightarrow> acts H allowed (k a)) \<Longrightarrow>
     acts H allowed (case x of Inl e \<Rightarrow> h e | Inr a \<Rightarrow> k a)"
  by (auto simp: io_when_def intro: acts_basic split: option.split sum.split)

lemma acts_share:
  assumes "caller_act H allowed (\<lambda>sh. snd (act sh))"
  shows "acts H allowed (share act)"
  using assms by (auto simp: acts_def io_rel_def share_def Let_def split_def interfere_def)

lemma acts_sections [leads_intros]:
  "acts H allowed (share (poke (wish_motor side enabled)))" "acts H allowed (share (poke (wish_target track)))"
  "acts H allowed (share (poke (wish_read track)))"
  "acts H allowed (share (poke (sh_captures_update (retire_capture track))))"
  "acts H allowed (share (peek f))" "acts H allowed (share (on_host (h_try_recv_event H)))"
  "acts H allowed (share (on_host (h_nudge H)))" "acts H allowed (share (on_host (h_now H)))"
  "acts H allowed (share (on_host (h_sleep H d)))" "acts H allowed (share (on_host (h_join H)))"
  "allowed c \<Longrightarrow> acts H allowed (share (on_host (h_try_send H c)))"
  "allowed Shutdown \<Longrightarrow> acts H allowed (share (on_host (h_send H Shutdown)))"
  by (rule acts_share; simp add: poke_def peek_def caller_act.intros)+

lemma acts_modify:
  assumes "\<And>b. th_shared (g b) = th_shared b" and "\<And>b. th_others (g b) = th_others b"
  shows "acts H allowed (io_modify g)"
  unfolding acts_def
  by (rule io_rel_modify) (use caller_act.look [of H allowed] in \<open>auto simp: assms\<close>)

lemma acts_index [leads_intros]: "acts H allowed (starts_at_index checks start_bit track_bits)"
  unfolding starts_at_index_def
  by (intro leads_intros) (simp add: acts_def io_rel_def io_panic_def)

lemma acts_enqueue [leads_intros]: "allowed c \<Longrightarrow> acts H allowed (bridge_enqueue H c)"
  by (auto simp: bridge_enqueue_def intro!: leads_intros split: sum.split try_send_error.split)

lemma acts_apply:
  "acts H allowed m \<Longrightarrow> m b = Some (r, b') \<Longrightarrow> th_others b = [] \<Longrightarrow>
     th_others b' = [] \<and> (\<exists>e. caller_act H allowed e \<and> th_shared b' = e (th_shared b))"
  by (auto simp: acts_def io_rel_def)

lemma acts_cases_fun [leads_intros]:
  "(b \<Longrightarrow> acts H allowed m) \<Longrightarrow> (\<not> b \<Longrightarrow> acts H allowed n) \<Longrightarrow>
     acts H allowed (\<lambda>s. if b then m s else n s)"
  "(y = None \<Longrightarrow> acts H allowed n) \<Longrightarrow> (\<And>a. y = Some a \<Longrightarrow> acts H allowed (g a)) \<Longrightarrow>
     acts H allowed (\<lambda>s. case y of None \<Rightarrow> n s | Some a \<Rightarrow> g a s)"
  by (auto simp: acts_def io_rel_def split: option.splits)

lemma stall_loop_acts: "acts H allowed (stall_loop H track deadline)"
proof -
  let ?R = "\<lambda>H b b'. th_others b = [] \<longrightarrow> th_others b' = [] \<and>
     (\<exists>e. caller_act H allowed e \<and> th_shared b' = e (th_shared b))"
  have "?R H b (snd y)" if "stall_loop H track deadline b = Some y" for b y
  proof (rule stall_loop.raw_induct [where P = "\<lambda>H track deadline b y. ?R H b (snd y)", OF _ that], goal_cases)
    case (1 loop H track deadline b y)
    have "acts H allowed (loop H track deadline)"
      using 1(1) by (fastforce simp: acts_def io_rel_def)
    then have "acts H allowed (\<lambda>b. io_bind (share (on_host (h_now H))) (\<lambda>now b.
       if now < deadline then
         io_bind (share (peek (\<lambda>sh. front_capture (sh_captures sh) track))) (\<lambda>capture b.
           case capture of
             Some capture \<Rightarrow> io_return (Some capture) b
           | None \<Rightarrow>
               io_bind bridge_status (\<lambda>status b.
                 if \<not> ds_working status then io_throw WorkerStopped b
                 else io_bind (share (on_host (h_sleep H (millis 1)))) (\<lambda>_ b.
                   loop H track deadline b) b) b) b
       else io_return None b) b)"
      unfolding bridge_status_def by (intro leads_intros)
    from acts_apply [OF this, of b "fst y" "snd y"] show ?case using 1(2) by simp
  qed
  then show ?thesis by (auto simp: acts_def io_rel_def)
qed

lemma bridge_methods_act:
  shows "acts H allowed bridge_status" "acts H allowed (bridge_set_motor H side enabled)"
    "acts H allowed (bridge_seek H track)" "acts H allowed (bridge_read_track H track)"
    "acts H allowed (bridge_partial_track track)" "acts H allowed (bridge_advance_revolution H track)"
    "acts H allowed (bridge_poll_event H)"
    and "allowed (NoClick side) \<Longrightarrow> acts H allowed (bridge_no_click_step H side)"
    and "(\<And>ident request. allowed (WriteCommand ident request)) \<Longrightarrow>
      acts H allowed (bridge_submit_write checks H request)"
    and "allowed Shutdown \<Longrightarrow> acts H allowed (bridge_drop H)"
proof -
  show "acts H allowed bridge_status" unfolding bridge_status_def by (intro leads_intros)
  then show "(\<And>ident request. allowed (WriteCommand ident request)) \<Longrightarrow>
      acts H allowed (bridge_submit_write checks H request)"
    unfolding bridge_submit_write_def Let_def bridge_clamp_def by (intro leads_intros acts_modify; simp)
  show "acts H allowed (bridge_read_track H track)"
    unfolding bridge_read_track_def bridge_nudge_def bridge_clamp_def by (intro leads_intros stall_loop_acts)
qed (auto simp: bridge_set_motor_def bridge_seek_def bridge_partial_track_def bridge_advance_revolution_def
    bridge_poll_event_def bridge_no_click_step_def bridge_drop_def bridge_nudge_def bridge_clamp_def
    intro!: leads_intros)

section \<open>The cache while both threads run\<close>

text \<open>
  A capture the worker may hand out, and the cache at a given generation: the captures of a track
  are in the order they were taken.
\<close>

definition capture_sound :: "u64 \<Rightarrow> track_capture \<Rightarrow> bool" where
  "capture_sound generation c \<longleftrightarrow>
     64 \<le> tc_bit_len c \<and> tc_bit_len c \<le> length (tc_words c) * 16 \<and> tc_bit_len c \<le> MAX_TRACK_BITS \<and>
     0 < tc_generation c \<and> tc_generation c \<le> generation"

definition cache_sound :: "u64 \<Rightarrow> capture_cache \<Rightarrow> bool" where
  "cache_sound generation cache \<longleftrightarrow>
     cache_keys cache \<and> length cache \<le> MAX_CACHED_TRACKS \<and>
     (\<forall>t. length (held_captures cache t) \<le> CAPTURES_PER_TRACK \<and>
       (\<forall>c \<in> set (held_captures cache t). capture_sound generation c) \<and>
       sorted_wrt (\<lambda>a b. tc_generation a < tc_generation b) (held_captures cache t))"

lemma cache_sound_empty: "cache_sound generation []"
  by (simp add: cache_sound_def cache.inv_cleared cache.held_cleared)

lemma cache_sound_later: "cache_sound g cache \<Longrightarrow> g \<le> g' \<Longrightarrow> cache_sound g' cache"
  unfolding cache_sound_def capture_sound_def by (meson order_trans)

lemma in_set_tlD: "x \<in> set (tl xs) \<Longrightarrow> x \<in> set xs"
  by (cases xs) auto

lemma cache_sound_retire: "cache_sound g cache \<Longrightarrow> cache_sound g (retire_capture t cache)"
proof -
  assume s: "cache_sound g cache"
  have "sorted_wrt P xs \<Longrightarrow> sorted_wrt P (tl xs)" for P and xs :: "track_capture list" by (cases xs) auto
  then show ?thesis
    using s cache.held_retire [of cache t] cache.inv_retire [of cache t]
    by (auto simp: cache_sound_def retire_size le_diff_conv intro: le_SucI dest: in_set_tlD)
qed

lemma cache_sound_forget: "cache_sound g cache \<Longrightarrow> cache_sound g (AList.delete t cache)"
  using cache.held_forget [of cache t] cache.inv_forget [of cache t] delete_size [of t cache]
  by (auto simp: cache_sound_def)

lemma cache_sound_store:
  assumes "cache_sound g cache" and "iterates_all keys" and "capture_sound g' c" and "g < g'" and
    "tc_generation c = g'"
  shows "cache_sound g' (store_capture keys t c cache)"
proof -
  have keys: "cache_keys cache" using assms(1) by (simp add: cache_sound_def)
  let ?held = "held_captures cache" and ?new = "held_captures (store_capture keys t c cache)"
  have bound: "length (?new u) \<le> CAPTURES_PER_TRACK" for u
    using cache.store_bounded [OF keys] assms(1) by (simp add: cache_sound_def)
  have older: "\<forall>a \<in> set (?held u). capture_sound g a \<and> capture_sound g' a \<and> tc_generation a < g'" for u
    using assms(1,4) by (fastforce simp: cache_sound_def capture_sound_def)
  have sound: "\<forall>a \<in> set (?new u). capture_sound g' a" for u
    using cache.store_captures [OF keys, of keys t c u] older assms(3) by (auto split: if_splits)
  have order: "sorted_wrt (\<lambda>a b. tc_generation a < tc_generation b) (?new u)" for u
  proof (cases "u = t")
    case True
    have "sorted_wrt (\<lambda>a b. tc_generation a < tc_generation b) (keep_last (?held t))"
      using assms(1) by (cases "?held t") (auto simp: cache_sound_def keep_last_def dest: spec [of _ t])
    then show ?thesis
      using True older [of t] set_keep_last [of "?held t"] assms(5)
      by (auto simp: cache.held_store [OF keys] sorted_wrt_append)
  next
    case False
    obtain v where "?new u = (if u = v then [] else ?held u)" using cache.store_victim [OF keys] False by metis
    then show ?thesis using assms(1) by (simp add: cache_sound_def)
  qed
  show ?thesis
    unfolding cache_sound_def
    using bound sound order store_size [OF assms(2) keys] assms(1) cache.inv_store [OF keys]
    by (simp add: cache_sound_def)
qed

lemma caller_act_cache:
  "caller_act H allowed e \<Longrightarrow> cache_sound g (sh_captures sh) \<Longrightarrow> cache_sound g (sh_captures (e sh))"
  by (induction arbitrary: sh rule: caller_act.induct)
    (auto simp: wish_motor_def wish_target_def wish_read_def on_host_def split_def Let_def cache_sound_retire)

definition worker_sound ::
  "('d, 'q) setting \<Rightarrow> (bridge_command \<Rightarrow> bool) \<Rightarrow> nat \<Rightarrow> ('d, 'q) worker \<Rightarrow> bool" where
  "worker_sound E allowed n w \<longleftrightarrow>
     (\<forall>e \<in> set (th_others w). caller_act (se_host E) allowed e) \<and>
     cache_sound (wk_generation w) (sh_captures (th_shared w)) \<and> unat (wk_generation w) \<le> n"

lemma interfere_cases: "interfere others sh = sh \<or> (\<exists>e \<in> set others. interfere others sh = e sh)"
  by (cases others) (auto simp: interfere_def)

lemma sound_interfere:
  "worker_sound E allowed n w \<Longrightarrow>
     cache_sound (wk_generation w) (sh_captures (interfere (th_others w) (th_shared w)))"
  using interfere_cases [of "th_others w" "th_shared w"] caller_act_cache
  by (fastforce simp: worker_sound_def)

text \<open>A section that does not touch the cache, or treats it well.\<close>

lemma sound_share:
  assumes "\<And>g sh. cache_sound g (sh_captures sh) \<Longrightarrow> cache_sound g (sh_captures (snd (act sh)))"
  shows "leads (worker_sound E allowed n) (share act) (worker_sound E allowed n)"
proof (rule leads_share)
  fix t sh assume s: "worker_sound E allowed n t" and "sh = interfere (th_others t) (th_shared t)"
  then show "worker_sound E allowed n (t\<lparr>th_shared := snd (act sh), th_others := tl (th_others t)\<rparr>)"
    using assms [OF sound_interfere [OF s]] by (auto simp: worker_sound_def dest: in_set_tlD)
qed

lemma sound_sections [leads_intros]:
  "leads (worker_sound E allowed n) (share (peek f)) (worker_sound E allowed n)"
  "leads (worker_sound E allowed n) (share (on_host h)) (worker_sound E allowed n)"
  "leads (worker_sound E allowed n) (share (poke (sh_status_update s))) (worker_sound E allowed n)"
  "leads (worker_sound E allowed n) (share (poke (sh_partial_update p))) (worker_sound E allowed n)"
  "leads (worker_sound E allowed n) (share (poke (sh_captures_update (\<lambda>_. [])))) (worker_sound E allowed n)"
  "leads (worker_sound E allowed n) (share (poke (sh_captures_update (AList.delete t)))) (worker_sound E allowed n)"
  "leads (worker_sound E allowed n) (share take_desired) (worker_sound E allowed n)"
  by (rule sound_share; simp add: peek_def poke_def on_host_def take_desired_def split_def Let_def
      cache_sound_empty cache_sound_forget)+

lemma sound_modify [leads_intros]:
  "(\<And>w. th_shared (g w) = th_shared w \<and> th_others (g w) = th_others w \<and> wk_generation (g w) = wk_generation w) \<Longrightarrow>
     leads (worker_sound E allowed n) (io_modify g) (worker_sound E allowed n)"
  by (rule leads_modify) (simp add: worker_sound_def)

lemma sound_call [leads_intros]: "leads (worker_sound E allowed n) (call_device m) (worker_sound E allowed n)"
  by (rule leads_call) (simp add: worker_sound_def)

lemma sound_steps [leads_intros]:
  "leads (worker_sound E allowed n) (worker_note_error F error) (worker_sound E allowed n)"
  "leads (worker_sound E allowed n) (worker_position F track) (worker_sound E allowed n)"
  "leads (worker_sound E allowed n) (send_event F event) (worker_sound E allowed n)"
  "leads (worker_sound E allowed n) (starts_at_index checks start_bit track_bits) (worker_sound E allowed n)"
  unfolding worker_note_error_def worker_disconnect_def send_event_def worker_position_def worker_move_def worker_confirm_def starts_at_index_def split_def
  by (intro leads_intros; simp)+

lemma sound_process [leads_intros]:
  "leads (worker_sound E allowed n) (worker_process F command) (worker_sound E allowed n)"
  unfolding worker_process_def worker_perform_write_def worker_place_write_def
  by (cases command; simp only: bridge_command.case; intro leads_intros)

lemma sound_publish [leads_intros]:
  "leads (worker_sound E allowed n) (publish_all track log) (worker_sound E allowed n)"
proof (induction track log rule: publish_all.induct)
  case (2 track words bit_len log)
  then show ?case unfolding publish_all.simps by (intro leads_intros)
qed (simp add: leads_basic)

lemma sound_read [leads_intros]:
  "leads (worker_sound E allowed n) (worker_read F wanted) (worker_sound E allowed n)"
proof -
  have "leads (worker_sound E allowed n) (call_read F) (worker_sound E allowed n)"
    by (auto simp: leads_def call_read_def worker_sound_def split: option.splits)
  then show ?thesis unfolding worker_read_def split_def by (intro leads_intros)
qed

lemma sound_desired [leads_intros]:
  "leads (worker_sound E allowed n) (worker_apply_desired F) (worker_sound E allowed n)"
  "leads (worker_sound E allowed n) (worker_refresh_status F) (worker_sound E allowed n)"
  unfolding worker_apply_desired_def worker_apply_motor_def worker_quick_def worker_refresh_status_def Let_def
  by (intro leads_intros; simp)+

lemma sound_drain [leads_intros]: "leads (worker_sound E allowed n) (worker_drain F) (worker_sound E allowed n)"
proof -
  let ?P = "worker_sound E allowed n"
  have "?P w \<longrightarrow> ?P (snd y)" if "worker_drain F w = Some y" for w y
  proof (rule worker_drain.raw_induct [where P = "\<lambda>F w y. ?P w \<longrightarrow> ?P (snd y)", OF _ that], goal_cases)
    case (1 loop F w y)
    have "leads ?P (loop F) ?P" using 1(1) by (fastforce simp: leads_def)
    then have "leads ?P (\<lambda>w. io_bind (share (on_host (h_try_recv (se_host F)))) (\<lambda>command w.
       case command of
         None \<Rightarrow> io_return False w
       | Some command \<Rightarrow>
           io_bind (worker_process F command) (\<lambda>stop w.
             if stop then io_return True w else loop F w) w) w) ?P"
      by (intro leads_intros)
    from leadsD [OF this, of w "fst y" "snd y"] show ?case using 1(2) by simp
  qed
  then show ?thesis by (auto simp: leads_def)
qed

lemma sound_wait [leads_intros]: "leads (worker_sound E allowed n) (worker_wait F) (worker_sound E allowed n)"
  unfolding worker_wait_def
proof (intro leads_intros)
  fix selected
  show "leads (worker_sound E allowed n) (case selected of SelCommand command \<Rightarrow> worker_process F command
       | SelClosed \<Rightarrow> io_return True | SelNudge \<Rightarrow> io_return False | SelTimeout \<Rightarrow> io_return False)
      (worker_sound E allowed n)"
    by (cases selected) (auto intro: leads_intros)
qed

text \<open>Accepting a capture is the one step that moves the generation on.\<close>

lemma sound_Suc: "worker_sound E allowed n w \<Longrightarrow> worker_sound E allowed (Suc n) w"
  by (simp add: worker_sound_def)

lemma sound_accept:
  assumes keys: "iterates_all (se_key_order E)" and n: "Suc n < 2 ^ 64"
    and valid: "validate_capture capture = Inr ()"
  shows "leads (worker_sound E allowed n) (worker_accept E wanted capture) (worker_sound E allowed (Suc n))"
  unfolding worker_accept_def
proof (rule leads_bind [OF sound_sections(4)])
  show "leads (worker_sound E allowed n) (io_then (io_modify (\<lambda>w. w\<lparr>wk_errors := 0, wk_generation := wk_generation w + 1\<rparr>))
        (io_bind (io_gets wk_generation) (\<lambda>generation.
          share (poke (sh_captures_update (store_capture (se_key_order E) wanted
            \<lparr>tc_words = rc_words capture, tc_bit_len = rc_bit_len capture,
             tc_quality = grade_capture (se_sync_order E) capture, tc_generation = generation\<rparr>))))))
      (worker_sound E allowed (Suc n))" (is "leads _ ?m _")
    unfolding leads_def
  proof (intro allI impI)
    fix w r w' assume s: "worker_sound E allowed n w" and run: "?m w = Some (r, w')"
    let ?g = "wk_generation w" and ?cache = "sh_captures (interfere (th_others w) (th_shared w))"
    let ?c = "\<lparr>tc_words = rc_words capture, tc_bit_len = rc_bit_len capture,
             tc_quality = grade_capture (se_sync_order E) capture, tc_generation = ?g + 1\<rparr>"
    have "unat ?g < 2 ^ 64 - 1" using s n by (simp add: worker_sound_def)
    then have g: "unat (?g + 1) = Suc (unat ?g)" by (simp add: unat_word_ariths)
    then have less: "?g < ?g + 1" "0 < ?g + 1" by (simp_all add: word_less_nat_alt)
    have "capture_sound (?g + 1) ?c"
      using valid less by (simp add: capture_sound_def validate_capture_Inr)
    then have "cache_sound (?g + 1) (store_capture (se_key_order E) wanted ?c ?cache)"
      by (intro cache_sound_store [OF sound_interfere [OF s] keys _ less(1)]) simp_all
    then show "worker_sound E allowed (Suc n) w'"
      using run s g
      by (auto simp: io_bind_def io_run share_def poke_def worker_sound_def Let_def) (metis in_set_tlD)
  qed
qed (rule sound_Suc)

lemma sound_take_capture:
  assumes keys: "iterates_all (se_key_order E)" and n: "Suc n < 2 ^ 64"
  shows "leads (worker_sound E allowed n) (worker_take_capture E wanted) (worker_sound E allowed (Suc n))"
proof -
  let ?P = "worker_sound E allowed n" and ?Q = "worker_sound E allowed (Suc n)"
  have later: "leads ?P m ?P \<Longrightarrow> leads ?P m ?Q" for m :: "('a, 'b, 'c) worker_io"
    unfolding leads_def using sound_Suc by blast
  have up: "?P w \<Longrightarrow> ?Q w" for w :: "('a, 'b) worker" by (rule sound_Suc)
  have fault: "leads ?P (io_then (worker_note_error E error) (io_return False)) ?Q" for error
    by (rule leads_bind [where R = ?P]) (intro leads_intros up; assumption)+
  have refused: "leads ?P (io_then (io_when b (worker_note_error E error)) (io_return False)) ?Q" for b error
    by (rule leads_bind [where R = ?P]) (intro leads_intros up; assumption)+
  have accepted: "leads ?P (io_then (worker_accept E wanted capture) (io_return True)) ?Q"
    if "validate_capture capture = Inr u" for capture u
    by (rule leads_bind [where R = ?Q], rule sound_accept [OF keys n]) (use that in \<open>auto intro: leads_basic\<close>)
  show ?thesis
    unfolding worker_take_capture_def
  proof (rule leads_bind [where R = ?P])
    fix r :: "error + unit"
    show "leads ?P (case r of Inl error \<Rightarrow> io_then (worker_note_error E error) (io_return False)
       | Inr _ \<Rightarrow> io_bind (worker_read E wanted) (\<lambda>r. case r of
             Inl error \<Rightarrow> io_then (io_when (\<not> is_timeout error) (worker_note_error E error)) (io_return False)
           | Inr capture \<Rightarrow> (case validate_capture capture of
                  Inl error \<Rightarrow> io_then (worker_note_error E error) (io_return False)
                | Inr _ \<Rightarrow> io_then (worker_accept E wanted capture) (io_return True)))) ?Q"
      by (intro leads_cases fault leads_bind [OF sound_read _ up] refused accepted)
  qed (intro leads_intros, rule up)
qed

lemma sound_capture:
  assumes "iterates_all (se_key_order E)" and "Suc n < 2 ^ 64"
  shows "leads (worker_sound E allowed n) (worker_capture E) (worker_sound E allowed (Suc n))"
proof -
  let ?P = "worker_sound E allowed n" and ?Q = "worker_sound E allowed (Suc n)"
  have up: "?P w \<Longrightarrow> ?Q w" for w :: "('a, 'b) worker" by (rule sound_Suc)
  note seq = leads_bind [where P = ?P and R = ?P and Q = ?Q, OF _ _ up]
  have gets: "leads ?P (io_gets f) ?P" for f :: "('a, 'b) worker \<Rightarrow> 'c" by (intro leads_intros)
  have no: "leads ?P (io_return a) ?Q" for a :: bool by (rule leads_basic(1), rule up)
  show ?thesis
    unfolding worker_capture_def split_def
    by (intro seq [OF sound_sections(1)] leads_cases no seq [OF gets] sound_take_capture [OF assms])
qed

lemma sound_pass:
  assumes "iterates_all (se_key_order E)" and "Suc n < 2 ^ 64"
  shows "leads (worker_sound E allowed n) (worker_pass E hot) (worker_sound E allowed (Suc n))"
proof -
  let ?P = "worker_sound E allowed n" and ?Q = "worker_sound E allowed (Suc n)"
  have up: "?P w \<Longrightarrow> ?Q w" for w :: "('a, 'b) worker" by (rule sound_Suc)
  note seq = leads_bind [where P = ?P and R = ?P and Q = ?Q, OF _ _ up]
  have failed: "leads ?P m ?Q \<Longrightarrow> leads ?P (unless_failed m) ?Q" for m :: "('a, 'b, bool option) worker_io"
    unfolding unless_failed_def by (intro seq leads_intros up; assumption)
  have last: "leads ?Q (unless_failed (io_return a)) ?Q" for a :: "bool option"
    unfolding unless_failed_def by (intro leads_intros)
  have capture: "leads ?P (io_bind (worker_capture E) (\<lambda>hot. unless_failed (io_return (Some hot)))) ?Q"
    by (rule leads_bind [OF sound_capture [OF assms] last])
  have start: "leads ?P (if hot then io_return False else worker_wait E) ?P" by (intro leads_intros)
  show ?thesis
    unfolding worker_pass_def
    by (rule seq [OF start], rule leads_cases(1), rule leads_basic(1), rule up, assumption,
        rule seq [OF sound_drain], rule leads_cases(1), rule leads_basic(1), rule up, assumption,
        rule seq [OF sound_desired(1)], rule failed, rule seq [OF sound_desired(2)], rule failed, rule capture)
qed

text \<open>The heads of the worker's loop: after \<open>n\<close> passes, from its start.\<close>

inductive worker_reaches :: "('d, 'q) setting \<Rightarrow> ('d, 'q) worker \<Rightarrow> nat \<Rightarrow> ('d, 'q) worker \<Rightarrow> bool \<Rightarrow> bool"
  for E and w0 where
  start: "worker_reaches E w0 0 w0 False"
| pass: "worker_reaches E w0 n w hot \<Longrightarrow> worker_pass E hot w = Some (Inr (Some hot'), w') \<Longrightarrow>
    worker_reaches E w0 (Suc n) w' hot'"

lemma sound_start:
  assumes "\<forall>e \<in> set others. caller_act (se_host E) allowed e"
  shows "worker_sound E allowed 0 (worker_new E d (shared_initial H status q) others)"
proof -
  have "cache_sound 0 (sh_captures (interfere others (shared_initial H status q)))"
    using interfere_cases [of others "shared_initial H status q"] assms
      caller_act_cache [of "se_host E" allowed _ 0 "shared_initial H status q"]
    by (auto simp: shared_initial_def cache_sound_empty)
  then show ?thesis
    using assms by (auto simp: worker_sound_def worker_new_def on_host_def split_def Let_def dest: in_set_tlD)
qed

lemma sound_reaches:
  "worker_reaches E w0 n w hot \<Longrightarrow> iterates_all (se_key_order E) \<Longrightarrow> worker_sound E allowed 0 w0 \<Longrightarrow>
     n < 2 ^ 64 \<Longrightarrow> worker_sound E allowed n w"
proof (induction rule: worker_reaches.induct)
  case (pass n w hot hot' w')
  then show ?case using leadsD [OF sound_pass [of E n allowed hot]] by simp
qed

end
