(* ===== verification/Controller_Safety.thy ===== *)
theory Controller_Safety
  imports Controller_Threads
begin

text \<open>
  Where the head was sent: the worker remembers the track it is at in \<open>wk_physical\<close>. Without
  no-click steps what it remembers is what its device acknowledged last, so that a write goes out
  with its own track acknowledged last; a no-click step makes the worker remember a wrong side.
\<close>

section \<open>The belief and the device\<close>

definition in_sync :: "('d \<Rightarrow> u8) \<Rightarrow> ('d \<Rightarrow> side) \<Rightarrow> ('d, 'q) worker \<Rightarrow> bool" where
  "in_sync cyl surface w \<longleftrightarrow>
     (wk_positioned w \<longrightarrow> cyl (wk_device w) = ta_cylinder (wk_physical w) \<and>
        surface (wk_device w) = ta_side (wk_physical w))"

text \<open>A write that completes is one call on the device, at the position reached before it.\<close>

lemma place_write_calls:
  assumes "worker_place_write E request w = Some (Inr (), w')"
  shows "\<exists>w1 from_index. worker_position E (wr_track request) w = Some (Inr (), w1) \<and>
    dv_write_track (se_device E) (wr_words request) (wr_bit_len request) from_index
      (cfg_density (se_config E)) (wk_device w1) = Some (Inr (), wk_device w')"
proof -
  obtain w1 w2 w3 bits from_index where w1: "worker_position E (wr_track request) w = Some (Inr (), w1)"
    and w2: "share (peek (\<lambda>sh. case front_capture (sh_captures sh) (wr_track request) of
           None \<Rightarrow> wr_bit_len request | Some capture \<Rightarrow> tc_bit_len capture)) w1 = Some (Inr bits, w2)"
    and w3: "starts_at_index (se_overflow_checks E) (wr_start_bit request) bits w2 = Some (Inr from_index, w3)"
    and call: "call_device (dv_write_track (se_device E) (wr_words request) (wr_bit_len request) from_index
      (cfg_density (se_config E))) w3 = Some (Inr (), w')"
    using assms by (auto simp: worker_place_write_def io_bind_ok_iff io_run split: if_splits)
  have "wk_device w3 = wk_device w1"
    using w2 w3 by (auto simp: share_def Let_def split_def starts_at_index_def io_run io_panic_def split: if_splits)
  then show ?thesis using w1 call by (auto simp: call_device_def io_zoom_returns_iff)
qed

context device_contract begin

lemma seek_moves:
  "dv_seek D c d = Some (Inr (), d') \<Longrightarrow> cyl d' = c \<and> surface d' = surface d"
  using seek_reaches seek_keeps(1) by (fastforce simp: keeps_def)

lemma side_moves:
  "dv_select_side D s d = Some (Inr (), d') \<Longrightarrow> surface d' = s \<and> cyl d' = cyl d"
  using side_reaches side_keeps(1) by (fastforce simp: keeps_def)

end

section \<open>Keeping the belief right\<close>

text \<open>Together with it: only allowed commands are waiting, or will be sent.\<close>

definition guarded ::
  "('d, 'q) setting \<Rightarrow> (bridge_command \<Rightarrow> bool) \<Rightarrow> ('q \<Rightarrow> bridge_command list) \<Rightarrow> ('d, 'q) worker \<Rightarrow> bool" where
  "guarded E allowed cmds w \<longleftrightarrow>
     (\<forall>e \<in> set (th_others w). caller_act (se_host E) allowed e) \<and>
     (\<forall>c \<in> set (cmds (sh_host (th_shared w))). allowed c)"

lemma caller_act_allowed:
  assumes "caller_act H allowed e" and laws: "host_laws H clock cmds evs"
  shows "\<forall>c \<in> set (cmds (sh_host sh)). allowed c \<Longrightarrow> \<forall>c \<in> set (cmds (sh_host (e sh))). allowed c"
  using assms(1)
proof (induction arbitrary: sh rule: caller_act.induct)
  case (send c)
  then show ?case
    by (auto simp: on_host_def split_def Let_def host_try_send(1) [OF laws] split: sum.splits)
next
  case shutdown
  then show ?case
    using host_send [OF laws, of Shutdown "sh_host sh"] by (auto simp: on_host_def split_def Let_def)
next
  case (both f g)
  then show ?case by blast
qed (simp_all add: wish_motor_def wish_target_def wish_read_def on_host_def split_def Let_def
    host_try_recv_event [OF laws] host_nudge [OF laws] host_now(3) [OF laws] host_sleep(2) [OF laws] host_join [OF laws])

lemma guarded_interfere:
  assumes "guarded E allowed cmds w" and "host_laws (se_host E) clock cmds evs"
  shows "\<forall>c \<in> set (cmds (sh_host (interfere (th_others w) (th_shared w)))). allowed c"
  using interfere_cases [of "th_others w" "th_shared w"] caller_act_allowed [OF _ assms(2)] assms(1)
  by (fastforce simp: guarded_def)

text \<open>
  A worker that is positioned remembers the track that the device it was given, in state
  \<open>d0\<close>, acknowledged last.
\<close>

definition remembers :: "head \<Rightarrow> ('d, 'q) worker \<Rightarrow> bool" where
  "remembers h w \<longleftrightarrow>
     (wk_positioned w \<longrightarrow> hd_cylinder h = Some (ta_cylinder (wk_physical w)) \<and>
        hd_side h = Some (ta_side (wk_physical w)))"

definition steady :: "('d, 'q) setting \<Rightarrow> 'd \<Rightarrow> (bridge_command \<Rightarrow> bool) \<Rightarrow>
    ('q \<Rightarrow> bridge_command list) \<Rightarrow> ('d, 'q) worker \<Rightarrow> bool" where
  "steady E d0 allowed cmds w \<longleftrightarrow>
     (\<exists>h. head_after (se_device E) d0 h (wk_device w) \<and> remembers h w) \<and> guarded E allowed cmds w"

lemma steady_share:
  assumes laws: "host_laws (se_host E) clock cmds evs"
    and "\<And>sh. \<forall>c \<in> set (cmds (sh_host sh)). allowed c \<Longrightarrow> \<forall>c \<in> set (cmds (sh_host (snd (act sh)))). allowed c"
  shows "leads (steady E d0 allowed cmds) (share act) (steady E d0 allowed cmds)"
proof (rule leads_share)
  fix t sh assume s: "steady E d0 allowed cmds t" and "sh = interfere (th_others t) (th_shared t)"
  then have "\<forall>c \<in> set (cmds (sh_host sh)). allowed c"
    using guarded_interfere [OF _ laws, of allowed t] by (simp add: steady_def)
  from assms(2) [OF this] s
  show "steady E d0 allowed cmds (t\<lparr>th_shared := snd (act sh), th_others := tl (th_others t)\<rparr>)"
    unfolding steady_def guarded_def remembers_def by (simp add: in_set_tlD)
qed

lemma steady_sections:
  fixes d0 and allowed
  assumes laws: "host_laws (se_host E) clock cmds evs"
  defines "J \<equiv> steady E d0 allowed cmds"
  shows "leads J (share (peek f)) J" "leads J (share (poke (sh_status_update s))) J"
    "leads J (share (poke (sh_partial_update p))) J" "leads J (share (poke (sh_captures_update c))) J"
    "leads J (share take_desired) J" "leads J (share (on_host (h_now (se_host E)))) J"
    "leads J (share (on_host (h_try_send_event (se_host E) event))) J"
  unfolding J_def
  by (rule steady_share [OF laws]; simp add: peek_def poke_def take_desired_def on_host_def split_def Let_def
      host_now(3) [OF laws] host_event(2) [OF laws])+

lemma steady_modify:
  "(\<And>w. th_shared (g w) = th_shared w \<and> th_others (g w) = th_others w \<and> wk_device (g w) = wk_device w \<and>
      wk_physical (g w) = wk_physical w \<and> wk_positioned (g w) = wk_positioned w) \<Longrightarrow>
     leads (steady E d0 allowed cmds) (io_modify g) (steady E d0 allowed cmds)"
  by (rule leads_modify) (simp add: steady_def remembers_def guarded_def)

lemma steady_call:
  assumes "\<And>h d r d'. head_after (se_device E) d0 h d \<Longrightarrow> m d = Some (r, d') \<Longrightarrow> head_after (se_device E) d0 h d'"
  shows "leads (steady E d0 allowed cmds) (call_device m) (steady E d0 allowed cmds)"
  by (rule leads_call) (use assms in \<open>fastforce simp: steady_def remembers_def guarded_def\<close>)

lemma steady_calls:
  fixes E and d0 and allowed and cmds
  defines "J \<equiv> steady E d0 allowed cmds"
  shows "leads J (call_device (dv_status (se_device E))) J"
    "leads J (call_device (dv_set_motor (se_device E) enabled quick)) J"
    "leads J (call_device (dv_write_track (se_device E) words bit_len from_index density)) J"
  unfolding J_def by (rule steady_call; erule (1) head_after.intros)+

text \<open>A step whose result matters to the next.\<close>

lemma leads_bind_result:
  assumes "\<And>s r t. P s \<Longrightarrow> m s = Some (r, t) \<Longrightarrow> P t \<and> (\<forall>a. r = Inr a \<longrightarrow> G a)"
    and "\<And>a. G a \<Longrightarrow> leads P (f a) P"
  shows "leads P (io_bind m f) P"
  unfolding leads_def io_bind_returns_iff using assms(1) leadsD [OF assms(2)] by blast

text \<open>Positioning in two halves: the movement with its record, then the confirmation.\<close>

lemma seek_acknowledged:
  assumes "head_after D d0 h (wk_device w)" and "remembers h w"
    and "io_then (call_device (dv_seek D c)) (io_modify (wk_physical_update (ta_cylinder_update (\<lambda>_. c)))) w =
      Some (r, w')"
  shows "\<exists>h'. head_after D d0 h' (wk_device w') \<and> remembers h' w' \<and> hd_side h' = hd_side h \<and>
    (r = Inr () \<longrightarrow> hd_cylinder h' = Some c \<and> wk_physical w' = (wk_physical w)\<lparr>ta_cylinder := c\<rparr>)"
    and "wk_positioned w' = wk_positioned w" and "th_shared w' = th_shared w" and "th_others w' = th_others w"
proof -
  from assms(3) consider
      d e where "dv_seek D c (wk_device w) = Some (Inl e, d)" "r = Inl e" "w' = w\<lparr>wk_device := d\<rparr>"
    | d where "dv_seek D c (wk_device w) = Some (Inr (), d)" "r = Inr ()"
        "w' = w\<lparr>wk_device := d, wk_physical := (wk_physical w)\<lparr>ta_cylinder := c\<rparr>\<rparr>"
    by (auto simp: io_bind_returns_iff io_run call_device_def io_zoom_returns_iff)
  then show "\<exists>h'. head_after D d0 h' (wk_device w') \<and> remembers h' w' \<and> hd_side h' = hd_side h \<and>
    (r = Inr () \<longrightarrow> hd_cylinder h' = Some c \<and> wk_physical w' = (wk_physical w)\<lparr>ta_cylinder := c\<rparr>)"
  proof cases
    case 1
    then show ?thesis
      using head_after.seek_fails [OF assms(1) 1(1)] assms(2)
      by (intro exI [of _ "h\<lparr>hd_seek_failed := True\<rparr>"]) (auto simp: remembers_def)
  next
    case 2
    then show ?thesis
      using head_after.seek [OF assms(1) 2(1)] assms(2)
      by (intro exI [of _ "h\<lparr>hd_cylinder := Some c, hd_seek_failed := False\<rparr>"]) (auto simp: remembers_def)
  qed
  show "wk_positioned w' = wk_positioned w" "th_shared w' = th_shared w" "th_others w' = th_others w"
    using assms(3) by (auto simp: io_bind_returns_iff io_run call_device_def io_zoom_returns_iff)
qed

lemma side_acknowledged:
  assumes "head_after D d0 h (wk_device w)" and "remembers h w"
    and "io_then (call_device (dv_select_side D s)) (io_modify (wk_physical_update (ta_side_update (\<lambda>_. s)))) w =
      Some (r, w')"
  shows "\<exists>h'. head_after D d0 h' (wk_device w') \<and> remembers h' w' \<and> hd_cylinder h' = hd_cylinder h \<and>
    (r = Inr () \<longrightarrow> hd_side h' = Some s \<and> wk_physical w' = (wk_physical w)\<lparr>ta_side := s\<rparr>)"
    and "wk_positioned w' = wk_positioned w" and "th_shared w' = th_shared w" and "th_others w' = th_others w"
proof -
  from assms(3) consider
      d e where "dv_select_side D s (wk_device w) = Some (Inl e, d)" "r = Inl e" "w' = w\<lparr>wk_device := d\<rparr>"
    | d where "dv_select_side D s (wk_device w) = Some (Inr (), d)" "r = Inr ()"
        "w' = w\<lparr>wk_device := d, wk_physical := (wk_physical w)\<lparr>ta_side := s\<rparr>\<rparr>"
    by (auto simp: io_bind_returns_iff io_run call_device_def io_zoom_returns_iff)
  then show "\<exists>h'. head_after D d0 h' (wk_device w') \<and> remembers h' w' \<and> hd_cylinder h' = hd_cylinder h \<and>
    (r = Inr () \<longrightarrow> hd_side h' = Some s \<and> wk_physical w' = (wk_physical w)\<lparr>ta_side := s\<rparr>)"
  proof cases
    case 1
    then show ?thesis
      using head_after.side_fails [OF assms(1) 1(1)] assms(2)
      by (intro exI [of _ "h\<lparr>hd_side_failed := True\<rparr>"]) (auto simp: remembers_def)
  next
    case 2
    then show ?thesis
      using head_after.side [OF assms(1) 2(1)] assms(2)
      by (intro exI [of _ "h\<lparr>hd_side := Some s, hd_side_failed := False\<rparr>"]) (auto simp: remembers_def)
  qed
  show "wk_positioned w' = wk_positioned w" "th_shared w' = th_shared w" "th_others w' = th_others w"
    using assms(3) by (auto simp: io_bind_returns_iff io_run call_device_def io_zoom_returns_iff)
qed

lemma steady_move: "leads (steady E d0 allowed cmds) (worker_move E track) (steady E d0 allowed cmds)"
proof -
  have seek: "leads (steady E d0 allowed cmds) (io_then (call_device (dv_seek (se_device E) c))
      (io_modify (wk_physical_update (ta_cylinder_update (\<lambda>_. c))))) (steady E d0 allowed cmds)" for c
    unfolding leads_def steady_def guarded_def
    by (intro allI impI, elim exE conjE, frule (2) seek_acknowledged(1), frule (2) seek_acknowledged(3),
        drule (2) seek_acknowledged(4)) auto
  have side: "leads (steady E d0 allowed cmds) (io_then (call_device (dv_select_side (se_device E) s))
      (io_modify (wk_physical_update (ta_side_update (\<lambda>_. s))))) (steady E d0 allowed cmds)" for s
    unfolding leads_def steady_def guarded_def
    by (intro allI impI, elim exE conjE, frule (2) side_acknowledged(1), frule (2) side_acknowledged(3),
        drule (2) side_acknowledged(4)) auto
  show ?thesis unfolding worker_move_def by (intro leads_intros seek side)
qed

text \<open>A completed movement: the device has acknowledged the track asked for, now or before.\<close>

lemma move_acknowledged:
  assumes "head_after (se_device E) d0 h (wk_device w)" and "remembers h w"
    and "worker_move E track w = Some (Inr (), w')"
  shows "\<exists>h'. head_after (se_device E) d0 h' (wk_device w') \<and> hd_cylinder h' = Some (ta_cylinder track) \<and>
    hd_side h' = Some (ta_side track) \<and> wk_physical w' = track"
proof -
  let ?p = "wk_positioned w" and ?ph = "wk_physical w"
  obtain w1 where
    one: "io_when (\<not> ?p \<or> ta_cylinder ?ph \<noteq> ta_cylinder track)
      (io_then (call_device (dv_seek (se_device E) (ta_cylinder track)))
        (io_modify (wk_physical_update (ta_cylinder_update (\<lambda>_. ta_cylinder track))))) w = Some (Inr (), w1)"
    and two: "io_when (\<not> ?p \<or> ta_side ?ph \<noteq> ta_side track)
      (io_then (call_device (dv_select_side (se_device E) (ta_side track)))
        (io_modify (wk_physical_update (ta_side_update (\<lambda>_. ta_side track))))) w1 = Some (Inr (), w')"
    using assms(3) by (auto simp: worker_move_def io_bind_ok_iff io_run)
  obtain h1 where h1: "head_after (se_device E) d0 h1 (wk_device w1)" "remembers h1 w1"
      "hd_cylinder h1 = Some (ta_cylinder track)" "hd_side h1 = hd_side h"
      "wk_physical w1 = ?ph\<lparr>ta_cylinder := ta_cylinder track\<rparr>" "wk_positioned w1 = ?p"
  proof (cases "\<not> ?p \<or> ta_cylinder ?ph \<noteq> ta_cylinder track")
    case True
    then have run: "io_then (call_device (dv_seek (se_device E) (ta_cylinder track)))
        (io_modify (wk_physical_update (ta_cylinder_update (\<lambda>_. ta_cylinder track)))) w = Some (Inr (), w1)"
      using one by simp
    from seek_acknowledged(1,2) [OF assms(1,2) run] show ?thesis using that by blast
  next
    case False
    then have "w1 = w" using one by (simp add: io_run)
    then show ?thesis using False assms(1,2) by (intro that [of h]) (simp_all add: remembers_def)
  qed
  show ?thesis
  proof (cases "\<not> ?p \<or> ta_side ?ph \<noteq> ta_side track")
    case True
    then have run: "io_then (call_device (dv_select_side (se_device E) (ta_side track)))
        (io_modify (wk_physical_update (ta_side_update (\<lambda>_. ta_side track)))) w1 = Some (Inr (), w')"
      using two by simp
    have "(wk_physical w)\<lparr>ta_cylinder := ta_cylinder track, ta_side := ta_side track\<rparr> = track" by (cases track) simp
    then show ?thesis using side_acknowledged(1) [OF h1(1,2) run] h1(3,5) by (elim exE conjE) (rule exI, auto)
  next
    case False
    then have "w' = w1" using two by (simp add: io_run)
    then show ?thesis using False h1 by (intro exI [of _ h1]) (simp add: remembers_def)
  qed
qed

lemma position_acknowledged:
  assumes "steady E d0 allowed cmds w" and "worker_position E track w = Some (Inr (), w')"
  shows "\<exists>h. head_after (se_device E) d0 h (wk_device w') \<and> hd_cylinder h = Some (ta_cylinder track) \<and>
    hd_side h = Some (ta_side track) \<and> wk_physical w' = track"
proof -
  obtain h where "head_after (se_device E) d0 h (wk_device w)" "remembers h w"
    using assms(1) by (auto simp: steady_def)
  from move_acknowledged [OF this] obtain w1 where w1: "worker_confirm w1 = Some (Inr (), w')"
    and "\<exists>h'. head_after (se_device E) d0 h' (wk_device w1) \<and> hd_cylinder h' = Some (ta_cylinder track) \<and>
    hd_side h' = Some (ta_side track) \<and> wk_physical w1 = track"
    using assms(2) by (auto simp: worker_position_def io_bind_ok_iff)
  then show ?thesis
    by (auto simp: worker_confirm_def io_bind_def io_run share_def Let_def poke_def)
qed

text \<open>A write that reaches the device reaches it when its track was acknowledged last.\<close>

lemma write_placed:
  assumes "steady E d0 allowed cmds w" and "worker_place_write E request w = Some (Inr (), w')"
  shows "\<exists>h d from_index. head_after (se_device E) d0 h d \<and>
    hd_cylinder h = Some (ta_cylinder (wr_track request)) \<and> hd_side h = Some (ta_side (wr_track request)) \<and>
    dv_write_track (se_device E) (wr_words request) (wr_bit_len request) from_index
      (cfg_density (se_config E)) d = Some (Inr (), wk_device w')"
  using place_write_calls [OF assms(2)] position_acknowledged [OF assms(1)] by blast

lemma steady_position:
  assumes laws: "host_laws (se_host E) clock cmds evs"
  shows "leads (steady E d0 allowed cmds) (worker_position E track) (steady E d0 allowed cmds)"
  unfolding leads_def
proof (intro allI impI)
  fix w r w' assume s: "steady E d0 allowed cmds w" and run: "worker_position E track w = Some (r, w')"
  from run consider e where "worker_move E track w = Some (Inl e, w')"
    | w1 where "worker_move E track w = Some (Inr (), w1)" "worker_confirm w1 = Some (r, w')"
    by (auto simp: worker_position_def io_bind_returns_iff)
  then show "steady E d0 allowed cmds w'"
  proof cases
    case 1
    then show ?thesis using leadsD [OF steady_move s] by blast
  next
    case 2
    then have "r = Inr ()" by (auto simp: worker_confirm_def io_bind_def io_run share_def Let_def poke_def)
    then have "\<exists>h. head_after (se_device E) d0 h (wk_device w') \<and> remembers h w'"
      using position_acknowledged [OF s] run by (fastforce simp: remembers_def)
    moreover have "guarded E allowed cmds w1"
      using leadsD [OF steady_move s 2(1)] by (simp add: steady_def)
    then have "guarded E allowed cmds w'"
      using 2(2) guarded_interfere [OF _ laws, of allowed w1]
      by (auto simp: worker_confirm_def io_bind_def io_run share_def Let_def poke_def guarded_def)
        (meson in_set_tlD)
    ultimately show ?thesis by (simp add: steady_def)
  qed
qed

text \<open>The parts of the worker that move the head only by positioning it.\<close>

lemma steady_steps:
  fixes d0 and allowed
  assumes laws: "host_laws (se_host E) clock cmds evs"
  defines "J \<equiv> steady E d0 allowed cmds"
  shows "leads J (worker_note_error E error) J" "leads J (worker_perform_write E ident request) J"
    "leads J (worker_apply_desired E) J" "leads J (worker_refresh_status E) J"
    "leads J (worker_capture E) J" "leads J (worker_finish E) J"
proof -
  note sections = steady_sections [OF laws, of d0 allowed, folded J_def]
  note modify = steady_modify [of _ E d0 allowed cmds, folded J_def]
  note call = steady_calls [of E d0 allowed cmds, folded J_def]
  note position = steady_position [OF laws, of d0 allowed, folded J_def]
  have send: "leads J (send_event E event) J" for event
    unfolding send_event_def by (intro leads_intros sections)
  show note_error: "leads J (worker_note_error E error) J" for error
    unfolding worker_note_error_def worker_disconnect_def by (intro leads_intros sections modify send; simp)
  show "leads J (worker_perform_write E ident request) J"
    unfolding worker_perform_write_def worker_place_write_def starts_at_index_def
    by (intro leads_intros sections position call send)
  show "leads J (worker_apply_desired E) J"
    unfolding worker_apply_desired_def worker_apply_motor_def worker_quick_def
    by (intro leads_intros sections modify position call note_error; simp)
  show "leads J (worker_refresh_status E) J"
    unfolding worker_refresh_status_def
    by (intro leads_intros sections modify call send note_error; simp)
  have publish: "leads J (publish_all track log) J" for track log
  proof (induction track log rule: publish_all.induct)
    case (2 track words bit_len log)
    then show ?case unfolding publish_all.simps by (intro leads_intros sections)
  qed (simp add: leads_basic)
  have "leads J (call_read E) J"
    unfolding leads_def J_def
  proof (intro allI impI)
    fix w r w' assume s: "steady E d0 allowed cmds w" and "call_read E w = Some (r, w')"
    then obtain q d log where "dv_read_track (se_device E) (cfg_mode (se_config E)) (cfg_density (se_config E))
        (wk_device w, []) = Some (q, (d, log))" "w' = w\<lparr>wk_device := d\<rparr>"
      by (auto simp: call_read_def split: option.splits)
    then show "steady E d0 allowed cmds w'"
      using s head_after.read by (fastforce simp: steady_def remembers_def guarded_def)
  qed
  then have read: "leads J (worker_read E track) J" for track
    unfolding worker_read_def split_def by (intro leads_intros publish)
  have accept: "leads J (worker_accept E track capture) J" for track capture
    unfolding worker_accept_def by (intro leads_intros sections modify; simp)
  show "leads J (worker_capture E) J"
    unfolding worker_capture_def worker_take_capture_def split_def
    by (intro leads_intros sections position read accept note_error)
  show "leads J (worker_finish E) J"
    unfolding worker_finish_def by (intro leads_intros sections call)
qed

lemma steady_process:
  assumes "host_laws (se_host E) clock cmds evs" and "\<And>s. command \<noteq> NoClick s"
  shows "leads (steady E d0 allowed cmds) (worker_process E command) (steady E d0 allowed cmds)"
  unfolding worker_process_def
  using assms(2) by (cases command) (auto intro!: leads_intros steady_steps [OF assms(1)])

lemma steady_received:
  assumes laws: "host_laws (se_host E) clock cmds evs" and s: "steady E d0 allowed cmds w"
  shows "share (on_host (h_try_recv (se_host E))) w = Some (r, w') \<Longrightarrow>
      steady E d0 allowed cmds w' \<and> (\<forall>c. r = Inr (Some c) \<longrightarrow> allowed c)"
    and "share (on_host (h_select (se_host E) delay)) w = Some (q, w') \<Longrightarrow>
      steady E d0 allowed cmds w' \<and> (\<forall>c. q = Inr (SelCommand c) \<longrightarrow> allowed c)"
proof -
  let ?sh = "interfere (th_others w) (th_shared w)"
  have "\<forall>c \<in> set (cmds (sh_host ?sh)). allowed c"
    using s by (intro guarded_interfere [OF _ laws]) (simp add: steady_def)
  moreover have "steady E d0 allowed cmds (w\<lparr>th_shared := sh, th_others := tl (th_others w)\<rparr>)"
    if "\<forall>c \<in> set (cmds (sh_host sh)). allowed c" for sh
    using s that unfolding steady_def guarded_def remembers_def by (simp add: in_set_tlD)
  ultimately show "share (on_host (h_try_recv (se_host E))) w = Some (r, w') \<Longrightarrow>
      steady E d0 allowed cmds w' \<and> (\<forall>c. r = Inr (Some c) \<longrightarrow> allowed c)"
    and "share (on_host (h_select (se_host E) delay)) w = Some (q, w') \<Longrightarrow>
      steady E d0 allowed cmds w' \<and> (\<forall>c. q = Inr (SelCommand c) \<longrightarrow> allowed c)"
    using host_try_recv(1) [OF laws, of "sh_host ?sh"] host_select(1) [OF laws, of "sh_host ?sh" delay]
    by (auto simp: share_def on_host_def split_def Let_def split: option.splits selected.splits)
qed

lemma steady_drain:
  assumes laws: "host_laws (se_host E) clock cmds evs"
    and quiet: "\<forall>s. \<not> allowed (NoClick s)"
  shows "leads (steady E d0 allowed cmds) (worker_drain E) (steady E d0 allowed cmds)"
proof -
  let ?J = "steady E d0 allowed cmds"
  have process: "leads ?J (worker_process E c) ?J" if "allowed c" for c
    using that quiet by (intro steady_process [OF laws]) auto
  have "F = E \<longrightarrow> ?J w \<longrightarrow> ?J (snd y)" if "worker_drain F w = Some y" for F w y
  proof (rule worker_drain.raw_induct [where P = "\<lambda>F w y. F = E \<longrightarrow> ?J w \<longrightarrow> ?J (snd y)", OF _ that], goal_cases)
    case (1 loop F w y)
    show ?case
    proof (intro impI)
      assume F: "F = E" and w: "?J w"
      have "leads ?J (loop E) ?J" using 1(1) by (fastforce simp: leads_def)
      then have "leads ?J (\<lambda>w. io_bind (share (on_host (h_try_recv (se_host E)))) (\<lambda>command w.
         case command of
           None \<Rightarrow> io_return False w
         | Some command \<Rightarrow>
             io_bind (worker_process E command) (\<lambda>stop w.
               if stop then io_return True w else loop E w) w) w) ?J"
        by (intro leads_bind_result [where G = "\<lambda>a. \<forall>c. a = Some c \<longrightarrow> allowed c"])
          (use steady_received(1) [OF laws] in blast, auto intro!: leads_intros process)
      from leadsD [OF this w, of "fst y" "snd y"] show "?J (snd y)"
        unfolding prod.collapse using 1(2) unfolding F .
    qed
  qed
  then show ?thesis by (auto simp: leads_def)
qed

lemma steady_wait:
  assumes laws: "host_laws (se_host E) clock cmds evs"
    and quiet: "\<forall>s. \<not> allowed (NoClick s)"
  shows "leads (steady E d0 allowed cmds) (worker_wait E) (steady E d0 allowed cmds)"
  unfolding worker_wait_def
proof (rule leads_bind_result [where G = "\<lambda>a. \<forall>c. a = SelCommand c \<longrightarrow> allowed c"])
  fix a assume "\<forall>c. a = SelCommand c \<longrightarrow> allowed c"
  then show "leads (steady E d0 allowed cmds)
     (case a of SelCommand command \<Rightarrow> worker_process E command
     | SelClosed \<Rightarrow> io_return True | SelNudge \<Rightarrow> io_return False | SelTimeout \<Rightarrow> io_return False)
     (steady E d0 allowed cmds)"
    using quiet by (cases a) (auto intro: leads_basic steady_process [OF laws])
qed (use steady_received(2) [OF laws] in blast)

lemma steady_pass:
  assumes laws: "host_laws (se_host E) clock cmds evs"
    and quiet: "\<forall>s. \<not> allowed (NoClick s)"
  shows "leads (steady E d0 allowed cmds) (worker_pass E hot) (steady E d0 allowed cmds)"
  unfolding worker_pass_def unless_failed_def
  by (intro leads_intros steady_drain [OF assms] steady_wait [OF assms] steady_steps [OF laws])

lemma steady_reaches:
  assumes "host_laws (se_host E) clock cmds evs" and "\<forall>s. \<not> allowed (NoClick s)"
  shows "worker_reaches E w0 n w hot \<Longrightarrow> steady E d0 allowed cmds w0 \<Longrightarrow>
    steady E d0 allowed cmds w"
  by (induction rule: worker_reaches.induct) (auto dest: leadsD [OF steady_pass [OF assms]])

end
