(* ===== verification/Controller_Demo.thy ===== *)
theory Controller_Demo
  imports Controller_Threads
begin

text \<open>
  Instances on which the properties of the controller are exercised: channels that are lists,
  and the device that stands in for a drive in the crate's own tests.
\<close>

record sim_channels =
  ch_now :: nat
  ch_cmds :: "bridge_command list"
  ch_evs :: "bridge_event list"

definition sim_host :: "sim_channels host" where
  "sim_host =
     \<lparr>h_now = (\<lambda>q. (ch_now q, q)),
      h_sleep = (\<lambda>d q. ((), q\<lparr>ch_now := ch_now q + d\<rparr>)),
      h_channels = (\<lambda>_ _ _ q. q\<lparr>ch_cmds := [], ch_evs := []\<rparr>),
      h_try_send = (\<lambda>c q. if length (ch_cmds q) < COMMAND_CAPACITY
        then (Inr (), q\<lparr>ch_cmds := ch_cmds q @ [c]\<rparr>) else (Inl SendFull, q)),
      h_send = (\<lambda>c q. ((), q\<lparr>ch_cmds := ch_cmds q @ [c]\<rparr>)),
      h_try_recv = (\<lambda>q. case ch_cmds q of [] \<Rightarrow> (None, q) | c # cs \<Rightarrow> (Some c, q\<lparr>ch_cmds := cs\<rparr>)),
      h_select = (\<lambda>d q. case ch_cmds q of [] \<Rightarrow> (SelTimeout, q\<lparr>ch_now := ch_now q + d\<rparr>)
        | c # cs \<Rightarrow> (SelCommand c, q\<lparr>ch_cmds := cs\<rparr>)),
      h_try_send_event = (\<lambda>e q. if length (ch_evs q) < EVENT_CAPACITY
        then (Inr (), q\<lparr>ch_evs := ch_evs q @ [e]\<rparr>) else (Inl SendFull, q)),
      h_try_recv_event = (\<lambda>q. case ch_evs q of [] \<Rightarrow> (None, q) | e # es \<Rightarrow> (Some e, q\<lparr>ch_evs := es\<rparr>)),
      h_nudge = (\<lambda>q. ((), q)), h_join = (\<lambda>q. ((), q))\<rparr>"

lemma sim_laws: "host_laws sim_host ch_now ch_cmds ch_evs"
  by (simp add: host_laws_def sim_host_def split: list.split)

definition fake_device :: "drive_status device" where
  "fake_device =
     \<lparr>dv_selected_port = (\<lambda>_. PortId ''fake''), dv_status = io_gets id,
      dv_set_motor = (\<lambda>enabled _. io_modify (\<lambda>s. s\<lparr>ds_motor_running := enabled, ds_ready := enabled\<rparr>)),
      dv_seek = (\<lambda>c. io_bind (io_gets ds_max_cylinders) (\<lambda>limit.
        if c < limit then io_modify (ds_cylinder_update (\<lambda>_. c)) else io_throw (Protocol ''fake''))),
      dv_select_side = (\<lambda>s. io_modify (ds_side_update (\<lambda>_. s))),
      dv_no_click_step = io_return (),
      dv_read_track = (\<lambda>mode _. io_return \<lparr>rc_words = replicate 4 0xAAAA, rc_bit_len = 64,
        rc_index_aligned = (mode \<noteq> Normal)\<rparr>),
      dv_write_track = (\<lambda>_ _ _ _. io_return ())\<rparr>"

interpretation fake: device_contract fake_device ds_cylinder ds_side ds_max_cylinders
  by unfold_locales
    (auto simp: fake_device_def keeps_def io_run io_bind_def capture_ok_def validate_capture_def MAX_TRACK_BITS_def
      split: if_splits)

definition fake_setting :: "features \<Rightarrow> read_mode \<Rightarrow> (drive_status, sim_channels) setting" where
  "fake_setting feats mode =
     \<lparr>se_config = (config_default feats)\<lparr>cfg_mode := mode\<rparr>, se_device = fake_device, se_host = sim_host,
      se_sync_order = id, se_key_order = id, se_overflow_checks = False\<rparr>"

definition spinning :: drive_status where
  "spinning = drive_status_default\<lparr>ds_disk_present := True, ds_motor_running := True, ds_write_protected := False\<rparr>"

definition no_channels :: sim_channels where
  "no_channels = \<lparr>ch_now = 0, ch_cmds = [], ch_evs = []\<rparr>"

end
