(* ===== verification/Controller_Properties.thy ===== *)
theory Controller_Properties
  imports Controller_Safety Controller_Demo
begin

text \<open>
  What the worker keeps true while the caller interferes: the captures of the cache, and the track
  its writes go to.
\<close>

section \<open>Captures\<close>

text \<open>
  C5: Whatever the caller's thread does between any two sections of the worker, after any number
  of passes of its loop every capture in the cache is sound: it passed the validation, so its
  length in bits fits its words and a track, its generation is not zero and not from the future,
  and the captures of a track are in the order they were taken; the cache holds at most eight
  tracks and two captures of each. A pass moves the generation on by at most one.
\<close>

theorem captures_stay_sound:
  assumes "worker_reaches E (worker_new E d (shared_initial (se_host E) status q) others) n w hot"
    and "\<forall>e \<in> set others. caller_act (se_host E) (\<lambda>_. True) e"
    and "iterates_all (se_key_order E)" and "n < 2 ^ 64"
  shows "cache_sound (wk_generation w) (sh_captures (th_shared w)) \<and> unat (wk_generation w) \<le> n"
  using sound_reaches [OF assms(1,3) sound_start [OF assms(2)] assms(4)] by (simp add: worker_sound_def)

text \<open>The fake drive, whose caller wishes a read while the worker waits.\<close>

lemma drain_step:
  "worker_drain E w = io_bind (share (on_host (h_try_recv (se_host E)))) (\<lambda>command w.
       case command of
         None \<Rightarrow> io_return False w
       | Some command \<Rightarrow>
           io_bind (worker_process E command) (\<lambda>stop w.
             if stop then io_return True w else worker_drain E w) w) w"
  by (rule worker_drain.simps)

lemmas drain_record = drain_step [of _ "\<lparr>th_shared = a1, th_others = a2, wk_device = a3, wk_target = a4,
    wk_wanted = a5, wk_physical = a6, wk_positioned = a7, wk_failed = a8, wk_errors = a9,
    wk_motor_stopped = a10, wk_generation = a11, wk_next_status = a12\<rparr>"
    for a1 a2 a3 a4 a5 a6 a7 a8 a9 a10 a11 a12]

lemmas fake_run = drain_record worker_pass_def worker_wait_def worker_apply_desired_def worker_refresh_status_def
  worker_capture_def worker_take_capture_def worker_position_def worker_move_def worker_confirm_def
  worker_read_def call_read_def worker_accept_def unless_failed_def call_device_def io_zoom_def share_def
  interfere_def peek_def poke_def on_host_def take_desired_def attempt_def io_bind_def io_run
  fake_setting_def fake_device_def sim_host_def worker_new_def shared_initial_def Let_def split_def
  no_channels_def spinning_def drive_status_default_def desired_default_def track_default_def wish_read_def
  worker_apply_motor_def worker_quick_def validate_capture_def MAX_TRACK_BITS_def config_default_def
  front_capture_def track_full_def wanted_depth_def grade_capture_def store_capture_def
  MAX_CACHED_TRACKS_def CAPTURES_PER_TRACK_def

abbreviation fake_start :: "features \<Rightarrow> (sim_channels shared \<Rightarrow> sim_channels shared) list \<Rightarrow>
    (drive_status, sim_channels) worker" where
  "fake_start feats others \<equiv> worker_new (fake_setting feats Compatible) spinning
     (shared_initial sim_host spinning no_channels) others"

lemma fake_pass_reads:
  "\<exists>w'. worker_pass (fake_setting feats Compatible) False
      (fake_start feats [\<lambda>sh. sh, wish_read track_default]) = Some (Inr (Some True), w') \<and>
    held_captures (sh_captures (th_shared w')) track_default \<noteq> []"
  by (simp add: fake_run held_captures_def)

theorem captures_stay_sound_witness:
  "\<exists>w. worker_reaches (fake_setting demo_features Compatible)
       (fake_start demo_features [\<lambda>sh. sh, wish_read track_default]) 1 w True \<and>
     held_captures (sh_captures (th_shared w)) track_default \<noteq> [] \<and>
     cache_sound (wk_generation w) (sh_captures (th_shared w))"
proof -
  let ?E = "fake_setting demo_features Compatible"
  let ?others = "[\<lambda>sh. sh, wish_read track_default] :: (sim_channels shared \<Rightarrow> sim_channels shared) list"
  obtain w where w: "worker_pass ?E False (fake_start demo_features ?others) = Some (Inr (Some True), w)"
      "held_captures (sh_captures (th_shared w)) track_default \<noteq> []"
    using fake_pass_reads [of demo_features] by blast
  have "worker_reaches ?E (fake_start demo_features ?others) (Suc 0) w True"
    by (rule worker_reaches.pass [OF worker_reaches.start w(1)])
  then show ?thesis
    using w captures_stay_sound [of ?E spinning spinning no_channels ?others "Suc 0" w True]
    by (auto simp: fake_setting_def iterates_all_def caller_act.intros)
qed

section \<open>Writes\<close>

text \<open>
  The commands the worker receives in a run from its start: by the selection it waits in, or
  while it empties the queue. The state is that in which it processes the command.
\<close>

inductive worker_drains :: "('d, 'q) setting \<Rightarrow> ('d, 'q) worker \<Rightarrow> ('d, 'q) worker \<Rightarrow> bool"
  for E and w0 where
  hot: "worker_reaches E w0 n w True \<Longrightarrow> worker_drains E w0 w"
| waited: "worker_reaches E w0 n w False \<Longrightarrow> worker_wait E w = Some (Inr False, w') \<Longrightarrow> worker_drains E w0 w'"
| next_command: "worker_drains E w0 w \<Longrightarrow> share (on_host (h_try_recv (se_host E))) w = Some (Inr (Some c), w1) \<Longrightarrow>
    worker_process E c w1 = Some (Inr False, w2) \<Longrightarrow> worker_drains E w0 w2"

inductive worker_receives ::
  "('d, 'q) setting \<Rightarrow> ('d, 'q) worker \<Rightarrow> bridge_command \<Rightarrow> ('d, 'q) worker \<Rightarrow> bool" for E and w0 where
  selected: "worker_reaches E w0 n w False \<Longrightarrow>
    share (on_host (h_select (se_host E) (millis 5))) w = Some (Inr (SelCommand c), w') \<Longrightarrow>
    worker_receives E w0 c w'"
| drained: "worker_drains E w0 w \<Longrightarrow> share (on_host (h_try_recv (se_host E))) w = Some (Inr (Some c), w') \<Longrightarrow>
    worker_receives E w0 c w'"

lemma steady_drains:
  assumes laws: "host_laws (se_host E) clock cmds evs"
    and quiet: "\<forall>s. \<not> allowed (NoClick s)"
  shows "worker_drains E w0 w \<Longrightarrow> steady E d0 allowed cmds w0 \<Longrightarrow> steady E d0 allowed cmds w"
proof (induction rule: worker_drains.induct)
  case (hot n w)
  then show ?case using steady_reaches [OF assms] by blast
next
  case (waited n w w')
  then show ?case using steady_reaches [OF assms] leadsD [OF steady_wait [OF assms]] by blast
next
  case (next_command w c w1 w2)
  then have 1: "steady E d0 allowed cmds w1" "allowed c"
    using steady_received(1) [OF laws] by blast+
  then have "leads (steady E d0 allowed cmds) (worker_process E c) (steady E d0 allowed cmds)"
    using quiet by (intro steady_process [OF laws]) auto
  from leadsD [OF this 1(1) next_command.hyps(3)] show ?case .
qed

lemma steady_receives:
  assumes "host_laws (se_host E) clock cmds evs" and "\<forall>s. \<not> allowed (NoClick s)"
    and "steady E d0 allowed cmds w0"
  shows "worker_receives E w0 c w \<Longrightarrow> steady E d0 allowed cmds w"
proof (induction rule: worker_receives.induct)
  case (selected n w c w')
  then show ?case
    using steady_received(2) [OF assms(1)] steady_reaches [OF assms(1,2)] assms(3) by blast
next
  case (drained w c w')
  then show ?case
    using steady_received(1) [OF assms(1)] steady_drains [OF assms(1,2)] assms(3) by blast
qed

lemma steady_start:
  assumes laws: "host_laws (se_host E) clock cmds evs"
    and others: "\<forall>e \<in> set others. caller_act (se_host E) allowed e"
  shows "steady E d allowed cmds (worker_new E d (shared_initial (se_host E) status q) others)"
proof -
  let ?sh = "shared_initial (se_host E) status q"
  have "cmds (sh_host ?sh) = []" using host_channels [OF laws] by (simp add: shared_initial_def)
  then have "\<forall>c \<in> set (cmds (sh_host (interfere others ?sh))). allowed c"
    using interfere_cases [of others ?sh] caller_act_allowed [OF _ laws, of allowed _ ?sh] others
    by (metis empty_iff list.set(1))
  then show ?thesis
    using others head_after.opened [of "se_device E" d]
    by (auto simp: steady_def remembers_def guarded_def worker_new_def on_host_def split_def Let_def
        host_now(3) [OF laws] dest: in_set_tlD)
qed

text \<open>
  C4: On any device, a write that completes is a call on the device made when the last seek and the
  last side selection that the device acknowledged were to the cylinder and the side of the write's
  request, whatever else the caller's thread does between two sections of the worker and however
  many movements, reads and writes failed before; provided that the caller sends no no-click step.
  On a device that keeps the contract, as the three backends do, the backend's own record of its
  position is that cylinder unless a seek failed since, and that side unless a selection did: a
  movement that failed may have moved the head, and the worker does not make up for it.
\<close>

theorem writes_reach_their_track:
  assumes "host_laws (se_host E) clock cmds evs"
    and "\<forall>e \<in> set others. caller_act (se_host E) (\<lambda>c. \<forall>s. c \<noteq> NoClick s) e"
    and "worker_receives E (worker_new E d (shared_initial (se_host E) status q) others)
      (WriteCommand ident request) w"
    and "worker_place_write E request w = Some (Inr (), w')"
  shows "\<exists>h d1 from_index. head_after (se_device E) d h d1 \<and>
    hd_cylinder h = Some (ta_cylinder (wr_track request)) \<and> hd_side h = Some (ta_side (wr_track request)) \<and>
    dv_write_track (se_device E) (wr_words request) (wr_bit_len request) from_index
      (cfg_density (se_config E)) d1 = Some (Inr (), wk_device w') \<and>
    (device_contract (se_device E) cyl surface limit \<longrightarrow>
      (hd_seek_failed h \<or> cyl d1 = ta_cylinder (wr_track request)) \<and>
      (hd_side_failed h \<or> surface d1 = ta_side (wr_track request)))"
proof -
  have start: "steady E d (\<lambda>c. \<forall>s. c \<noteq> NoClick s) cmds
      (worker_new E d (shared_initial (se_host E) status q) others)"
    by (rule steady_start [OF assms(1,2)])
  have "steady E d (\<lambda>c. \<forall>s. c \<noteq> NoClick s) cmds w"
    using steady_receives [OF assms(1) _ start assms(3)] by simp
  from write_placed [OF this assms(4)] show ?thesis
    using device_contract.head_position by fastforce
qed

definition demo_write :: write_request where
  "demo_write = \<lparr>wr_track = \<lparr>ta_cylinder = 5, ta_side = Upper\<rparr>, wr_words = replicate 4 0x4489, wr_bit_len = 64,
     wr_start_bit = 0\<rparr>"

lemmas fake_write = worker_place_write_def starts_at_index_def INDEX_WRITE_SLACK_BITS_def
  COMMAND_CAPACITY_def demo_write_def

theorem writes_reach_their_track_witness:
  "\<exists>w w' h d1 from_index. worker_receives (fake_setting demo_features Compatible)
       (fake_start demo_features [\<lambda>sh. sh, \<lambda>sh. snd (on_host (h_try_send sim_host (WriteCommand (WriteId 1) demo_write)) sh)])
       (WriteCommand (WriteId 1) demo_write) w \<and>
     worker_place_write (fake_setting demo_features Compatible) demo_write w = Some (Inr (), w') \<and>
     head_after fake_device spinning h d1 \<and> hd_cylinder h = Some 5 \<and> hd_side h = Some Upper \<and>
     dv_write_track fake_device (replicate 4 0x4489) 64 from_index DensityAuto d1 = Some (Inr (), wk_device w') \<and>
     (hd_seek_failed h \<or> ds_cylinder d1 = 5) \<and> (hd_side_failed h \<or> ds_side d1 = Upper)"
proof -
  let ?E = "fake_setting demo_features Compatible" and ?c = "WriteCommand (WriteId 1) demo_write"
  let ?others = "[\<lambda>sh. sh, \<lambda>sh. snd (on_host (h_try_send sim_host ?c) sh)]"
  let ?w0 = "fake_start demo_features ?others"
  have "\<exists>w w'. share (on_host (h_select (se_host ?E) (millis 5))) ?w0 = Some (Inr (SelCommand ?c), w) \<and>
      worker_place_write ?E demo_write w = Some (Inr (), w')"
    by (simp add: fake_run fake_write)
  then obtain w w' where w: "share (on_host (h_select (se_host ?E) (millis 5))) ?w0 = Some (Inr (SelCommand ?c), w)"
      "worker_place_write ?E demo_write w = Some (Inr (), w')"
    by blast
  have receives: "worker_receives ?E ?w0 ?c w"
    by (rule worker_receives.selected [OF worker_reaches.start w(1)])
  have "\<forall>e \<in> set ?others. caller_act (se_host ?E) (\<lambda>c. \<forall>s. c \<noteq> NoClick s) e"
    by (simp add: fake_setting_def caller_act.look caller_act.send)
  moreover have fields: "se_device ?E = fake_device" "se_host ?E = sim_host" "cfg_density (se_config ?E) = DensityAuto"
      "wr_words demo_write = replicate 4 0x4489" "wr_bit_len demo_write = 64"
      "wr_track demo_write = \<lparr>ta_cylinder = 5, ta_side = Upper\<rparr>"
    by (simp_all add: fake_setting_def demo_write_def config_default_def)
  ultimately have acts: "\<forall>e \<in> set ?others. caller_act (se_host ?E) (\<lambda>c. \<forall>s. c \<noteq> NoClick s) e" by blast
  have laws: "host_laws (se_host ?E) ch_now ch_cmds ch_evs" unfolding fields by (rule sim_laws)
  have contract: "device_contract (se_device ?E) ds_cylinder ds_side ds_max_cylinders"
    unfolding fields by (rule fake.device_contract_axioms)
  have "worker_receives ?E (worker_new ?E spinning (shared_initial (se_host ?E) spinning no_channels) ?others) ?c w"
    unfolding fields by (rule receives)
  from writes_reach_their_track [OF laws acts this w(2)] contract
  obtain h d1 from_index where "head_after fake_device spinning h d1" "hd_cylinder h = Some 5" "hd_side h = Some Upper"
      "dv_write_track fake_device (replicate 4 0x4489) 64 from_index DensityAuto d1 = Some (Inr (), wk_device w')"
      "(hd_seek_failed h \<or> ds_cylinder d1 = 5) \<and> (hd_side_failed h \<or> ds_side d1 = Upper)"
    unfolding fields track_address.select_convs by blast
  then show ?thesis using receives w(2) by blast
qed

text \<open>
  C14: The proviso is needed, on every device: a no-click step selects its side on the device but
  not in the position the worker remembers, so that a write that follows to the track the worker
  believes to be at goes, without an error, to the side of the no-click step.
\<close>

theorem no_click_misplaces_writes:
  assumes "device_contract (se_device E) cyl surface limit" and "wk_positioned w" and "in_sync cyl surface w"
    and "io_then (dv_select_side (se_device E) s) (dv_no_click_step (se_device E)) (wk_device w) = Some (Inr (), d1)"
    and "worker_process E (NoClick s) w = Some (Inr stop, w1)"
    and "wr_track request = wk_physical w" and "worker_place_write E request w1 = Some (Inr (), w2)"
  shows "\<exists>d from_index. dv_write_track (se_device E) (wr_words request) (wr_bit_len request) from_index
      (cfg_density (se_config E)) d = Some (Inr (), wk_device w2) \<and>
    cyl d = ta_cylinder (wr_track request) \<and> surface d = s"
proof -
  have w1: "w1 = w\<lparr>wk_device := d1\<rparr>"
    using assms(4,5) by (auto simp: worker_process_def io_bind_ok_iff attempt_def call_device_def io_zoom_def io_run)
  obtain d0 where "dv_select_side (se_device E) s (wk_device w) = Some (Inr (), d0)"
      "dv_no_click_step (se_device E) d0 = Some (Inr (), d1)"
    using assms(4) by (auto simp: io_bind_ok_iff)
  then have d1: "surface d1 = s" "cyl d1 = ta_cylinder (wk_physical w)"
    using device_contract.side_moves [OF assms(1)] device_contract.others_frame(5) [OF assms(1)] assms(2,3)
    by (fastforce simp: in_sync_def)+
  have position: "worker_position E (wr_track request) w1 = Some (Inr (), w3) \<Longrightarrow> wk_device w3 = d1" for w3
    using assms(2,6)
    by (auto simp: w1 worker_position_def worker_move_def worker_confirm_def io_bind_def io_run share_def poke_def Let_def)
  from place_write_calls [OF assms(7)] show ?thesis
    using d1 assms(6) position by metis
qed

theorem no_click_misplaces_writes_witness:
  "\<exists>w w1 w2 d from_index.
     worker_process (fake_setting demo_features Compatible) (NoClick Lower) w = Some (Inr False, w1) \<and>
     worker_place_write (fake_setting demo_features Compatible) demo_write w1 = Some (Inr (), w2) \<and>
     dv_write_track fake_device (replicate 4 0x4489) 64 from_index DensityAuto d = Some (Inr (), wk_device w2) \<and>
     ta_side (wr_track demo_write) = Upper \<and> ds_side d = Lower"
proof -
  let ?E = "fake_setting demo_features Compatible"
  have fields: "se_device ?E = fake_device" "se_host ?E = sim_host" "cfg_density (se_config ?E) = DensityAuto"
      "wr_words demo_write = replicate 4 0x4489" "wr_bit_len demo_write = 64"
      "wr_track demo_write = \<lparr>ta_cylinder = 5, ta_side = Upper\<rparr>"
    by (simp_all add: fake_setting_def demo_write_def config_default_def)
  define w where "w = (fake_start demo_features [])\<lparr>wk_positioned := True, wk_physical := wr_track demo_write,
    wk_device := spinning\<lparr>ds_cylinder := 5, ds_side := Upper\<rparr>\<rparr>"
  have "\<exists>w1 w2. worker_process ?E (NoClick Lower) w = Some (Inr False, w1) \<and>
      worker_place_write ?E demo_write w1 = Some (Inr (), w2)"
    by (simp add: w_def fake_run fake_write worker_process_def)
  then obtain w1 w2 where run: "worker_process ?E (NoClick Lower) w = Some (Inr False, w1)"
      "worker_place_write ?E demo_write w1 = Some (Inr (), w2)"
    by blast
  have contract: "device_contract (se_device ?E) ds_cylinder ds_side ds_max_cylinders"
    unfolding fields by (rule fake.device_contract_axioms)
  have sync: "wk_positioned w" "in_sync ds_cylinder ds_side w" "wr_track demo_write = wk_physical w"
    by (simp_all add: w_def in_sync_def demo_write_def)
  have call: "io_then (dv_select_side (se_device ?E) Lower) (dv_no_click_step (se_device ?E)) (wk_device w) =
      Some (Inr (), spinning\<lparr>ds_cylinder := 5, ds_side := Lower\<rparr>)"
    unfolding fields by (simp add: w_def fake_device_def io_bind_def io_run spinning_def drive_status_default_def)
  from no_click_misplaces_writes [OF contract sync(1,2) call run(1) sync(3) run(2)]
  show ?thesis using run unfolding fields track_address.select_convs by blast
qed

end
