(* ===== verification/Controller_Service.thy ===== *)
theory Controller_Service
  imports Controller_Properties
begin

text \<open>
  The service the controller gives its caller: what a submission promises, that a pass of the
  worker returns whatever the caller does, when a wish is lost, and that a read is served.
\<close>

section \<open>Submissions\<close>

lemma clamp_ok: "bridge_clamp track b = Some (Inr (clamp_track track (br_max_cylinders b)), b)"
  by (simp add: bridge_clamp_def io_run)

lemma check_write_Inr:
  "check_write request = Inr u \<longleftrightarrow>
     wr_words request \<noteq> [] \<and> length (wr_words request) * 16 < 2 ^ 64 \<and> 0 < wr_bit_len request \<and>
     wr_bit_len request \<le> length (wr_words request) * 16 \<and> wr_bit_len request \<le> MAX_TRACK_BITS"
  by (auto simp: check_write_def Let_def not_le)

lemma alone_share:
  "th_others b = [] \<Longrightarrow> share act b = Some (Inr (fst (act (th_shared b))), b\<lparr>th_shared := snd (act (th_shared b))\<rparr>)"
  by (cases b) (simp add: share_def interfere_def split_def Let_def)

lemma index_returns:
  "starts_at_index checks start_bit track_bits s = Some (r, s') \<Longrightarrow>
     s' = s \<and> r = Inr (start_bit \<le> INDEX_WRITE_SLACK_BITS \<or>
       unat (start_bit + INDEX_WRITE_SLACK_BITS) \<ge> track_bits)"
  by (auto simp: starts_at_index_def io_run io_panic_def split: if_splits)

text \<open>The check against the capture the caller would be handed.\<close>

lemma known_check:
  assumes "io_when (0 < known) (io_bind (starts_at_index checks (wr_start_bit request) known) (\<lambda>from_index.
      if \<not> from_index \<and> \<not> wr_bit_len request + 16 \<ge> known
      then io_throw (UnplaceablePartialWrite (unat (wr_start_bit request)) known) else io_return ())) s = Some (r, s')"
  shows "s' = s \<and> (r = Inr () \<longrightarrow> 0 < known \<longrightarrow> wr_start_bit request \<le> INDEX_WRITE_SLACK_BITS \<or>
     known \<le> unat (wr_start_bit request + INDEX_WRITE_SLACK_BITS) \<or> known \<le> wr_bit_len request + 16)"
  using assms by (auto simp: io_when_def io_bind_returns_iff io_run dest!: index_returns split: if_splits)

lemma enqueue_sends:
  assumes laws: "host_laws H clock cmds evs" and alone: "th_others b = []"
    and run: "bridge_enqueue H c b = Some (r, b')"
  shows "br_next_write b' = br_next_write b \<and> cmds (sh_host (th_shared b')) =
    (case r of Inl _ \<Rightarrow> cmds (sh_host (th_shared b)) | Inr _ \<Rightarrow> cmds (sh_host (th_shared b)) @ [c])"
  using run host_try_send(1) [OF laws, of c "sh_host (th_shared b)"]
  by (auto simp: bridge_enqueue_def io_bind_def alone_share [OF alone] on_host_def split_def Let_def io_run
      split: sum.splits try_send_error.splits)

text \<open>
  C12: What a submission promises the caller: the next identifier, which is never zero again, comes
  back exactly when the write is in the queue behind all others, with its track clamped; such a
  write has data that fits its words and a track, the disk is not protected, and it can be placed
  on the capture the caller would be handed; a rejected one leaves the queue as it was.
\<close>

theorem submit_write_promises:
  fixes b :: "'q bridge" and request
  defines "track \<equiv> clamp_track (wr_track request) (br_max_cylinders b)" and "sh \<equiv> th_shared b"
  assumes laws: "host_laws H clock cmds evs" and alone: "th_others b = []"
    and run: "bridge_submit_write checks H request b = Some (r, b')"
  shows "case r of
      Inl e \<Rightarrow> cmds (sh_host (th_shared b')) = cmds (sh_host sh)
    | Inr ident \<Rightarrow>
        ident = WriteId (br_next_write b) \<and> br_next_write b' = max (br_next_write b + 1) 1 \<and>
        cmds (sh_host (th_shared b')) = cmds (sh_host sh) @ [WriteCommand ident (request\<lparr>wr_track := track\<rparr>)] \<and>
        0 < wr_bit_len request \<and> wr_bit_len request \<le> length (wr_words request) * 16 \<and>
        wr_bit_len request \<le> MAX_TRACK_BITS \<and> \<not> ds_write_protected (sh_status sh) \<and>
        (\<forall>c. front_capture (sh_captures sh) track = Some c \<and> 0 < tc_bit_len c \<longrightarrow>
           wr_start_bit request \<le> INDEX_WRITE_SLACK_BITS \<or>
           tc_bit_len c \<le> unat (wr_start_bit request + INDEX_WRITE_SLACK_BITS) \<or>
           tc_bit_len c \<le> wr_bit_len request + 16)"
proof -
  let ?request = "request\<lparr>wr_track := track\<rparr>"
  let ?known = "case front_capture (sh_captures sh) track of None \<Rightarrow> 0 | Some c \<Rightarrow> tc_bit_len c"
  let ?check = "io_when (0 < ?known) (io_bind (starts_at_index checks (wr_start_bit ?request) ?known) (\<lambda>from_index.
      if \<not> from_index \<and> \<not> wr_bit_len ?request + 16 \<ge> ?known
      then io_throw (UnplaceablePartialWrite (unat (wr_start_bit ?request)) ?known) else io_return ()))"
  let ?b = "br_next_write_update (\<lambda>n. max (n + 1) 1) b" and ?id = "WriteId (br_next_write b)"
  let ?send = "io_then (bridge_enqueue H (WriteCommand ?id ?request)) (io_return ?id)"
  have peeks: "bridge_status b = Some (Inr (sh_status sh), b)" "share (peek f) b = Some (Inr (f sh), b)" for f
    by (simp_all add: bridge_status_def alone_share [OF alone] peek_def sh_def)
  show ?thesis
  proof (cases "(\<exists>e. check_write ?request = Inl e) \<or> ds_write_protected (sh_status sh)")
    case True
    then show ?thesis
      using run
      by (auto simp: bridge_submit_write_def Let_def io_bind_def clamp_ok io_run sh_def peeks split: sum.splits
          simp flip: track_def)
  next
    case False
    then have ok: "check_write ?request = Inr ()" "\<not> ds_write_protected (sh_status sh)"
      by (cases "check_write ?request"; simp)+
    let ?rest = "io_bind (io_gets br_next_write) (\<lambda>n.
        io_then (io_modify (br_next_write_update (\<lambda>n. max (n + 1) 1)))
          (io_then (bridge_enqueue H (WriteCommand (WriteId n) ?request)) (io_return (WriteId n))))"
    have "io_then ?check ?rest b = Some (r, b')"
      using run ok by (simp add: bridge_submit_write_def Let_def io_bind_Some clamp_ok io_run peeks flip: track_def)
    then consider e where "?check b = Some (Inl e, b')" "r = Inl e"
      | a s where "?check b = Some (Inr a, s)" "?rest s = Some (r, b')"
      unfolding io_bind_returns_iff [of ?check] by blast
    then show ?thesis
    proof cases
      case 1
      then show ?thesis using known_check [OF 1(1)] by (simp add: sh_def)
    next
      case 2
      have "?send ?b = Some (r, b')" using 2(2) known_check [OF 2(1)] by (simp add: io_bind_Some io_run)
      then obtain q where q: "bridge_enqueue H (WriteCommand ?id ?request) ?b = Some (q, b')"
          "r = (case q of Inl e \<Rightarrow> Inl e | Inr _ \<Rightarrow> Inr ?id)"
        by (auto simp: io_bind_returns_iff io_run)
      have "th_others ?b = []" using alone by simp
      note sends = enqueue_sends [OF laws this q(1)]
      have placed: "\<forall>c. front_capture (sh_captures sh) track = Some c \<and> 0 < tc_bit_len c \<longrightarrow>
           wr_start_bit request \<le> INDEX_WRITE_SLACK_BITS \<or>
           tc_bit_len c \<le> unat (wr_start_bit request + INDEX_WRITE_SLACK_BITS) \<or>
           tc_bit_len c \<le> wr_bit_len request + 16"
        using known_check [OF 2(1)] by auto
      show ?thesis
        using sends q(2) placed ok by (cases q) (simp_all add: sh_def check_write_Inr)
    qed
  qed
qed

theorem submit_write_promises_witness:
  "\<exists>b'. bridge_submit_write False sim_host demo_write
       (bridge_initial (config_default demo_features) spinning (PortId ''fake'')
          (shared_initial sim_host spinning no_channels) []) = Some (Inr (WriteId 1), b') \<and>
     ch_cmds (sh_host (th_shared b')) = [WriteCommand (WriteId 1) demo_write]"
proof -
  let ?b = "bridge_initial (config_default demo_features) spinning (PortId ''fake'')
          (shared_initial sim_host spinning no_channels) [] :: sim_channels bridge"
  have "\<exists>b'. bridge_submit_write False sim_host demo_write ?b = Some (Inr (WriteId 1), b')"
    by (simp del: One_nat_def add: bridge_submit_write_def Let_def io_bind_def clamp_ok io_run bridge_initial_def demo_write_def
        bridge_status_def alone_share shared_initial_def peek_def spinning_def drive_status_default_def
        front_capture_def check_write_def MAX_TRACK_BITS_def bridge_enqueue_def on_host_def sim_host_def
        no_channels_def COMMAND_CAPACITY_def)
  then obtain b' where run: "bridge_submit_write False sim_host demo_write ?b = Some (Inr (WriteId 1), b')" by blast
  have "th_others ?b = []" by (simp add: bridge_initial_def)
  from submit_write_promises [OF sim_laws this run] show ?thesis
    using run
    by (simp add: bridge_initial_def shared_initial_def sim_host_def no_channels_def demo_write_def clamp_track_def
        spinning_def drive_status_default_def sat_sub8_def)
qed

section \<open>Returning\<close>


lemma halts_more [io_halts_intros]:
  "io_halts (share act)" "io_halts u \<Longrightarrow> io_halts (attempt u)" "io_halts u \<Longrightarrow> io_halts (call_device u)"
  "(\<And>e. io_halts (h e)) \<Longrightarrow> (\<And>a. io_halts (k a)) \<Longrightarrow> io_halts (case x of Inl e \<Rightarrow> h e | Inr a \<Rightarrow> k a)"
  "io_halts n \<Longrightarrow> (\<And>a. io_halts (g a)) \<Longrightarrow> io_halts (case y of None \<Rightarrow> n | Some a \<Rightarrow> g a)"
  by (auto simp: io_halts_def share_def split_def Let_def attempt_def call_device_def io_zoom_def
      split: option.splits sum.split)









section \<open>Wishes\<close>

text \<open>Runs in which the caller does nothing meanwhile.\<close>

lemma wp_alone [wp_simps]:
  "th_others w = [] \<Longrightarrow> io_wp (share act) Q w \<longleftrightarrow>
     Q (Inr (fst (act (th_shared w)))) (w\<lparr>th_shared := snd (act (th_shared w))\<rparr>)"
  by (simp add: io_wp_def alone_share)

lemma wp_call: "io_wp (call_device m) Q w \<longleftrightarrow> io_wp m (\<lambda>r d. Q r (w\<lparr>wk_device := d\<rparr>)) (wk_device w)"
  by (simp add: call_device_def wp_zoom)

lemma on_host_simps [simp]:
  "fst (on_host op sh) = fst (op (sh_host sh))" "snd (on_host op sh) = sh\<lparr>sh_host := snd (op (sh_host sh))\<rparr>"
  by (simp_all add: on_host_def split_def Let_def)

lemma section_simps [simp]:
  "fst (peek f sh) = f sh" "snd (peek f sh) = sh" "snd (poke g sh) = g sh" "fst (poke g sh) = ()"
  by (simp_all add: peek_def poke_def)

lemma wp_note_error:
  assumes "th_others w = []"
  shows "io_wp (worker_note_error E e) (\<lambda>r w'. r = Inr () \<and> th_others w' = [] \<and>
    sh_desired (th_shared w') = sh_desired (th_shared w) \<and> wk_device w' = wk_device w) w"
  using assms by (simp add: worker_note_error_def worker_disconnect_def send_event_def wp_simps)

lemma position_alone:
  "leads (\<lambda>w. th_others w = [] \<and> sh_desired (th_shared w) = d) (worker_position E track)
     (\<lambda>w. th_others w = [] \<and> sh_desired (th_shared w) = d)"
  unfolding worker_position_def worker_move_def worker_confirm_def split_def
  by (intro leads_intros leads_modify leads_call leads_share) (auto simp: interfere_def)

text \<open>
  C15: A wish for the motor can be lost: when the caller also wished for a track and the positioning
  fails, the worker has taken both wishes but acts on neither; the device is as the failed
  positioning left it, and no wish is left for a later pass.
\<close>

theorem motor_wish_lost:
  fixes w :: "('d, 'q) worker"
  defines "sh \<equiv> th_shared w"
  assumes alone: "th_others w = []" and wish: "de_motor (sh_desired sh) = Some (s, enabled)"
      "de_target (sh_desired sh) = Some track"
    and fails: "worker_position E track
      (w\<lparr>th_shared := sh\<lparr>sh_desired := desired_default\<rparr>,
         wk_wanted := (case de_wanted (sh_desired sh) of None \<Rightarrow> wk_wanted w | Some t \<Rightarrow> Some t),
         wk_target := track\<rparr>) = Some (Inl e, w1)"
  shows "\<exists>w'. worker_apply_desired E w = Some (Inr (), w') \<and> wk_device w' = wk_device w1 \<and>
    sh_desired (th_shared w') = desired_default"
proof -
  have w1: "th_others w1 = []" "sh_desired (th_shared w1) = desired_default"
    using leadsD [OF position_alone [of desired_default] _ fails] alone by simp_all
  have "io_wp (worker_apply_desired E)
      (\<lambda>r w'. r = Inr () \<and> wk_device w' = wk_device w1 \<and> sh_desired (th_shared w') = desired_default) w"
  proof -
    have position: "io_wp (worker_position E track) Q (w\<lparr>th_shared := sh\<lparr>sh_desired := desired_default\<rparr>,
         wk_wanted := (case de_wanted (sh_desired sh) of None \<Rightarrow> wk_wanted w | Some t \<Rightarrow> Some t),
         wk_target := track\<rparr>) \<longleftrightarrow> Q (Inl e) w1" for Q
      by (simp add: io_wp_def fails)
    note error = wp_conseq [OF wp_note_error [OF w1(1)]]
    show ?thesis
      using position
      by (cases "de_wanted (sh_desired sh)")
        (simp_all add: worker_apply_desired_def wp_simps alone wish take_desired_def flip: sh_def,
          (rule error; simp add: w1 wp_simps)+)
  qed
  then show ?thesis by (auto simp: io_wp_def)
qed

theorem motor_wish_lost_witness:
  "\<exists>w'. worker_apply_desired (fake_setting demo_features Compatible)
       (fake_start demo_features [\<lambda>sh. wish_target \<lparr>ta_cylinder = 200, ta_side = Lower\<rparr> (wish_motor Lower False sh)]) =
       Some (Inr (), w') \<and>
     ds_motor_running (wk_device w') \<and> sh_desired (th_shared w') = desired_default"
proof -
  let ?E = "fake_setting demo_features Compatible" and ?t = "\<lparr>ta_cylinder = 200, ta_side = Lower\<rparr>"
  let ?w = "fake_start demo_features [\<lambda>sh. wish_target ?t (wish_motor Lower False sh)]"
  have start: "th_others ?w = []" "de_motor (sh_desired (th_shared ?w)) = Some (Lower, False)"
      "de_target (sh_desired (th_shared ?w)) = Some ?t"
    by (simp_all add: worker_new_def on_host_def interfere_def wish_target_def wish_motor_def Let_def split_def)
  have "\<exists>e w1. worker_position ?E ?t
      (?w\<lparr>th_shared := (th_shared ?w)\<lparr>sh_desired := desired_default\<rparr>,
         wk_wanted := (case de_wanted (sh_desired (th_shared ?w)) of None \<Rightarrow> wk_wanted ?w | Some t \<Rightarrow> Some t),
         wk_target := ?t\<rparr>) = Some (Inl e, w1) \<and> ds_motor_running (wk_device w1)"
    by (simp add: fake_run)
  then show ?thesis using motor_wish_lost [OF start] by metis
qed

section \<open>A read is served\<close>

text \<open>
  A drive that is there: its disk is in, its motor runs and the worker has not given it up; and a
  device that answers whatever is asked of it for a track, as long as it stays \<open>good\<close>.
\<close>

definition ready :: "drive_status \<Rightarrow> bool" where
  "ready s \<longleftrightarrow> ds_working s \<and> ds_motor_running s \<and> ds_disk_present s"

definition serves_track :: "('d, 'q) setting \<Rightarrow> ('d \<Rightarrow> bool) \<Rightarrow> track_address \<Rightarrow> bool" where
  "serves_track E good t \<longleftrightarrow> (\<forall>d. good d \<longrightarrow>
     io_wp (dv_seek (se_device E) (ta_cylinder t)) (\<lambda>r d'. r = Inr () \<and> good d') d \<and>
     io_wp (dv_select_side (se_device E) (ta_side t)) (\<lambda>r d'. r = Inr () \<and> good d') d \<and>
     io_wp (dv_status (se_device E)) (\<lambda>r d'. (\<exists>s. r = Inr s \<and> ready s) \<and> good d') d \<and>
     io_wp (dv_read_track (se_device E) (cfg_mode (se_config E)) (cfg_density (se_config E)))
       (\<lambda>r dl. (\<exists>c. r = Inr c \<and> validate_capture c = Inr ()) \<and> good (fst dl)) (d, []))"

definition at_rest :: "('d \<Rightarrow> bool) \<Rightarrow> ('q \<Rightarrow> bridge_command list) \<Rightarrow> ('d, 'q) worker \<Rightarrow> bool" where
  "at_rest good cmds w \<longleftrightarrow> good (wk_device w) \<and> \<not> wk_failed w \<and> th_others w = [] \<and>
     ready (sh_status (th_shared w)) \<and> cmds (sh_host (th_shared w)) = []"

definition same_wishes :: "('d, 'q) worker \<Rightarrow> ('d, 'q) worker \<Rightarrow> bool" where
  "same_wishes w w' \<longleftrightarrow> wk_wanted w' = wk_wanted w \<and> wk_target w' = wk_target w \<and>
     sh_desired (th_shared w') = sh_desired (th_shared w)"

text \<open>
  What a read hands over: a capture as the device's read returned it, graded, from a state in which
  the track was the last that the device acknowledged, and with nothing called on it since.
\<close>

definition read_at :: "('d, 'q) setting \<Rightarrow> 'd \<Rightarrow> track_address \<Rightarrow> ('d, 'q) worker \<Rightarrow> track_capture \<Rightarrow> bool" where
  "read_at E d0 t w c \<longleftrightarrow> (\<exists>h d raw log. head_after (se_device E) d0 h d \<and>
     hd_cylinder h = Some (ta_cylinder t) \<and> hd_side h = Some (ta_side t) \<and>
     dv_read_track (se_device E) (cfg_mode (se_config E)) (cfg_density (se_config E)) (d, []) =
       Some (Inr raw, (wk_device w, log)) \<and> validate_capture raw = Inr () \<and>
     c = \<lparr>tc_words = rc_words raw, tc_bit_len = rc_bit_len raw, tc_quality = grade_capture (se_sync_order E) raw,
          tc_generation = wk_generation w\<rparr>)"

definition undisturbed :: "bridge_command \<Rightarrow> bool" where
  "undisturbed c \<longleftrightarrow> (\<forall>s. c \<noteq> NoClick s)"

lemma wp_steady:
  assumes "io_wp m Q w" and "leads J m J" and "J w"
  shows "io_wp m (\<lambda>r w'. Q r w' \<and> J w') w"
  using assms by (auto simp: io_wp_def dest: leadsD [OF assms(2,3)])

lemma rest_position:
  assumes serves: "serves_track E good t" and rest: "at_rest good cmds w"
  shows "io_wp (worker_position E t) (\<lambda>r w'. r = Inr () \<and> at_rest good cmds w' \<and> same_wishes w w' \<and>
    sh_captures (th_shared w') = sh_captures (th_shared w)) w"
proof -
  have dev: "good d \<Longrightarrow> io_wp (dv_seek (se_device E) (ta_cylinder t)) (\<lambda>r d'. r = Inr () \<and> good d') d"
    "good d \<Longrightarrow> io_wp (dv_select_side (se_device E) (ta_side t)) (\<lambda>r d'. r = Inr () \<and> good d') d" for d
    using serves by (simp_all add: serves_track_def)
  have confirm: "io_wp worker_confirm (\<lambda>r w'. r = Inr () \<and> at_rest good cmds w' \<and> same_wishes v w' \<and>
    sh_captures (th_shared w') = sh_captures (th_shared v)) v" if "at_rest good cmds v" for v
    using that by (simp add: worker_confirm_def wp_simps at_rest_def same_wishes_def ready_def)
  let ?P = "\<lambda>w'. at_rest good cmds w' \<and> same_wishes w w' \<and> sh_captures (th_shared w') = sh_captures (th_shared w)"
  have part: "io_wp (io_when b (io_then (call_device m) (io_modify (wk_physical_update g)))) (\<lambda>r w'. r = Inr () \<and> ?P w') v"
    if "?P v" and "\<And>d. good d \<Longrightarrow> io_wp m (\<lambda>r d'. r = Inr () \<and> good d') d" for b m g v
  proof -
    have "io_wp m (\<lambda>r d'. r = Inr () \<and> good d') (wk_device v)" using that by (simp add: at_rest_def)
    then show ?thesis
      using that(1) unfolding wp_when wp_bind wp_call
      by (auto simp: wp_simps at_rest_def same_wishes_def elim!: wp_conseq)
  qed
  have "io_wp (worker_move E t) (\<lambda>r w'. r = Inr () \<and> ?P w') w"
    unfolding worker_move_def split_def wp_bind wp_basic sum.case
    by (rule wp_conseq [OF part [OF _ dev(1)]]) (use rest part [OF _ dev(2)] in \<open>auto simp: same_wishes_def\<close>)
  then show ?thesis
    unfolding worker_position_def wp_bind
    by (rule wp_conseq) (auto simp: same_wishes_def intro: wp_conseq [OF confirm])
qed

lemma rest_wait:
  assumes laws: "host_laws (se_host E) clock cmds evs" and open_queue: "\<forall>d q. fst (h_select (se_host E) d q) \<noteq> SelClosed"
    and rest: "at_rest good cmds w"
  shows "io_wp (worker_wait E) (\<lambda>r w'. r = Inr False \<and> at_rest good cmds w' \<and> same_wishes w w' \<and>
    sh_captures (th_shared w') = sh_captures (th_shared w)) w"
  using host_select(1) [OF laws, of "sh_host (th_shared w)" "millis 5"] open_queue rest
  by (auto simp: worker_wait_def wp_simps at_rest_def same_wishes_def split: selected.splits)

lemma rest_drain:
  assumes laws: "host_laws (se_host E) clock cmds evs" and rest: "at_rest good cmds w"
  shows "io_wp (worker_drain E) (\<lambda>r w'. r = Inr False \<and> at_rest good cmds w' \<and> same_wishes w w' \<and>
    sh_captures (th_shared w') = sh_captures (th_shared w)) w"
proof -
  have "fst (h_try_recv (se_host E) (sh_host (th_shared w))) = None"
    "cmds (snd (h_try_recv (se_host E) (sh_host (th_shared w)))) = []"
    using host_try_recv(1) [OF laws, of "sh_host (th_shared w)"] rest
    by (auto simp: at_rest_def split: option.splits)
  then show ?thesis
    using rest
    by (simp add: io_wp_def drain_step [of E w] io_bind_Some alone_share at_rest_def io_run same_wishes_def)
qed

lemma rest_desired:
  assumes serves: "serves_track E good t" and rest: "at_rest good cmds w"
    and wish: "sh_desired (th_shared w) = \<lparr>de_motor = None, de_target = Some t, de_wanted = Some t\<rparr>"
  shows "io_wp (worker_apply_desired E) (\<lambda>r w'. r = Inr () \<and> at_rest good cmds w' \<and>
    wk_wanted w' = Some t \<and> wk_target w' = t \<and>
    sh_captures (th_shared w') = sh_captures (th_shared w)) w"
proof -
  let ?w = "w\<lparr>th_shared := (th_shared w)\<lparr>sh_desired := desired_default\<rparr>, wk_wanted := Some t, wk_target := t\<rparr>"
  have "at_rest good cmds ?w" using rest by (simp add: at_rest_def)
  note position = wp_conseq [OF rest_position [OF serves this]]
  have alone: "th_others w = []" using rest by (simp add: at_rest_def)
  show ?thesis
    by (simp add: worker_apply_desired_def wp_simps alone take_desired_def wish)
      (rule position, auto simp: wp_simps at_rest_def same_wishes_def)
qed

lemma rest_status:
  assumes laws: "host_laws (se_host E) clock cmds evs" and serves: "serves_track E good t"
    and rest: "at_rest good cmds w" and missing: "front_capture (sh_captures (th_shared w)) t = None"
  shows "io_wp (worker_refresh_status E) (\<lambda>r w'. r = Inr () \<and> at_rest good cmds w' \<and>
    wk_wanted w' = wk_wanted w \<and> wk_target w' = wk_target w \<and>
    front_capture (sh_captures (th_shared w')) t = None) w"
proof -
  have "io_wp (dv_status (se_device E)) (\<lambda>r d'. (\<exists>s. r = Inr s \<and> ready s) \<and> good d') (wk_device w)"
    using serves rest by (simp add: serves_track_def at_rest_def)
  note status = wp_conseq [OF this]
  have empty: "front_capture [] t = None" by (simp add: front_capture_def)
  have alone: "th_others w = []" using rest by (simp add: at_rest_def)
  show ?thesis
    using rest missing
    by (auto simp: worker_refresh_status_def wp_simps alone wp_call at_rest_def host_now(3) [OF laws]
        host_event(2) [OF laws] send_event_def ready_def empty intro!: status)
qed

lemma rest_publish:
  "at_rest good cmds w \<Longrightarrow> io_wp (publish_all track log) (\<lambda>r w'. r = Inr () \<and> at_rest good cmds w' \<and>
     wk_device w' = wk_device w \<and> sh_captures (th_shared w') = sh_captures (th_shared w)) w"
proof (induction track log arbitrary: w rule: publish_all.induct)
  case (2 track words bit_len log)
  let ?w = "w\<lparr>th_shared := (th_shared w)\<lparr>sh_partial := Some \<lparr>pc_track = track, pc_words = words, pc_bit_len = bit_len\<rparr>\<rparr>\<rparr>"
  have "th_others w = []" "at_rest good cmds ?w" using 2(2) by (simp_all add: at_rest_def)
  then show ?case using 2(1) [of ?w] by (simp add: wp_simps)
qed (simp add: wp_simps)

lemma front_stored:
  assumes "front_capture cache t = None"
  shows "front_capture (store_capture keys t c cache) t = Some c"
proof -
  have "held_captures (make_room keys t cache) t = []"
    using assms by (auto simp: held_room front_capture_held split: list.splits)
  then show ?thesis by (simp add: store_capture_room front_capture_held held_update keep_last_def CAPTURES_PER_TRACK_def)
qed

lemma rest_read:
  assumes serves: "serves_track E good t" and rest: "at_rest good cmds v"
  shows "io_wp (worker_read E t) (\<lambda>r w'. \<exists>raw log. r = Inr (Inr raw) \<and> validate_capture raw = Inr () \<and>
    dv_read_track (se_device E) (cfg_mode (se_config E)) (cfg_density (se_config E)) (wk_device v, []) =
      Some (Inr raw, (wk_device w', log)) \<and>
    at_rest good cmds w' \<and> sh_captures (th_shared w') = sh_captures (th_shared v)) v"
proof -
  let ?read = "dv_read_track (se_device E) (cfg_mode (se_config E)) (cfg_density (se_config E))"
  have "io_wp ?read (\<lambda>r dl. (\<exists>c. r = Inr c \<and> validate_capture c = Inr ()) \<and> good (fst dl)) (wk_device v, [])"
    using assms by (simp add: serves_track_def at_rest_def)
  then obtain raw d log where run: "?read (wk_device v, []) = Some (Inr raw, (d, log))" "validate_capture raw = Inr ()" "good d"
    by (auto simp: io_wp_def)
  have "at_rest good cmds (v\<lparr>wk_device := d\<rparr>)" using rest run(3) by (simp add: at_rest_def)
  then have "io_wp (io_then (publish_all t log) (io_return (Inr raw :: raw_capture result))) (\<lambda>r w'. r = Inr (Inr raw) \<and> wk_device w' = d \<and>
      at_rest good cmds w' \<and> sh_captures (th_shared w') = sh_captures (th_shared v)) (v\<lparr>wk_device := d\<rparr>)"
    unfolding wp_bind by (intro wp_conseq [OF rest_publish]) (auto simp: wp_simps)
  then obtain w' where "io_then (publish_all t log) (io_return (Inr raw :: raw_capture result)) (v\<lparr>wk_device := d\<rparr>) =
      Some (Inr (Inr raw), w')"
      "wk_device w' = d" "at_rest good cmds w'" "sh_captures (th_shared w') = sh_captures (th_shared v)"
    by (auto simp: io_wp_def)
  then show ?thesis
    using run by (simp add: io_wp_def worker_read_def call_read_def io_bind_Some)
qed

lemma rest_take_capture:
  assumes serves: "serves_track E good t" and rest: "at_rest good cmds w" and steady: "steady E d0 allowed cmds w"
    and missing: "front_capture (sh_captures (th_shared w)) t = None"
  shows "io_wp (worker_take_capture E t) (\<lambda>r w'. r = Inr True \<and> at_rest good cmds w' \<and>
    (\<exists>c. front_capture (sh_captures (th_shared w')) t = Some c \<and> read_at E d0 t w' c)) w"
proof -
  let ?Q = "\<lambda>r w'. r = Inr True \<and> at_rest good cmds w' \<and>
      (\<exists>c. front_capture (sh_captures (th_shared w')) t = Some c \<and> read_at E d0 t w' c)"
  have taken: "io_wp (io_then (worker_accept E t raw) (io_return True)) ?Q v"
    if "at_rest good cmds v" "front_capture (sh_captures (th_shared v)) t = None" and "validate_capture raw = Inr ()"
      and "head_after (se_device E) d0 h d" "hd_cylinder h = Some (ta_cylinder t)" "hd_side h = Some (ta_side t)"
      and "dv_read_track (se_device E) (cfg_mode (se_config E)) (cfg_density (se_config E)) (d, []) =
        Some (Inr raw, (wk_device v, log))" for h d raw log v
    using that by (auto simp: worker_accept_def wp_simps at_rest_def front_stored read_at_def)
  obtain w1 where position: "worker_position E t w = Some (Inr (), w1)" and w1: "at_rest good cmds w1"
      "front_capture (sh_captures (th_shared w1)) t = None"
    using rest_position [OF serves rest] missing by (auto simp: io_wp_def)
  from position_acknowledged [OF steady position] obtain h where "head_after (se_device E) d0 h (wk_device w1)"
      "hd_cylinder h = Some (ta_cylinder t)" "hd_side h = Some (ta_side t)" by blast
  note taken = taken [OF _ _ _ this]
  have "io_wp (io_bind (worker_read E t) (\<lambda>r. case r of
               Inl error \<Rightarrow> io_then (io_when (\<not> is_timeout error) (worker_note_error E error)) (io_return False)
             | Inr capture \<Rightarrow> (case validate_capture capture of
                    Inl error \<Rightarrow> io_then (worker_note_error E error) (io_return False)
                  | Inr _ \<Rightarrow> io_then (worker_accept E t capture) (io_return True)))) ?Q w1"
    unfolding wp_bind [of "worker_read E t"]
    by (rule wp_conseq [OF rest_read [OF serves w1(1)]], elim exE conjE)
      (simp only: sum.case, rule taken; simp add: w1(2))
  then show ?thesis
    unfolding worker_take_capture_def by (simp add: io_wp_def io_bind_Some attempt_def position)
qed

lemma rest_capture:
  assumes serves: "serves_track E good t" and rest: "at_rest good cmds w" and steady: "steady E d0 allowed cmds w"
    and missing: "front_capture (sh_captures (th_shared w)) t = None"
    and wish: "wk_wanted w = Some t" "wk_target w = t"
  shows "io_wp (worker_capture E) (\<lambda>r w'. r = Inr True \<and> at_rest good cmds w' \<and>
    (\<exists>c. front_capture (sh_captures (th_shared w')) t = Some c \<and> read_at E d0 t w' c)) w"
proof -
  have "\<not> track_full (sh_captures (th_shared w)) t"
    using missing
    by (auto simp: front_capture_def track_full_def wanted_depth_def back_capture_def CAPTURES_PER_TRACK_def
        split: option.splits list.splits)
  then show ?thesis
    using rest wish rest_take_capture [OF serves rest steady missing]
    by (simp add: worker_capture_def wp_simps at_rest_def ready_def)
qed

lemma rest_pass:
  assumes laws: "host_laws (se_host E) clock cmds evs" and open_queue: "\<forall>d q. fst (h_select (se_host E) d q) \<noteq> SelClosed"
    and serves: "serves_track E good t" and rest: "at_rest good cmds w" and steady: "steady E d0 undisturbed cmds w"
    and missing: "front_capture (sh_captures (th_shared w)) t = None"
    and wish: "sh_desired (th_shared w) = \<lparr>de_motor = None, de_target = Some t, de_wanted = Some t\<rparr>"
  shows "io_wp (worker_pass E hot) (\<lambda>r w1. r = Inr (Some True) \<and>
      (\<exists>c. front_capture (sh_captures (th_shared w1)) t = Some c \<and> read_at E d0 t w1 c)) w"
proof -
  let ?K = "steady E d0 undisturbed cmds"
  let ?J = "\<lambda>v. at_rest good cmds v \<and> ?K v" and ?missing = "\<lambda>v. front_capture (sh_captures (th_shared v)) t = None"
  let ?Q = "\<lambda>r w1. r = Inr (Some True) \<and>
      (\<exists>c. front_capture (sh_captures (th_shared w1)) t = Some c \<and> read_at E d0 t w1 c)"
  have quiet: "\<forall>s. \<not> undisturbed (NoClick s)" by (simp add: undisturbed_def)
  note steady_desired = wp_steady [OF _ steady_steps(3) [OF laws, of d0 undisturbed]]
    and steady_status = wp_steady [OF _ steady_steps(4) [OF laws, of d0 undisturbed]]
    and steady_drained = wp_steady [OF _ steady_drain [OF laws quiet, of d0]]
    and steady_waited = wp_steady [OF _ steady_wait [OF laws quiet, of d0]]
  have alive: "?J v \<Longrightarrow> io_wp (unless_failed m) Q v \<longleftrightarrow> io_wp m Q v" for m Q v
    by (simp add: unless_failed_def wp_simps at_rest_def)
  have alive': "at_rest good cmds v \<Longrightarrow> io_wp (unless_failed m) Q v \<longleftrightarrow> io_wp m Q v" for m Q v
    by (simp add: unless_failed_def wp_simps at_rest_def)
  have capture: "io_wp (unless_failed (io_bind (worker_capture E) (\<lambda>hot. unless_failed (io_return (Some hot))))) ?Q v"
    if "?J v" "?missing v" "wk_wanted v = Some t" "wk_target v = t" for v
    unfolding alive [OF that(1)] wp_bind
    by (rule wp_conseq [OF rest_capture [OF serves _ _ that(2-4), of cmds d0 undisturbed]])
      (use that in \<open>auto simp: alive' wp_basic\<close>)
  have status: "io_wp (unless_failed (io_then (worker_refresh_status E)
      (unless_failed (io_bind (worker_capture E) (\<lambda>hot. unless_failed (io_return (Some hot))))))) ?Q v"
    if "?J v" "?missing v" "wk_wanted v = Some t" "wk_target v = t" for v
    unfolding alive [OF that(1)] wp_bind [of "worker_refresh_status E"]
    by (rule wp_conseq [OF steady_status [OF rest_status [OF laws serves conjunct1 [OF that(1)] that(2)] conjunct2 [OF that(1)]]])
      (elim conjE, simp add: capture that)
  have wishes: "io_wp (io_then (worker_apply_desired E) (unless_failed (io_then (worker_refresh_status E)
      (unless_failed (io_bind (worker_capture E) (\<lambda>hot. unless_failed (io_return (Some hot)))))))) ?Q v"
    if "?J v" "?missing v" "same_wishes w v" for v
  proof -
    have "sh_desired (th_shared v) = \<lparr>de_motor = None, de_target = Some t, de_wanted = Some t\<rparr>"
      using that(3) wish by (simp add: same_wishes_def)
    note desired = steady_desired [OF rest_desired [OF serves conjunct1 [OF that(1)] this] conjunct2 [OF that(1)]]
    show ?thesis
      unfolding wp_bind [of "worker_apply_desired E"]
      by (rule wp_conseq [OF desired]) (elim conjE, simp add: status that)
  qed
  have drained: "io_wp (io_bind (worker_drain E) (\<lambda>stop. if stop then io_return None
      else io_then (worker_apply_desired E) (unless_failed (io_then (worker_refresh_status E)
        (unless_failed (io_bind (worker_capture E) (\<lambda>hot. unless_failed (io_return (Some hot))))))))) ?Q v"
    if "?J v" "?missing v" "same_wishes w v" for v
    unfolding wp_bind [of "worker_drain E"]
    by (rule wp_conseq [OF steady_drained [OF rest_drain [OF laws conjunct1 [OF that(1)]] conjunct2 [OF that(1)]]])
      (use that in \<open>auto simp: same_wishes_def intro: wishes\<close>)
  have waited: "io_wp (if hot then io_return False else worker_wait E) (\<lambda>r v. (r = Inr False \<and> at_rest good cmds v \<and>
      same_wishes w v \<and> sh_captures (th_shared v) = sh_captures (th_shared w)) \<and> ?K v) w"
    using steady_waited [OF rest_wait [OF laws open_queue rest] steady] rest steady by (simp add: wp_basic same_wishes_def)
  show ?thesis
    unfolding worker_pass_def wp_bind [of "if hot then io_return False else worker_wait E"]
    by (rule wp_conseq [OF waited]) (use missing in \<open>auto intro: drained\<close>)
qed

text \<open>
  C11: A read is served. The caller asks for a track that is not in the cache, in a mode that does
  not stall: its question returns nothing, but the next pass of the worker takes the wish and
  captures the track, and the question asked again is answered with that very capture: the words
  and the length that the device's read returned, graded, from a read made when the track was the
  last the device acknowledged. This is for a device that carries out a seek, a side selection, a
  status and a read of the track whenever it is asked, with a disk in and the motor running, for a
  worker that remembers its track rightly and has not given the device up, with no command waiting
  and no wish for the motor, while nothing else happens between the caller's two questions.
\<close>

theorem read_is_served:
  fixes b :: "'q bridge" and w :: "('d, 'q) worker"
  assumes "host_laws (se_host E) clock cmds evs" and "\<forall>d q. fst (h_select (se_host E) d q) \<noteq> SelClosed"
    and "serves_track E good t" and "good (wk_device w)" and "\<not> wk_failed w" and "th_others w = []"
    and "th_others b = []" and "ready (sh_status (th_shared b))" and "cmds (sh_host (th_shared b)) = []"
    and "de_motor (sh_desired (th_shared b)) = None" and "br_stall_timeout b = None"
    and "clamp_track t (br_max_cylinders b) = t" and "front_capture (sh_captures (th_shared b)) t = None"
    and "head_after (se_device E) d0 h (wk_device w)" and "remembers h w"
  shows "\<exists>b1 w1 c b2. bridge_read_track (se_host E) t b = Some (Inr None, b1) \<and>
    worker_pass E hot (w\<lparr>th_shared := th_shared b1\<rparr>) = Some (Inr (Some True), w1) \<and>
    bridge_read_track (se_host E) t (b1\<lparr>th_shared := th_shared w1\<rparr>) = Some (Inr (Some c), b2) \<and>
    read_at E d0 t w1 c"
proof -
  let ?sh = "wish_read t (th_shared b)"
  let ?sh1 = "?sh\<lparr>sh_host := snd (h_nudge (se_host E) (sh_host ?sh))\<rparr>" and ?J = "at_rest good cmds"
  define b1 where "b1 = b\<lparr>th_shared := ?sh1\<rparr>"
  have miss: "bridge_read_track (se_host E) t b = Some (Inr None, b1)"
    using assms(7,11-13)
    by (simp add: b1_def bridge_read_track_def io_bind_def clamp_ok alone_share io_run bridge_nudge_def wish_read_def)
  let ?w = "w\<lparr>th_shared := ?sh1\<rparr>"
  have start: "?J ?w" "steady E d0 undisturbed cmds ?w" "front_capture (sh_captures (th_shared ?w)) t = None"
      "sh_desired (th_shared ?w) = \<lparr>de_motor = None, de_target = Some t, de_wanted = Some t\<rparr>"
    using assms(4-6,8-10,13-15)
    by (auto simp: at_rest_def wish_read_def host_nudge [OF assms(1)] steady_def remembers_def guarded_def)
  have "io_wp (worker_pass E hot) (\<lambda>r w1. r = Inr (Some True) \<and>
      (\<exists>c. front_capture (sh_captures (th_shared w1)) t = Some c \<and> read_at E d0 t w1 c)) ?w"
    by (rule rest_pass [OF assms(1-3) start])
  then obtain w1 c where pass: "worker_pass E hot ?w = Some (Inr (Some True), w1)"
      "front_capture (sh_captures (th_shared w1)) t = Some c" "read_at E d0 t w1 c"
    by (auto simp: io_wp_def)
  have "\<exists>b2. bridge_read_track (se_host E) t (b1\<lparr>th_shared := th_shared w1\<rparr>) = Some (Inr (Some c), b2)"
    using assms(7,12) pass(2)
    by (simp add: b1_def bridge_read_track_def io_bind_def clamp_ok alone_share io_run wish_read_def)
  then show ?thesis using miss pass by (auto simp: b1_def)
qed

theorem read_is_served_witness:
  "\<exists>b1 w1 c b2. bridge_read_track sim_host track_default
       (bridge_initial (config_default demo_features) spinning (PortId ''fake'')
          (shared_initial sim_host spinning no_channels) []) = Some (Inr None, b1) \<and>
     worker_pass (fake_setting demo_features Compatible) False
       ((fake_start demo_features [])\<lparr>th_shared := th_shared b1\<rparr>) = Some (Inr (Some True), w1) \<and>
     bridge_read_track sim_host track_default (b1\<lparr>th_shared := th_shared w1\<rparr>) = Some (Inr (Some c), b2) \<and>
     read_at (fake_setting demo_features Compatible) spinning track_default w1 c"
proof -
  let ?E = "fake_setting demo_features Compatible"
  let ?b = "bridge_initial (config_default demo_features) spinning (PortId ''fake'')
          (shared_initial sim_host spinning no_channels) []"
  have fields: "se_device ?E = fake_device" "se_host ?E = sim_host" "cfg_mode (se_config ?E) = Compatible"
    by (simp_all add: fake_setting_def)
  have "serves_track ?E (\<lambda>d. ready d \<and> 0 < ds_max_cylinders d) track_default"
    by (simp add: serves_track_def fields fake_device_def wp_simps ready_def track_default_def validate_capture_def
        MAX_TRACK_BITS_def id_def)
  moreover have "host_laws (se_host ?E) ch_now ch_cmds ch_evs" unfolding fields by (rule sim_laws)
  moreover have "\<forall>d q. fst (h_select (se_host ?E) d q) \<noteq> SelClosed"
    unfolding fields by (simp add: sim_host_def split: list.split)
  moreover have "ready (wk_device (fake_start demo_features [])) \<and> 0 < ds_max_cylinders (wk_device (fake_start demo_features []))"
      "\<not> wk_failed (fake_start demo_features [])" "th_others (fake_start demo_features []) = []"
      "wk_device (fake_start demo_features []) = spinning" "remembers head_unknown (fake_start demo_features [])"
    by (simp_all add: remembers_def worker_new_def on_host_def Let_def split_def ready_def spinning_def drive_status_default_def)
  moreover have "th_others ?b = []" "ready (sh_status (th_shared ?b))" "ch_cmds (sh_host (th_shared ?b)) = []"
      "de_motor (sh_desired (th_shared ?b)) = None" "br_stall_timeout ?b = None"
      "clamp_track track_default (br_max_cylinders ?b) = track_default"
      "front_capture (sh_captures (th_shared ?b)) track_default = None"
    by (simp_all add: bridge_initial_def shared_initial_def ready_def spinning_def drive_status_default_def
        no_channels_def sim_host_def desired_default_def front_capture_def clamp_track_def track_default_def
        config_default_def)
  moreover have "head_after (se_device ?E) spinning head_unknown spinning" by (rule head_after.opened)
  ultimately show ?thesis
    using read_is_served [of ?E ch_now ch_cmds ch_evs _ _ "fake_start demo_features []" ?b spinning head_unknown False]
    unfolding fields by simp
qed

end
