(* ===== verification/Device_Open.thy ===== *)
theory Device_Open
  imports DrawBridge_Wire Greaseweazle_Device SuperCard_Device
begin

text \<open>
  Opening a device (\<^verbatim>\<open>open\<close> of \<^verbatim>\<open>src/device/mod.rs\<close>): the
  backends behind one interface, and the search for a port on which one of them answers.
\<close>

section \<open>A device of any backend\<close>

text \<open>The values of \<^verbatim>\<open>Box<dyn Device>\<close>, each with the port it talks to.\<close>

datatype 'w any_device =
    AnyDrawBridge "'w transport" "'w drawbridge"
  | AnyGreaseweazle "'w transport" "'w greaseweazle"
  | AnySuperCard "'w transport" "'w supercard"

text \<open>A call goes to the backend's operation.\<close>

definition dispatch ::
  "('w transport \<Rightarrow> ('w drawbridge, 'a) io) \<Rightarrow> ('w transport \<Rightarrow> ('w greaseweazle, 'a) io) \<Rightarrow>
     ('w transport \<Rightarrow> ('w supercard, 'a) io) \<Rightarrow> ('w any_device, 'a) io" where
  "dispatch db gw scp d =
     (case d of
        AnyDrawBridge T x \<Rightarrow> map_option (map_prod id (AnyDrawBridge T)) (db T x)
      | AnyGreaseweazle T x \<Rightarrow> map_option (map_prod id (AnyGreaseweazle T)) (gw T x)
      | AnySuperCard T x \<Rightarrow> map_option (map_prod id (AnySuperCard T)) (scp T x))"

definition dispatch_read ::
  "read_mode \<Rightarrow> density_mode \<Rightarrow> ('w any_device \<times> progress_log, raw_capture) io" where
  "dispatch_read mode density s =
     (let log = snd s in
      case fst s of
        AnyDrawBridge T x \<Rightarrow> map_option (map_prod id (map_prod (AnyDrawBridge T) id)) (dv_read_track (db_device T) mode density (x, log))
      | AnyGreaseweazle T x \<Rightarrow> map_option (map_prod id (map_prod (AnyGreaseweazle T) id)) (dv_read_track (gw_device T) mode density (x, log))
      | AnySuperCard T x \<Rightarrow> map_option (map_prod id (map_prod (AnySuperCard T) id)) (dv_read_track (scp_device T) mode density (x, log)))"

definition dyn_device :: "'w any_device device" where
  "dyn_device =
     \<lparr>dv_selected_port = (\<lambda>d. case d of AnyDrawBridge T x \<Rightarrow> db_port x | AnyGreaseweazle T x \<Rightarrow> gw_port x
        | AnySuperCard T x \<Rightarrow> sc_port x),
      dv_status = dispatch (\<lambda>T. dv_status (db_device T)) (\<lambda>T. dv_status (gw_device T)) (\<lambda>T. dv_status (scp_device T)),
      dv_set_motor = (\<lambda>enabled quick. dispatch (\<lambda>T. dv_set_motor (db_device T) enabled quick)
        (\<lambda>T. dv_set_motor (gw_device T) enabled quick) (\<lambda>T. dv_set_motor (scp_device T) enabled quick)),
      dv_seek = (\<lambda>c. dispatch (\<lambda>T. dv_seek (db_device T) c) (\<lambda>T. dv_seek (gw_device T) c) (\<lambda>T. dv_seek (scp_device T) c)),
      dv_select_side = (\<lambda>s. dispatch (\<lambda>T. dv_select_side (db_device T) s) (\<lambda>T. dv_select_side (gw_device T) s)
        (\<lambda>T. dv_select_side (scp_device T) s)),
      dv_no_click_step = dispatch (\<lambda>T. dv_no_click_step (db_device T)) (\<lambda>T. dv_no_click_step (gw_device T))
        (\<lambda>T. dv_no_click_step (scp_device T)),
      dv_read_track = dispatch_read,
      dv_write_track = (\<lambda>words bit_len from_index density. dispatch
        (\<lambda>T. dv_write_track (db_device T) words bit_len from_index density)
        (\<lambda>T. dv_write_track (gw_device T) words bit_len from_index density)
        (\<lambda>T. dv_write_track (scp_device T) words bit_len from_index density))\<rparr>"

text \<open>What dropping the box leaves of the world.\<close>

definition any_drop :: "'w any_device \<Rightarrow> 'w option" where
  "any_drop d =
     (case d of
        AnyDrawBridge T x \<Rightarrow> map_option (\<lambda>(_, x). db_world x) (db_drop T x)
      | AnyGreaseweazle T x \<Rightarrow> map_option (\<lambda>(_, x). gw_world x) (gw_drop T x)
      | AnySuperCard T x \<Rightarrow> map_option (\<lambda>(_, x). sc_world x) (scp_drop T x))"

section \<open>The search\<close>

definition not_compiled :: "driver_kind \<Rightarrow> error" where
  "not_compiled driver = InvalidConfig (driver_str driver @ '' support is not compiled in'')"

definition open_driver ::
  "features \<Rightarrow> 'w port_lib \<Rightarrow> bridge_config \<Rightarrow> port_id \<Rightarrow> ('w, 'w any_device) io" where
  "open_driver feats L config port =
     (case cfg_driver config of
        DrawBridge \<Rightarrow>
          if feat_drawbridge feats
          then io_bind (db_open feats L port config) (\<lambda>(T, d). io_return (AnyDrawBridge T d))
          else io_throw (not_compiled DrawBridge)
      | Greaseweazle \<Rightarrow>
          if feat_greaseweazle feats
          then io_bind (gw_open feats L port config) (\<lambda>(T, d). io_return (AnyGreaseweazle T d))
          else io_throw (not_compiled Greaseweazle)
      | SuperCardPro \<Rightarrow>
          if feat_supercard_pro feats
          then io_bind (scp_open feats L port config) (\<lambda>(T, d). io_return (AnySuperCard T d))
          else io_throw (not_compiled SuperCardPro))"

definition is_exact :: "port_selection \<Rightarrow> bool" where
  "is_exact selection = (case selection of Exact _ \<Rightarrow> True | Auto \<Rightarrow> False)"

fun open_first ::
  "features \<Rightarrow> 'w port_lib \<Rightarrow> bridge_config \<Rightarrow> port_info list \<Rightarrow> error option \<Rightarrow> ('w, 'w any_device) io" where
  "open_first feats L config [] last_error =
     io_throw (case last_error of
        None \<Rightarrow> PortNotFound (''no '' @ driver_str (cfg_driver config) @ '' interface responded'')
      | Some error \<Rightarrow> error)"
| "open_first feats L config (port # ports) last_error =
     io_bind (attempt (open_driver feats L config (pi_id port))) (\<lambda>opened.
       case opened of
         Inr device \<Rightarrow> io_return device
       | Inl error \<Rightarrow>
           if is_exact (cfg_port config) then io_throw error
           else open_first feats L config ports (Some error))"

definition device_open :: "features \<Rightarrow> 'w port_lib \<Rightarrow> bridge_config \<Rightarrow> ('w, 'w any_device) io" where
  "device_open feats L config =
     io_then (io_result (validate_config feats config))
      (io_bind (candidates feats L config) (\<lambda>ports.
        if ports = []
        then io_throw (PortNotFound (''no candidate ports are visible for '' @ driver_str (cfg_driver config)))
        else open_first feats L config ports None))"

section \<open>The contract of any backend\<close>

definition any_cylinder :: "'w any_device \<Rightarrow> u8" where
  "any_cylinder d = (case d of AnyDrawBridge T x \<Rightarrow> db_cylinder x | AnyGreaseweazle T x \<Rightarrow> gw_cylinder x
     | AnySuperCard T x \<Rightarrow> scp_cylinder x)"

definition any_side :: "'w any_device \<Rightarrow> side" where
  "any_side d = (case d of AnyDrawBridge T x \<Rightarrow> db_side x | AnyGreaseweazle T x \<Rightarrow> gw_side x
     | AnySuperCard T x \<Rightarrow> scp_side x)"

definition any_limit :: "'w any_device \<Rightarrow> u8" where
  "any_limit d = (case d of AnyDrawBridge T x \<Rightarrow> db_limit x | AnyGreaseweazle T x \<Rightarrow> gw_limit x
     | AnySuperCard T x \<Rightarrow> scp_limit x)"

lemmas any_position_defs = any_cylinder_def any_side_def any_limit_def

lemma dispatch_Some:
  "dispatch db gw scp d = Some (r, d') \<longleftrightarrow>
     (case d of
        AnyDrawBridge T x \<Rightarrow> \<exists>x'. db T x = Some (r, x') \<and> d' = AnyDrawBridge T x'
      | AnyGreaseweazle T x \<Rightarrow> \<exists>x'. gw T x = Some (r, x') \<and> d' = AnyGreaseweazle T x'
      | AnySuperCard T x \<Rightarrow> \<exists>x'. scp T x = Some (r, x') \<and> d' = AnySuperCard T x')"
  by (auto simp: dispatch_def split: any_device.split)

lemma dispatch_read_Some:
  "dispatch_read mode density (d, log) = Some (r, (d', log')) \<longleftrightarrow>
     (case d of
        AnyDrawBridge T x \<Rightarrow> \<exists>x'. dv_read_track (db_device T) mode density (x, log) = Some (r, (x', log')) \<and> d' = AnyDrawBridge T x'
      | AnyGreaseweazle T x \<Rightarrow> \<exists>x'. dv_read_track (gw_device T) mode density (x, log) = Some (r, (x', log')) \<and> d' = AnyGreaseweazle T x'
      | AnySuperCard T x \<Rightarrow> \<exists>x'. dv_read_track (scp_device T) mode density (x, log) = Some (r, (x', log')) \<and> d' = AnySuperCard T x')"
  by (auto simp: dispatch_read_def split: any_device.split)

lemma keeps_dispatch:
  assumes "\<And>T. keeps (\<lambda>x. f (AnyDrawBridge T x)) (db T)" and "\<And>T. keeps (\<lambda>x. f (AnyGreaseweazle T x)) (gw T)"
    and "\<And>T. keeps (\<lambda>x. f (AnySuperCard T x)) (scp T)"
  shows "keeps f (dispatch db gw scp)"
  using assms by (auto simp: keeps_def dispatch_Some split: any_device.splits)

interpretation any: device_contract dyn_device any_cylinder any_side any_limit
proof (unfold_locales, goal_cases)
  case (1 c d d')
  then show ?case
    using drawbridge.seek_reaches greaseweazle.seek_reaches supercard.seek_reaches
    by (fastforce simp: dyn_device_def dispatch_Some any_position_defs split: any_device.splits)
next
  case (2 c d r d')
  then show ?case
    using drawbridge.seek_bounded greaseweazle.seek_bounded supercard.seek_bounded
    by (fastforce simp: dyn_device_def dispatch_Some any_position_defs split: any_device.splits)
next
  case (5 s d d')
  then show ?case
    using drawbridge.side_reaches greaseweazle.side_reaches supercard.side_reaches
    by (fastforce simp: dyn_device_def dispatch_Some any_position_defs split: any_device.splits)
next
  case (11 mode density)
  show ?case
    using drawbridge.others_frame(4) greaseweazle.others_frame(4) supercard.others_frame(4)
    by (fastforce simp: keeps_def dyn_device_def dispatch_read_Some any_position_defs split: any_device.splits)
next
  case (13 mode density dl capture dl')
  then show ?case
    using drawbridge.capture_valid greaseweazle.capture_valid supercard.capture_valid
    by (cases dl; cases dl') (fastforce simp: dyn_device_def dispatch_read_Some split: any_device.splits)
qed (simp_all add: dyn_device_def any_position_defs keeps_dispatch
    drawbridge.seek_keeps greaseweazle.seek_keeps supercard.seek_keeps
    drawbridge.side_keeps greaseweazle.side_keeps supercard.side_keeps
    drawbridge.others_keep greaseweazle.others_keep supercard.others_keep)


section \<open>An open device\<close>

lemma construct_ok:
  assumes "construct initial world prepare cleanup w = Some (Inr d, w')"
  shows "prepare (initial w) = Some (Inr (), d)"
  using assms by (auto simp: construct_def split: option.splits sum.splits prod.splits)

text \<open>The constructors record the port and the limit, and leave the head on cylinder zero.\<close>

lemma keeps_db_port_parts:
  "keeps db_port (db_link m)" "keeps db_port (db_set_status f)"
  by (auto simp: keeps_def db_link_def io_zoom_returns_iff db_set_status_def io_run)

lemma db_opens:
  assumes "db_open feats L port config w = Some (Inr (T, d), w')"
  shows "db_port d = port \<and> db_cylinder d = 0 \<and> db_limit d = 84"
proof -
  obtain fw full T' w1 where "construct (db_initial port config fw full) db_world (db_setup T' fw) (db_drop T') w1 =
      Some (Inr d, w')"
    using assms unfolding db_open_def Let_def split_def
    by (elim io_bind_okE) (auto simp: io_bind_ok_iff io_run simp del: less_prod_simp split: if_splits)
  from construct_ok [OF this]
  have ran: "db_setup T' fw (db_initial port config fw full w1) = Some (Inr (), d)" .
  have "keeps db_port (db_setup T' fw)"
    unfolding db_setup_def db_expect_command_def db_send_def db_read_byte_def db_check_disk_def Let_def split_def
    by (intro keeps_intros keeps_db_port_parts) simp_all
  with ran have "db_port d = port" by (auto simp: keeps_def db_initial_def)
  then show ?thesis using db_open_ok [OF assms] by simp
qed

lemma gw_opens:
  assumes "gw_open feats L port config w = Some (Inr (T, d), w')"
  shows "gw_port d = port \<and> gw_cylinder d = 0 \<and> gw_limit d = 82"
proof -
  obtain T' w1 where "construct (gw_initial port config) gw_world (gw_setup T') (gw_drop T') w1 = Some (Inr d, w')"
    using assms unfolding gw_open_def by (elim io_bind_okE) (auto simp: io_bind_ok_iff io_run)
  from construct_ok [OF this] have ran: "gw_setup T' (gw_initial port config w1) = Some (Inr (), d)" .
  let ?f = "\<lambda>d. (gw_pos d, gw_port d)"
  have frame: "keeps gw_frame m \<Longrightarrow> keeps ?f m" for m :: "('a greaseweazle, 'b) io"
    by (erule keeps_proj [where h = "\<lambda>x. (fst x, fst (snd x))"]) (simp add: gw_frame_def gw_pos_def gw_fixed_def)
  have link: "keeps ?f (gw_link m)" for m :: "('a, 'b) io" by (rule frame) (rule keeps_gw_link)
  have "keeps ?f (gw_setup T')"
    unfolding gw_setup_def gw_prepare_transport_def gw_get_firmware_def gw_set_status_def
    by (intro keeps_intros link frame [OF keeps_gw_commands(1)] frame [OF keeps_gw_commands(2)]
        frame [OF keeps_gw_commands(3)] frame [OF keeps_gw_parts(1)] frame [OF keeps_gw_check_pins])
      (simp_all add: gw_pos_def)
  with ran show ?thesis
    by (auto simp: keeps_def gw_initial_def gw_pos_def gw_position_defs drive_status_default_def)
qed

lemma keeps_scp_port_parts:
  "keeps sc_port (scp_link m)" "keeps sc_port (scp_set_status f)"
  by (auto simp: keeps_def scp_link_def io_zoom_returns_iff scp_set_status_def io_run)

lemma scp_opens:
  assumes "scp_open feats L port config w = Some (Inr (T, d), w')"
  shows "sc_port d = port \<and> scp_cylinder d = 0 \<and> scp_limit d = 84"
proof -
  obtain drive_a T' w1 where "construct (scp_initial port config drive_a) sc_world (scp_setup T') (scp_drop T') w1 =
      Some (Inr d, w')"
    using assms unfolding scp_open_def by (elim io_bind_okE) (auto simp: io_bind_ok_iff io_run)
  from construct_ok [OF this] have ran: "scp_setup T' (scp_initial port config drive_a w1) = Some (Inr (), d)" .
  let ?P = "\<lambda>d. scp_cylinder d = 0 \<and> scp_limit d = 84 \<and> sc_port d = port"
  have frame: "leads ?P m ?P" if "keeps scp_pos m" and "keeps sc_port m" for m :: "('a supercard, 'b) io"
    using that by (simp add: leads_def keeps_def scp_pos_def scp_position_defs)
  have keeps_port: "keeps sc_port (scp_run_command T' c ps extra)" "keeps sc_port (scp_expect_ok T' c ps)"
    "keeps sc_port (scp_check_pins T')" for c ps extra
    unfolding scp_expect_ok_def scp_run_command_def scp_raw_command_def scp_check_pins_def
      scp_select_def Let_def
    by ((intro keeps_intros keeps_scp_port_parts; simp))+
  have "leads ?P (scp_setup T') ?P"
    unfolding scp_setup_def
    by (intro leads_intros frame [OF keeps_scp_link keeps_scp_port_parts(1)]
        frame [OF keeps_scp_commands(2) keeps_port(1)] frame [OF keeps_scp_commands(3) keeps_port(2)]
        frame [OF keeps_scp_check_pins keeps_port(3)])
      (auto simp: leads_def scp_set_status_def io_run scp_position_defs)
  from leadsD [OF this _ ran] show ?thesis
    by (simp add: scp_initial_def scp_position_defs drive_status_default_def)
qed

text \<open>What the search finds: one of the ports, opened by the backend of the configuration.\<close>

definition any_driver :: "'w any_device \<Rightarrow> driver_kind" where
  "any_driver d = (case d of AnyDrawBridge T x \<Rightarrow> DrawBridge | AnyGreaseweazle T x \<Rightarrow> Greaseweazle
     | AnySuperCard T x \<Rightarrow> SuperCardPro)"

lemma driver_opens:
  assumes "open_driver feats L config port w = Some (Inr d, w')"
  shows "dv_selected_port dyn_device d = port \<and> any_driver d = cfg_driver config \<and>
    any_cylinder d = 0 \<and> any_limit d = (if cfg_driver config = Greaseweazle then 82 else 84)"
  using assms
  by (auto simp: open_driver_def io_bind_ok_iff io_run dyn_device_def any_driver_def any_position_defs
      dest!: db_opens gw_opens scp_opens split: driver_kind.splits if_splits)

lemma search_finds:
  assumes "open_first feats L config ports seen w = Some (Inr d, w')"
  shows "\<exists>port \<in> set ports. \<exists>w1 w2. open_driver feats L config (pi_id port) w1 = Some (Inr d, w2)"
  using assms
proof (induction ports arbitrary: seen w)
  case (Cons port ports)
  then obtain opened w1 where "attempt (open_driver feats L config (pi_id port)) w = Some (Inr opened, w1)"
    "(case opened of Inr device \<Rightarrow> io_return device | Inl error \<Rightarrow>
        if is_exact (cfg_port config) then io_throw error
        else open_first feats L config ports (Some error)) w1 = Some (Inr d, w')"
    by (auto simp: io_bind_ok_iff)
  then show ?case
    using Cons.IH by (cases opened) (auto simp: attempt_def io_run split: option.splits if_splits)
qed (simp add: io_run)

end
