(* ===== verification/Controller_Open.thy ===== *)
theory Controller_Open
  imports Controller_Demo Device_Open
begin

text \<open>
  Opening a bridge: the search for the device, its first status, the start of the worker
  (\<^verbatim>\<open>Bridge::open\<close> and \<^verbatim>\<open>from_device\<close> of
  \<^verbatim>\<open>src/controller.rs\<close>), and what the worker then does with the device.
\<close>

section \<open>Opening\<close>

definition any_world :: "'w any_device \<Rightarrow> 'w" where
  "any_world d = (case d of AnyDrawBridge T x \<Rightarrow> db_world x | AnyGreaseweazle T x \<Rightarrow> gw_world x
     | AnySuperCard T x \<Rightarrow> sc_world x)"

text \<open>The first status; its failure drops the device.\<close>

definition first_status :: "'w any_device \<Rightarrow> ('w, drive_status \<times> 'w any_device) io" where
  "first_status d w =
     (case dv_status dyn_device d of
        None \<Rightarrow> None
      | Some (Inr status, d) \<Rightarrow> Some (Inr (status, d), any_world d)
      | Some (Inl error, d) \<Rightarrow> map_option (Pair (Inl error)) (any_drop d))"

text \<open>
  An open bridge, and the device its worker owns. The channels start from \<open>q\<close>; the sections
  the worker runs between those of the caller are \<open>others\<close>.
\<close>

definition bridge_open ::
  "features \<Rightarrow> 'w port_lib \<Rightarrow> 'q host \<Rightarrow> bridge_config \<Rightarrow> 'q \<Rightarrow> ('q shared \<Rightarrow> 'q shared) list \<Rightarrow>
     ('w, 'q bridge \<times> 'w any_device) io" where
  "bridge_open feats L H config q others =
     io_bind (device_open feats L config) (\<lambda>device.
       let selected_port = dv_selected_port dyn_device device in
       io_bind (first_status device) (\<lambda>(status, device).
         io_return (bridge_initial config status selected_port (shared_initial H status q) others, device)))"

definition bridge_selected_port :: "'q bridge \<Rightarrow> port_id" where
  "bridge_selected_port b = br_selected_port b"

section \<open>The worker moves the device only by calls\<close>

text \<open>What any run of calls on the device keeps, the worker keeps.\<close>

definition stays :: "('d \<Rightarrow> bool) \<Rightarrow> ('d, 'q) worker \<Rightarrow> bool" where
  "stays P w \<longleftrightarrow> P (wk_device w)"

lemma stays_sections [leads_intros]:
  "leads (stays P) (share act) (stays P)"
  "(\<And>w. wk_device (g w) = wk_device w) \<Longrightarrow> leads (stays P) (io_modify g) (stays P)"
  "leads (stays P) (starts_at_index checks start_bit track_bits) (stays P)"
  unfolding starts_at_index_def
  by ((rule leads_share leads_modify | intro leads_intros); simp add: stays_def)+

locale device_invariant =
  fixes D :: "'d device" and P :: "'d \<Rightarrow> bool"
  assumes step_keeps: "device_step D d d' \<Longrightarrow> P d \<Longrightarrow> P d'"
begin

lemma stays_calls:
  "leads (stays P) (call_device (dv_status D)) (stays P)"
  "leads (stays P) (call_device (dv_set_motor D enabled quick)) (stays P)"
  "leads (stays P) (call_device (dv_seek D c)) (stays P)"
  "leads (stays P) (call_device (dv_select_side D s)) (stays P)"
  "leads (stays P) (call_device (dv_write_track D words bit_len from_index density)) (stays P)"
  by (rule leads_call; unfold stays_def; simp; erule step_keeps [rotated]; rule device_step.intros; assumption)+

lemma stays_no_click: "leads (stays P) (call_device (io_then (dv_select_side D s) (dv_no_click_step D))) (stays P)"
proof (rule leads_call)
  fix w :: "('d, 'a) worker" and r d
  assume P: "stays P w" and "io_then (dv_select_side D s) (dv_no_click_step D) (wk_device w) = Some (r, d)"
  then consider e where "dv_select_side D s (wk_device w) = Some (Inl e, d)"
    | d1 where "dv_select_side D s (wk_device w) = Some (Inr (), d1)" "dv_no_click_step D d1 = Some (r, d)"
    by (auto simp: io_bind_returns_iff)
  then have "P d"
  proof cases
    case 1
    then show ?thesis using P step_keeps [OF device_step.side] by (simp add: stays_def)
  next
    case 2
    then have "P d1" using P step_keeps [OF device_step.side] by (simp add: stays_def)
    then show ?thesis using step_keeps [OF device_step.no_click [OF 2(2)]] by simp
  qed
  then show "stays P (w\<lparr>wk_device := d\<rparr>)" by (simp add: stays_def)
qed

lemma stays_steps:
  assumes "se_device E = D"
  shows "leads (stays P) (worker_note_error F error) (stays P)"
    and "leads (stays P) (worker_position E track) (stays P)"
    and "leads (stays P) (send_event F event) (stays P)"
  unfolding worker_note_error_def worker_disconnect_def send_event_def worker_position_def worker_move_def
    worker_confirm_def split_def assms
  by (intro leads_intros stays_calls; simp)+

lemma stays_process: "se_device E = D \<Longrightarrow> leads (stays P) (worker_process E command) (stays P)"
  unfolding worker_process_def worker_perform_write_def worker_place_write_def
  by (cases command; simp only: bridge_command.case; intro leads_intros stays_calls stays_no_click stays_steps; simp)

lemma stays_publish: "leads (stays P) (publish_all track log) (stays P)"
proof (induction track log rule: publish_all.induct)
  case (2 track words bit_len log)
  then show ?case unfolding publish_all.simps by (intro leads_intros)
qed (simp add: leads_basic)

lemma stays_read: "se_device E = D \<Longrightarrow> leads (stays P) (worker_read E wanted) (stays P)"
proof -
  assume "se_device E = D"
  then have "leads (stays P) (call_read E) (stays P)"
    using step_keeps [OF device_step.read]
    by (auto simp: leads_def call_read_def stays_def split: option.splits)
  then show ?thesis unfolding worker_read_def split_def by (intro leads_intros stays_publish)
qed

lemma stays_desired:
  assumes "se_device E = D"
  shows "leads (stays P) (worker_apply_desired E) (stays P)" and "leads (stays P) (worker_refresh_status E) (stays P)"
  unfolding worker_apply_desired_def worker_apply_motor_def worker_quick_def worker_refresh_status_def Let_def assms
  by (intro leads_intros stays_calls stays_steps [OF assms]; simp)+

lemma stays_drain:
  assumes "se_device E = D"
  shows "leads (stays P) (worker_drain E) (stays P)"
proof -
  have loops: "se_device E = D \<longrightarrow> stays P w \<longrightarrow> stays P (snd y)" if "worker_drain E w = Some y" for E w y
  proof (rule worker_drain.raw_induct [where P = "\<lambda>E w y. se_device E = D \<longrightarrow> stays P w \<longrightarrow> stays P (snd y)", OF _ that],
      intro impI, goal_cases)
    case (1 loop F w y)
    have "leads (stays P) (loop F) (stays P)" using 1(1,3) by (fastforce simp: leads_def)
    then have "leads (stays P) (\<lambda>w. io_bind (share (on_host (h_try_recv (se_host F)))) (\<lambda>command w.
       case command of
         None \<Rightarrow> io_return False w
       | Some command \<Rightarrow>
           io_bind (worker_process F command) (\<lambda>stop w.
             if stop then io_return True w else loop F w) w) w) (stays P)"
      by (intro leads_intros stays_process 1)
    from leadsD [OF this, of w "fst y" "snd y"] show ?case using 1(2,4) by simp
  qed
  show ?thesis
    unfolding leads_def using loops assms by (metis snd_conv)
qed

lemma stays_wait:
  assumes "se_device E = D"
  shows "leads (stays P) (worker_wait E) (stays P)"
  unfolding worker_wait_def
proof (intro leads_intros)
  fix selected
  show "leads (stays P) (case selected of SelCommand command \<Rightarrow> worker_process E command
       | SelClosed \<Rightarrow> io_return True | SelNudge \<Rightarrow> io_return False | SelTimeout \<Rightarrow> io_return False) (stays P)"
    by (cases selected) (auto intro: leads_intros stays_process [OF assms])
qed

lemma stays_capture:
  assumes "se_device E = D"
  shows "leads (stays P) (worker_capture E) (stays P)"
  unfolding worker_capture_def worker_take_capture_def worker_accept_def split_def
  by (intro leads_intros stays_steps [OF assms] stays_read assms; simp)

lemma stays_pass:
  assumes "se_device E = D"
  shows "leads (stays P) (worker_pass E hot) (stays P)"
  unfolding worker_pass_def unless_failed_def
  by (intro leads_intros stays_wait stays_drain stays_desired stays_capture assms)

lemma stays_reached:
  "worker_reaches E w0 n w hot \<Longrightarrow> se_device E = D \<Longrightarrow> P (wk_device w0) \<Longrightarrow> P (wk_device w)"
proof (induction rule: worker_reaches.induct)
  case (pass n w hot hot' w')
  from leadsD [OF stays_pass [OF pass.prems(1)], of w hot, OF _ pass.hyps(2)] pass show ?case
    by (simp add: stays_def)
qed

end

section \<open>The drive behind an open bridge\<close>

definition on_drive :: "u8 \<Rightarrow> driver_kind \<Rightarrow> 'w any_device \<Rightarrow> bool" where
  "on_drive cylinders driver d \<longleftrightarrow>
     any_cylinder d < any_limit d \<and> any_limit d = cylinders \<and> any_driver d = driver"

lemma driver_kept: "device_step dyn_device d d' \<Longrightarrow> any_driver d' = any_driver d"
  by (cases rule: device_step.cases, assumption)
    (auto simp: dyn_device_def dispatch_Some dispatch_read_Some any_driver_def split: any_device.splits)

interpretation drive: device_invariant dyn_device "on_drive cylinders driver" for cylinders driver
  by unfold_locales (auto simp: on_drive_def driver_kept dest: any.step_in_range any.step_limit)

lemma status_reports:
  assumes "dv_status dyn_device d = Some (Inr status, d')"
  shows "ds_max_cylinders status = any_limit d'"
  using assms
  by (auto simp: dyn_device_def dispatch_Some any_position_defs db_device_def gw_device_def scp_device_def
      db_get_status_def gw_get_status_def scp_get_status_def db_limit_def gw_limit_def
      scp_limit_def io_bind_ok_iff io_run split: any_device.splits)

lemma first_status_ok:
  "first_status d w = Some (Inr (status, d'), w') \<longleftrightarrow>
     dv_status dyn_device d = Some (Inr status, d') \<and> w' = any_world d'"
  by (auto simp: first_status_def split: option.splits prod.splits sum.splits)

lemma device_opens:
  assumes "device_open feats L config w = Some (Inr d, w')"
  shows "on_drive (if cfg_driver config = Greaseweazle then 82 else 84) (cfg_driver config) d"
    and "\<exists>ports w2. validate_config feats config = Inr () \<and> candidates feats L config w = Some (Inr ports, w2) \<and>
      dv_selected_port dyn_device d \<in> pi_id ` set ports"
proof -
  obtain ports w2 where ports: "validate_config feats config = Inr ()"
    "candidates feats L config w = Some (Inr ports, w2)" "open_first feats L config ports None w2 = Some (Inr d, w')"
    using assms by (auto simp: device_open_def io_bind_ok_iff io_run split: if_splits)
  from search_finds [OF this(3)] obtain port w3 w4 where port: "port \<in> set ports"
    "open_driver feats L config (pi_id port) w3 = Some (Inr d, w4)" by blast
  note opened = driver_opens [OF this(2)]
  then show "on_drive (if cfg_driver config = Greaseweazle then 82 else 84) (cfg_driver config) d"
    by (auto simp: on_drive_def)
  from opened ports(1,2) port(1) show "\<exists>ports w2. validate_config feats config = Inr () \<and>
      candidates feats L config w = Some (Inr ports, w2) \<and> dv_selected_port dyn_device d \<in> pi_id ` set ports"
    by blast
qed

text \<open>
  C7: A bridge that opened runs on one of the candidate ports of a valid configuration, on the
  configured port when there is one, with the configured driver. From then on, whatever the
  caller's thread does between the sections of the worker, at the end of every pass of the worker
  the head of the drive is on one of the cylinders the bridge clamps its tracks to, so that no
  track a method of the bridge asks for is off the drive: 82 cylinders for a Greaseweazle, 84 for
  the other two.
\<close>

theorem open_bridge_on_drive:
  assumes "bridge_open feats L H config q mine w = Some (Inr (b, d), w')"
    and "worker_reaches E (worker_new E d (th_shared b) others) n wk hot" and "se_device E = dyn_device"
  shows "\<exists>ports w1. validate_config feats config = Inr () \<and> candidates feats L config w = Some (Inr ports, w1) \<and>
      bridge_selected_port b \<in> pi_id ` set ports \<and>
      (\<forall>port. cfg_port config = Exact port \<longrightarrow> bridge_selected_port b = port) \<and>
      any_driver (wk_device wk) = cfg_driver config \<and>
      br_max_cylinders b = (if cfg_driver config = Greaseweazle then 82 else 84) \<and>
      any_limit (wk_device wk) = br_max_cylinders b \<and> any_cylinder (wk_device wk) < br_max_cylinders b \<and>
      ta_cylinder (clamp_track track (br_max_cylinders b)) < any_limit (wk_device wk)"
proof -
  let ?n = "if cfg_driver config = Greaseweazle then 82 else 84 :: u8"
  obtain d0 w1 status where d0: "device_open feats L config w = Some (Inr d0, w1)"
    "dv_status dyn_device d0 = Some (Inr status, d)"
    "b = bridge_initial config status (dv_selected_port dyn_device d0) (shared_initial H status q) mine"
    using assms(1)
    by (auto simp: bridge_open_def Let_def io_bind_ok_iff io_run first_status_ok split_def)
  have d: "on_drive ?n (cfg_driver config) d"
    using drive.step_keeps [OF device_step.status [OF d0(2)] device_opens(1) [OF d0(1)]] .
  moreover have "wk_device (worker_new E d (th_shared b) others) = d" by (simp add: worker_new_def Let_def split_def)
  ultimately have "on_drive ?n (cfg_driver config) (wk_device wk)"
    using drive.stays_reached [OF assms(2,3)] by simp
  moreover have limit: "br_max_cylinders b = ?n"
    using d d0(3) status_reports [OF d0(2)] by (simp add: bridge_initial_def on_drive_def)
  moreover have "ta_cylinder (clamp_track track (br_max_cylinders b)) < br_max_cylinders b"
    by (rule clamp_track_less) (simp add: limit)
  moreover obtain ports w2 where "validate_config feats config = Inr ()" "candidates feats L config w = Some (Inr ports, w2)"
    "dv_selected_port dyn_device d0 \<in> pi_id ` set ports" using device_opens(2) [OF d0(1)] by blast
  moreover have "bridge_selected_port b = dv_selected_port dyn_device d0"
    using d0(3) by (simp add: bridge_selected_port_def bridge_initial_def)
  ultimately show ?thesis by (auto simp: on_drive_def candidates_def io_run)
qed

text \<open>A DrawBridge of firmware 1.8 that answers its handshake and its first status.\<close>

definition demo_config :: bridge_config where
  "demo_config = (config_default demo_features)\<lparr>cfg_driver := DrawBridge, cfg_port := Exact (PortId ''COM3'')\<rparr>"

lemma demo_bridge_opens:
  "\<exists>b d w'. bridge_open demo_features (scripted_lib 2 [] (\<lambda>_. [])) sim_host demo_config no_channels []
     (fresh_port (ascii_bytes ''1V1.8'' @ ascii_bytes ''111'' @ ascii_bytes ''11'')) = Some (Inr (b, d), w')"
proof -
  let ?L = "scripted_lib 2 [] (\<lambda>_. []) :: scripted_port port_lib"
  let ?p = "fresh_port (ascii_bytes ''1V1.8'' @ ascii_bytes ''111'' @ ascii_bytes ''11'')"
  obtain d0 where d0: "db_open demo_features ?L (PortId ''COM3'') (config_default demo_features) ?p =
      Some (Inr (scripted 2, d0), db_world d0)"
    "sim_pending (db_world d0) = ascii_bytes ''11''" "db_firmware d0 = (1, 8, 0)"
    using demo_db_opens [of "ascii_bytes ''11''"] by blast
  have same: "db_open demo_features ?L port demo_config = db_open demo_features ?L port (config_default demo_features)"
    for port
  proof -
    have "db_initial port demo_config = (db_initial port (config_default demo_features) :: _ \<Rightarrow> _ \<Rightarrow> scripted_port \<Rightarrow> _)"
      by (intro ext) (simp add: db_initial_def demo_config_def)
    then show ?thesis by (simp only: db_open_def)
  qed
  have fields: "cfg_driver demo_config = DrawBridge" "cfg_port demo_config = Exact (PortId ''COM3'')"
    by (simp_all add: demo_config_def)
  have valid: "validate_config demo_features demo_config = Inr ()"
    by (simp add: validate_config_def demo_config_def config_default_def demo_features_def DRIVERS_def)
  have opens: "device_open demo_features ?L demo_config ?p = Some (Inr (AnyDrawBridge (scripted 2) d0), db_world d0)"
    by (simp add: device_open_def valid candidates_def fields io_bind_def io_run attempt_def open_driver_def same d0(1))
      (simp add: demo_features_def)
  obtain status d1 where status: "db_get_status (scripted 2) d0 = Some (Inr status, d1)"
    using d0(2,3)
    by (simp add: db_get_status_def db_check_disk_def io_bind_def io_run scripted_db_send ascii_bytes_def
        scripted_db_byte [where rest = "[ascii (CHR ''1'')]"] scripted_db_byte [where rest = "[]"] db_set_status_def)
  then have "first_status (AnyDrawBridge (scripted 2) d0) (db_world d0) =
      Some (Inr (status, AnyDrawBridge (scripted 2) d1), db_world d1)"
    by (simp add: first_status_ok dyn_device_def dispatch_def db_device_def any_world_def)
  with opens show ?thesis by (simp add: bridge_open_def io_bind_def io_run)
qed

theorem open_bridge_on_drive_witness:
  "\<exists>b d w'. bridge_open demo_features (scripted_lib 2 [] (\<lambda>_. [])) sim_host demo_config no_channels []
       (fresh_port (ascii_bytes ''1V1.8'' @ ascii_bytes ''111'' @ ascii_bytes ''11'')) = Some (Inr (b, d), w') \<and>
     bridge_selected_port b = PortId ''COM3'' \<and> br_max_cylinders b = 84 \<and> any_cylinder d < 84"
proof -
  let ?E = "\<lparr>se_config = demo_config, se_device = dyn_device, se_host = sim_host, se_sync_order = id,
    se_key_order = id, se_overflow_checks = False\<rparr>"
  obtain b d w' where opens: "bridge_open demo_features (scripted_lib 2 [] (\<lambda>_. [])) sim_host demo_config no_channels []
      (fresh_port (ascii_bytes ''1V1.8'' @ ascii_bytes ''111'' @ ascii_bytes ''11'')) = Some (Inr (b, d), w')"
    using demo_bridge_opens by blast
  have fields: "cfg_driver demo_config = DrawBridge" "cfg_port demo_config = Exact (PortId ''COM3'')"
    by (simp_all add: demo_config_def)
  have "wk_device (worker_new ?E d (th_shared b) []) = d" by (simp add: worker_new_def Let_def split_def)
  then have "bridge_selected_port b = PortId ''COM3'' \<and> br_max_cylinders b = 84 \<and> any_cylinder d < br_max_cylinders b"
    using open_bridge_on_drive [OF opens worker_reaches.start [of ?E "worker_new ?E d (th_shared b) []"], of track_default]
    by (simp add: fields) blast
  with opens show ?thesis by auto
qed

end
