(* ===== verification/Spec2Isabelle.thy ===== *)
theory Spec2Isabelle
  imports Flux_Join Flux_Scan Greaseweazle_Read DrawBridge_Wire SuperCard_Wire Controller_Service Controller_Open
begin

text \<open>
  \<^bold>\<open>FluxBridge: a model of the crate and the theorems about it.\<close>

  FluxBridge drives a real floppy drive for an emulator through one of three interface boards. The
  caller's thread holds a \<^verbatim>\<open>Bridge\<close>; a worker thread owns the device, carries out the
  caller's wishes and writes, and keeps a small cache of captured revolutions. A device backend
  speaks its board's protocol over a bounded transport, and the flux layer turns what a drive
  delivers, the delays between magnetic transitions, into the MFM cells of one revolution.

  \<^bold>\<open>Parts, and the theories that model them.\<close>

  \<^item> Shared vocabulary: \<open>Prelude\<close>. Machine integers are words; checked and saturating
    operations are written out. A method with a mutable receiver and a \<^verbatim>\<open>Result\<close> is an
    \<open>io\<close>, a function from a state to \<open>None\<close>, a panic or a run that does not end, or to
    an error or a value with the state it leaves, on the error paths too.
  \<^item> \<^verbatim>\<open>src/types.rs\<close> and \<^verbatim>\<open>src/error.rs\<close>: \<open>Types\<close>. Values,
    driver names, configurations and their validation (C28, C29).
  \<^item> \<^verbatim>\<open>src/flux/pll.rs\<close>: \<open>Flux_Pll\<close>. The clock and the phase stay in their
    window and never saturate (C24); exact intervals decode to runs of their length (C23).
  \<^item> \<^verbatim>\<open>src/flux/rotation.rs\<close>: \<open>Flux_Rotation\<close> for packing, rotation, cutting
    at the index and the conversion to flux (C1, C9, C25, C26, C27), \<open>Flux_Join\<close> for the search
    of the revolution boundary in a capture without an index (C3, C10).
  \<^item> \<^verbatim>\<open>src/flux/scan.rs\<close>: \<open>Flux_Scan\<close>. The verdict on a revolution is sound
    (C2) and depends neither on the cut nor on the hash order (C8).
  \<^item> \<^verbatim>\<open>src/transport/mod.rs\<close>: \<open>Transport\<close>. Every bounded loop returns, with
    what it promises or an error (C33, C34, C35); the identifiers of direct FTDI ports (C36).
  \<^item> \<^verbatim>\<open>src/device/mod.rs\<close>: \<open>Device\<close>, the record of operations behind
    \<^verbatim>\<open>dyn Device\<close> and the contract of a device; \<open>Device_Open\<close>, the search for one.
    \<open>Stream_Window\<close> holds the wait for a pattern that two backends share.
  \<^item> \<^verbatim>\<open>src/device/greaseweazle.rs\<close>: \<open>Greaseweazle_Codec\<close> (C20),
    \<open>Greaseweazle_Device\<close>, \<open>Greaseweazle_Wire\<close> (C19, C31) and \<open>Greaseweazle_Read\<close>
    (C18, C30, C32).
  \<^item> \<^verbatim>\<open>src/device/drawbridge.rs\<close>: \<open>DrawBridge_Codec\<close> (C37, C38),
    \<open>DrawBridge_Device\<close> and \<open>DrawBridge_Wire\<close> (C16, C17, C39).
  \<^item> \<^verbatim>\<open>src/device/supercard_pro.rs\<close>: \<open>SuperCard_Codec\<close> (C21),
    \<open>SuperCard_Device\<close> and \<open>SuperCard_Wire\<close> (C22, C40).
  \<^item> \<^verbatim>\<open>src/controller.rs\<close>: \<open>Controller_State\<close> for what the threads share,
    \<open>Controller_Bridge\<close> for the caller's methods, \<open>Controller_Worker\<close> for the worker,
    \<open>Controller_Cache\<close> for the cache as a data type (C6), \<open>Controller_Threads\<close> for both
    threads together, \<open>Controller_Safety\<close> and \<open>Controller_Properties\<close> for where writes go
    and what the cache holds (C4, C5, C14), \<open>Controller_Service\<close> for what a caller is promised
    (C11, C12, C13, C15), \<open>Controller_Open\<close> for the way from a configuration to a running
    worker (C7); \<open>Controller_Demo\<close> has the instances the witnesses run on.

  \<^bold>\<open>How state and operations correspond.\<close>

  A struct is a record with the fields of the source behind a prefix: \<open>wk_\<close> for
  \<^verbatim>\<open>Worker\<close>, \<open>br_\<close> for \<^verbatim>\<open>Bridge\<close>, \<open>sh_\<close> for
  \<^verbatim>\<open>Shared\<close>, \<open>gw_\<close>, \<open>db_\<close> and \<open>sc_\<close> for the backends,
  \<open>ds_\<close> for \<^verbatim>\<open>DriveStatus\<close>. A method \<^verbatim>\<open>m\<close> of a backend or of
  the controller is \<open>gw_m\<close>, \<open>db_m\<close>, \<open>scp_m\<close>, \<open>bridge_m\<close> or
  \<open>worker_m\<close>; a long method is cut at its blocks, in their order. A position \<open>ds_cylinder\<close>,
  \<open>ds_side\<close> is what the backend records, not where the head is: a command whose reply is lost
  may have moved it.

  \<^bold>\<open>What is a parameter.\<close>

  The ports and the clock are the record \<open>port_lib\<close> over a state \<open>'w\<close> (the libraries
  serialport and \<^verbatim>\<open>ftdi_nusb\<close> and the standard library's \<^verbatim>\<open>Instant\<close>). The definition
  \<open>transport_laws\<close> states what is relied on of an open port: every read and every write takes
  time, returns, and accounts for the bytes it moved. The channels of crossbeam and the worker's
  clock are the record \<open>host\<close>, with \<open>host_laws\<close>. The orders in which hash tables are
  iterated are functions. Both sets of laws are proved of a scripted port and of channels that are
  lists, on which the witnesses run.

  \<^bold>\<open>Interfaces.\<close>

  \<^item> \<open>capture_store\<close> (in \<open>Controller_Cache\<close>): a bounded queue of captures for each track;
    interpreted on the cache the controller keeps.
  \<^item> \<open>device_contract\<close> (in \<open>Device\<close>): a movement that succeeds is recorded, one that fails is
    recorded or leaves the record alone, the cylinder stays on the drive, other calls do not touch
    it, and a capture is valid; interpreted on each of the three backends, and on the sum of them
    that opening a device yields.
  \<^item> \<open>device_invariant\<close> (in \<open>Controller_Open\<close>): what every call on a device keeps, the worker
    keeps; interpreted on the open device and the range of its head.
  \<^item> \<open>stream_codec\<close> (in \<open>Greaseweazle_Codec\<close>): an encoding of items that is decoded one item
    at a time; interpreted on the flux stream of the Greaseweazle.

  \<^bold>\<open>Two threads.\<close>

  Every access to shared state in the source is a short section under one lock, or one channel or
  clock operation. \<open>share\<close> runs one section of a thread; before it, the other thread may have
  run any number of its own, the next element of the list \<open>th_others\<close>. \<open>caller_act\<close> says
  what the caller's thread can have done, and the methods of the bridge do nothing else. A theorem
  for every such list holds for every interleaving of finite length: a caller that sends for ever
  within one pass of the worker cannot be written down, and C13 does not cover it. The partial
  captures of a read are published after the device has returned rather than during the call, which
  no device can tell.

  \<^bold>\<open>Where a write goes.\<close>

  \<open>head_after\<close> relates a device to the record of what it acknowledged since it was opened: the
  last seek and the last side selection that succeeded, and whether one failed since. C4 is stated
  with it for any device at all, without a contract. What it does not give is the position of the
  head after a movement that failed: the worker then remembers the track before it and does not
  seek again for a request there, which is a finding.

  \<^bold>\<open>Loops and bounds.\<close>

  Loops that end by their data are functions with a measure. Loops that end because a deadline
  passes, the queue runs dry or the firmware says so are partial functions in which a run that
  does not end is \<open>None\<close>; that they return is proved from the laws of the port and the channels
  (C13, C30, C33, C34, C35, C39, C40), with the deadline and the bytes already read as the measure
  and no fuel. A read of a SuperCard Pro and of a DrawBridge is bounded by its largest stream as
  the source bounds it.

  \<^bold>\<open>What the model leaves out.\<close>

  The \<^verbatim>\<open>Display\<close> and \<^verbatim>\<open>Debug\<close> texts, the re-exports of the crate root, the
  creation of the operating system's thread, and the tests against hardware. Strings are ASCII.
  Arithmetic that panics with overflow checks and wraps around without is modelled where it can
  overflow (\<open>starts_at_index\<close>); a division by a zero sample frequency, which opening a device
  excludes, is not a panic here, and C30 supposes the frequency not to be zero.
\<close>

end
